(* ===== verification/Prelude.thy ===== *)
theory Prelude
  imports Main "HOL-Library.Word" "HOL-Library.Multiset"
begin

text \<open>
  What the components of the module library share: names for its machine types, the
  outcomes a C++ operation can have, the standard containers it uses
  (multimap below: std::multimap as a list sorted by key with equal keys in insertion
  order; std::find_if as the first match; erase of the first match), the reading of those
  containers, and the collections of facts that the component proofs use.
\<close>

section \<open>Machine types\<close>

type_synonym u8 = "8 word"
type_synonym u16 = "16 word"
type_synonym u32 = "32 word"
type_synonym i32 = "32 word"

text \<open>
  A point of the clock and a duration, in the clock's ticks (nanoseconds). They are
  unbounded here; the bounds lemma of the timer theory says when the sums the code forms
  stay inside the 64 bits of the real representation.
\<close>

type_synonym time_point = int
type_synonym duration = int

section \<open>Fact collections\<close>

named_theorems op_defs "definitions of the operations of the components"

section \<open>Outcomes of an operation\<close>

text \<open>
  An operation ends with a value and the state it leaves, throws (leaving a state), never
  returns (it waits for a mutex its own caller holds, or loops for ever), or is undefined
  behaviour of C++.
\<close>

datatype ('e, 'a, 's) outcome = Done 'a 's | Throws 'e 's | Blocks | Undefined

fun andThen :: "('e, 'a, 's) outcome \<Rightarrow> ('a \<Rightarrow> 's \<Rightarrow> ('e, 'b, 's) outcome) \<Rightarrow> ('e, 'b, 's) outcome" where
  "andThen (Done a s) f = f a s"
| "andThen (Throws e s) f = Throws e s"
| "andThen Blocks f = Blocks"
| "andThen Undefined f = Undefined"

lemma andThen_Done_iff:
  "andThen r f = Done b t \<longleftrightarrow> (\<exists>a s. r = Done a s \<and> f a s = Done b t)"
  by (cases r) auto

lemma andThen_Undefined_iff:
  "andThen r f = Undefined \<longleftrightarrow> r = Undefined \<or> (\<exists>a s. r = Done a s \<and> f a s = Undefined)"
  by (cases r) auto

lemma andThen_assoc: "andThen (andThen r f) g = andThen r (\<lambda>a s. andThen (f a s) g)"
  by (cases r) auto

section \<open>Sequences: the first match and its removal\<close>

text \<open>std::find_if is \<^const>\<open>List.find\<close>; erasing the iterator it returns removes the first match.\<close>

fun erase_first :: "('a \<Rightarrow> bool) \<Rightarrow> 'a list \<Rightarrow> 'a list" where
  "erase_first P [] = []"
| "erase_first P (x # xs) = (if P x then xs else x # erase_first P xs)"

lemma erase_first_none: "find P xs = None \<Longrightarrow> erase_first P xs = xs"
  by (induction xs) (auto split: if_splits)

lemma mset_erase_first:
  "find P xs = Some x \<Longrightarrow> mset xs = add_mset x (mset (erase_first P xs))"
  by (induction xs) (auto split: if_splits)

lemma find_SomeD: "find P xs = Some x \<Longrightarrow> x \<in> set xs \<and> P x"
  by (induction xs) (auto split: if_splits)

lemma find_None_all: "find P xs = None \<Longrightarrow> x \<in> set xs \<Longrightarrow> \<not> P x"
  by (auto simp: find_None_iff)

lemma set_erase_first_subset: "set (erase_first P xs) \<subseteq> set xs"
  by (induction xs) auto

lemma length_erase_first:
  "length (erase_first P xs) = (if find P xs = None then length xs else length xs - 1)"
proof (induction xs)
  case (Cons x xs)
  then show ?case by (cases xs) auto
qed simp

lemma sorted_map_erase_first: "sorted (map f xs) \<Longrightarrow> sorted (map f (erase_first P xs))"
  by (induction xs) (use set_erase_first_subset in \<open>fastforce+\<close>)

lemma erase_first_distinct:
  "distinct (map f xs) \<Longrightarrow> erase_first (\<lambda>x. f x = a) xs = filter (\<lambda>x. f x \<noteq> a) xs"
proof (induction xs)
  case (Cons x xs)
  show ?case
  proof (cases "f x = a")
    case True
    with Cons.prems have "\<forall>y \<in> set xs. f y \<noteq> a" by (metis distinct.simps(2) image_eqI list.simps(9) set_map)
    then have "filter (\<lambda>y. f y \<noteq> a) xs = xs" by (simp add: filter_True)
    with True show ?thesis by simp
  next
    case False
    with Cons show ?thesis by simp
  qed
qed simp

lemma find_distinct:
  "distinct (map f xs) \<Longrightarrow> x \<in> set xs \<Longrightarrow> find (\<lambda>y. f y = f x) xs = Some x"
proof (induction xs)
  case (Cons a xs)
  show ?case
  proof (cases "x = a")
    case False
    with Cons.prems have "x \<in> set xs" and "f a \<noteq> f x" by auto
    with Cons show ?thesis by simp
  qed simp
qed simp

section \<open>std::map\<close>

text \<open>\<open>emplace\<close> keeps the value of a key that is already there.\<close>

definition map_emplace :: "'k \<Rightarrow> 'v \<Rightarrow> ('k \<rightharpoonup> 'v) \<Rightarrow> ('k \<rightharpoonup> 'v)" where
  "map_emplace k v m = (if m k = None then m(k \<mapsto> v) else m)"

section \<open>std::multimap\<close>

text \<open>
  A multimap is the list of its entries in iteration order. \<open>insert\<close> and \<open>emplace\<close> put a
  new entry after every entry whose key is not greater.
\<close>

fun mm_insert :: "'k::linorder \<Rightarrow> 'v \<Rightarrow> ('k \<times> 'v) list \<Rightarrow> ('k \<times> 'v) list" where
  "mm_insert k v [] = [(k, v)]"
| "mm_insert k v (e # es) = (if k < fst e then (k, v) # e # es else e # mm_insert k v es)"

text \<open>\<open>equal_range\<close>: from the first entry whose key is not less to the first that is greater.\<close>

definition mm_equal_range :: "'k::linorder \<Rightarrow> ('k \<times> 'v) list \<Rightarrow> ('k \<times> 'v) list" where
  "mm_equal_range k es = takeWhile (\<lambda>e. \<not> k < fst e) (dropWhile (\<lambda>e. fst e < k) es)"

abbreviation mm_sorted :: "('k::linorder \<times> 'v) list \<Rightarrow> bool" where
  "mm_sorted es \<equiv> sorted (map fst es)"

lemma mset_mm_insert [simp]: "mset (mm_insert k v es) = add_mset (k, v) (mset es)"
  by (induction es) auto

lemma set_mm_insert [simp]: "set (mm_insert k v es) = insert (k, v) (set es)"
  by (induction es) auto

lemma length_mm_insert [simp]: "length (mm_insert k v es) = Suc (length es)"
  by (induction es) auto

lemma mm_insert_not_Nil [simp]: "mm_insert k v es \<noteq> []"
  by (cases es) auto

lemma mm_sorted_insert: "mm_sorted es \<Longrightarrow> mm_sorted (mm_insert k v es)"
  by (induction es) auto

lemma filter_mm_insert_other: "\<not> P (k, v) \<Longrightarrow> filter P (mm_insert k v es) = filter P es"
  by (induction es) auto

lemma filter_key_mm_insert:
  "mm_sorted es \<Longrightarrow>
    filter (\<lambda>e. fst e = k) (mm_insert k v es) = filter (\<lambda>e. fst e = k) es @ [(k, v)]"
proof (induction es)
  case (Cons e es)
  show ?case
  proof (cases "k < fst e")
    case True
    with Cons.prems have "\<forall>x \<in> set (e # es). fst x \<noteq> k" by fastforce
    then have "filter (\<lambda>e. fst e = k) (e # es) = []" by (simp add: filter_empty_conv)
    with True show ?thesis by simp
  next
    case False
    with Cons show ?thesis by simp
  qed
qed simp

lemma mm_sorted_filter: "mm_sorted es \<Longrightarrow> mm_sorted (filter P es)"
  by (induction es) auto

lemma takeWhile_not_greater:
  "mm_sorted es \<Longrightarrow> \<forall>e \<in> set es. k \<le> fst e \<Longrightarrow>
    takeWhile (\<lambda>e. \<not> k < fst e) es = filter (\<lambda>e. fst e = k) es"
proof (induction es)
  case (Cons e es)
  show ?case
  proof (cases "k < fst e")
    case True
    with Cons.prems have "\<forall>x \<in> set (e # es). fst x \<noteq> k" by fastforce
    then have "filter (\<lambda>e. fst e = k) (e # es) = []" by (simp add: filter_empty_conv)
    with True show ?thesis by simp
  next
    case False
    with Cons.prems have "fst e = k" by auto
    with Cons show ?thesis by simp
  qed
qed simp

lemma mm_equal_range_filter:
  "mm_sorted es \<Longrightarrow> mm_equal_range k es = filter (\<lambda>e. fst e = k) es"
proof (induction es)
  case (Cons e es)
  show ?case
  proof (cases "fst e < k")
    case True
    with Cons show ?thesis by (simp add: mm_equal_range_def)
  next
    case False
    with Cons.prems have "\<forall>x \<in> set (e # es). k \<le> fst x" by auto
    with Cons.prems False show ?thesis
      using takeWhile_not_greater [of "e # es" k] by (simp add: mm_equal_range_def)
  qed
qed (simp add: mm_equal_range_def)

end
