(* ===== verification/Identifiers.thy ===== *)
theory Identifiers
  imports Prelude
begin

unbundle bit_operations_syntax

text \<open>
  Types.hpp and Types.cpp: 32-bit identifiers whose most significant byte tells modules
  (0x2A) from services (0x34). The union IdentifierUnion is read and written byte by byte;
  bytes[0] is the least significant byte, as on the little-endian targets of the build (the
  service identifier 872415233 = 0x34000001 of the example module is toServiceIdentifier(1)).
  Identifiers are int32_t in the code and a 32-bit word here, read with \<^const>\<open>sint\<close> where
  the sign matters.
\<close>

section \<open>The union of an identifier and its bytes\<close>

text \<open>Reading bytes[i] and storing b into bytes[i] of a union that holds the identifier.\<close>

definition union_byte :: "i32 \<Rightarrow> nat \<Rightarrow> u8" where
  "union_byte identifier i = ucast (drop_bit (8 * i) identifier)"

definition union_set_byte :: "i32 \<Rightarrow> nat \<Rightarrow> u8 \<Rightarrow> i32" where
  "union_set_byte identifier i b =
     (identifier AND NOT (push_bit (8 * i) 0xFF)) OR push_bit (8 * i) (ucast b)"

definition ModuleIdentifierCode :: u8 where
  "ModuleIdentifierCode = 0x2A"

definition ServiceIdentifierCode :: u8 where
  "ServiceIdentifierCode = 0x34"

section \<open>The operations\<close>

definition isModuleIdentifier :: "i32 \<Rightarrow> bool" where
  "isModuleIdentifier identifier \<longleftrightarrow> union_byte identifier 3 = ModuleIdentifierCode"

definition toModuleIdentifier :: "i32 \<Rightarrow> i32" where
  "toModuleIdentifier identifier =
     (if union_byte identifier 3 \<noteq> 0 then - 1
      else union_set_byte identifier 3 ModuleIdentifierCode)"

text \<open>
  The condition of the code is the assignment bytes[3] = 0, whose value 0 is false, so the
  branch that would answer false is never taken. The model keeps the assignment and tests
  the value it assigned.
\<close>

text \<open>ApplicationDetails.cpp: an older test, on names, that nothing calls.\<close>

definition ModuleIdentifierLength :: nat where
  "ModuleIdentifierLength = 16"

definition MaxExecutableNameLength :: nat where
  "MaxExecutableNameLength = 16"

text \<open>The two array types: a text is a value of one when it has exactly its length.\<close>

definition is_ModuleIdentifier :: "string \<Rightarrow> bool" where
  "is_ModuleIdentifier name \<longleftrightarrow> length name = ModuleIdentifierLength"

definition is_ExecutableName :: "string \<Rightarrow> bool" where
  "is_ExecutableName name \<longleftrightarrow> length name = MaxExecutableNameLength"

definition isModuleIdentifierType :: "string \<Rightarrow> bool" where
  "isModuleIdentifierType moduleIdentifier = (length moduleIdentifier > ModuleIdentifierLength)"

text \<open>The test accepts no text that the array type holds, and no shorter one.\<close>

lemma isModuleIdentifierType_too_long:
  "isModuleIdentifierType name \<Longrightarrow> \<not> is_ModuleIdentifier (name @ padding) \<and> \<not> is_ExecutableName (name @ padding)"
  by (simp add: isModuleIdentifierType_def is_ModuleIdentifier_def is_ExecutableName_def ModuleIdentifierLength_def
      MaxExecutableNameLength_def)

text \<open>
  ModuleRegistrationState.hpp, which nothing creates: a flag with its mutex, here whether it is
  locked, and its condition variable, here the threads that wait on it.
\<close>

record ModuleRegistrationState =
  stateLock :: bool
  stateCondition :: nat
  registrationState :: bool

definition canBeModuleIdentifier :: "i32 \<Rightarrow> bool" where
  "canBeModuleIdentifier identifier =
     (let assigned = (0 :: u8);
          identifierUnion = union_set_byte identifier 3 assigned
      in if assigned \<noteq> 0 then False else True)"

definition canBeServiceIdentifier :: "i32 \<Rightarrow> bool" where
  "canBeServiceIdentifier identifier \<longleftrightarrow> union_byte identifier 3 = ServiceIdentifierCode"

definition isServiceIdentifier :: "i32 \<Rightarrow> bool" where
  "isServiceIdentifier identifier \<longleftrightarrow> union_byte identifier 3 = ServiceIdentifierCode"

definition toServiceIdentifier :: "i32 \<Rightarrow> i32" where
  "toServiceIdentifier identifier =
     (if union_byte identifier 3 \<noteq> 0 then - 1
      else union_set_byte identifier 3 ServiceIdentifierCode)"

definition getMinimalModuleIdentifier :: i32 where
  "getMinimalModuleIdentifier = union_set_byte 0 3 ModuleIdentifierCode"

lemmas identifier_defs = isModuleIdentifier_def toModuleIdentifier_def canBeModuleIdentifier_def
  canBeServiceIdentifier_def isServiceIdentifier_def toServiceIdentifier_def
  getMinimalModuleIdentifier_def ModuleIdentifierCode_def ServiceIdentifierCode_def

section \<open>Bytes of an identifier\<close>

lemma bit_union_byte: "i < 4 \<Longrightarrow> bit (union_byte w i) n \<longleftrightarrow> n < 8 \<and> bit w (8 * i + n)"
  by (auto simp: union_byte_def bit_simps)

lemma bit_0xFF: "bit (0xFF :: int) n \<longleftrightarrow> n < 8"
proof -
  have eq: "(0xFF :: int) = mask 8" by (simp add: mask_eq_exp_minus_1)
  show ?thesis by (subst eq, subst bit_mask_iff) auto
qed

lemma bit_u8_bound: "bit (b :: u8) n \<Longrightarrow> n < 8"
  using bit_imp_le_length [of b n] by simp

lemma bit_union_set_byte:
  "i < 4 \<Longrightarrow> n < 32 \<Longrightarrow> bit (union_set_byte w i b) n =
    (if 8 * i \<le> n \<and> n < 8 * i + 8 then bit b (n - 8 * i) else bit w n)"
  by (auto simp: union_set_byte_def bit_simps bit_0xFF dest: bit_u8_bound)

lemma union_byte_set_same: "i < 4 \<Longrightarrow> union_byte (union_set_byte w i b) i = b"
  by (rule bit_word_eqI) (simp add: bit_union_byte bit_union_set_byte)

lemma union_byte_set_other:
  "i < 4 \<Longrightarrow> j < 4 \<Longrightarrow> i \<noteq> j \<Longrightarrow> union_byte (union_set_byte w i b) j = union_byte w j"
  by (rule bit_word_eqI) (auto simp: bit_union_byte bit_union_set_byte)

lemma union_set_byte_get: "i < 4 \<Longrightarrow> union_set_byte w i (union_byte w i) = w"
  by (rule bit_word_eqI) (auto simp: bit_union_byte bit_union_set_byte)

lemma union_set_set: "i < 4 \<Longrightarrow> union_set_byte (union_set_byte w i b) i c = union_set_byte w i c"
  by (rule bit_word_eqI) (auto simp: bit_union_set_byte)

lemma unat_union_byte_3: "unat (union_byte w 3) = unat w div 2 ^ 24"
proof -
  have "unat w div 2 ^ 24 < 256"
    using unsigned_less [where ?'a = nat, of w] by (simp add: less_mult_imp_div_less)
  then show ?thesis
    by (simp add: union_byte_def unsigned_ucast_eq take_bit_eq_mod unat_drop_bit_eq
        drop_bit_eq_div unat_div)
qed

lemma union_byte_minus_1: "i < 4 \<Longrightarrow> union_byte (- 1) i = 0xFF"
proof -
  assume "i < 4"
  then have "union_byte (- 1) i = - 1"
    by (intro bit_word_eqI) (simp add: bit_union_byte)
  then show ?thesis by simp
qed

section \<open>The contract of a tagged identifier\<close>

text \<open>
  Modules and services share one scheme: a code for the top byte, a test and a conversion.
  The laws below are proved once and interpreted for both.
\<close>

locale tagged_identifier =
  fixes tag :: u8 and is_tagged :: "i32 \<Rightarrow> bool" and to_tagged :: "i32 \<Rightarrow> i32"
  assumes tag_not_error: "tag \<noteq> 0xFF"
    and is_tagged_iff: "is_tagged w \<longleftrightarrow> union_byte w 3 = tag"
    and to_tagged_raw: "union_byte w 3 = 0 \<Longrightarrow> to_tagged w = union_set_byte w 3 tag"
    and to_tagged_error: "union_byte w 3 \<noteq> 0 \<Longrightarrow> to_tagged w = - 1"
begin

lemma error_not_tagged: "\<not> is_tagged (- 1)"
  using tag_not_error by (auto simp: is_tagged_iff union_byte_minus_1)

lemma is_tagged_to_tagged: "is_tagged (to_tagged w) \<longleftrightarrow> union_byte w 3 = 0"
proof (cases "union_byte w 3 = 0")
  case True
  then show ?thesis by (simp add: to_tagged_raw is_tagged_iff union_byte_set_same)
next
  case False
  then show ?thesis by (simp add: to_tagged_error error_not_tagged)
qed

lemma to_tagged_low_bytes:
  "union_byte w 3 = 0 \<Longrightarrow> j < 3 \<Longrightarrow> union_byte (to_tagged w) j = union_byte w j"
  by (simp add: to_tagged_raw union_byte_set_other)

lemma untag_to_tagged: "union_byte w 3 = 0 \<Longrightarrow> union_set_byte (to_tagged w) 3 0 = w"
  using union_set_byte_get [of 3 w] by (simp add: to_tagged_raw union_set_set)

lemma to_tagged_untag: "is_tagged v \<Longrightarrow> to_tagged (union_set_byte v 3 0) = v"
  using union_set_byte_get [of 3 v]
  by (simp add: to_tagged_raw is_tagged_iff union_set_set union_byte_set_same)

lemma to_tagged_bij: "bij_betw to_tagged {w. union_byte w 3 = 0} {v. is_tagged v}"
  by (rule bij_betw_byWitness [where f' = "\<lambda>v. union_set_byte v 3 0"])
    (auto simp: untag_to_tagged to_tagged_untag is_tagged_to_tagged union_byte_set_same)

end

interpretation module_id: tagged_identifier ModuleIdentifierCode isModuleIdentifier toModuleIdentifier
  by unfold_locales (auto simp: identifier_defs)

interpretation service_id: tagged_identifier ServiceIdentifierCode isServiceIdentifier toServiceIdentifier
  by unfold_locales (auto simp: identifier_defs)

section \<open>Properties\<close>

text \<open>
  toModuleIdentifier maps the identifiers whose top byte is zero one-to-one onto exactly the
  module identifiers, keeping the three low bytes, and answers -1, which is no module
  identifier, for every other input.
\<close>
lemma module_identifier_bijection:
  "bij_betw toModuleIdentifier {w. union_byte w 3 = 0} {v. isModuleIdentifier v} \<and>
   (\<forall>w. isModuleIdentifier (toModuleIdentifier w) = (union_byte w 3 = 0)) \<and>
   (\<forall>w. (if union_byte w 3 = 0
         then [union_byte (toModuleIdentifier w) j. j \<leftarrow> [0, 1, 2]] = [union_byte w j. j \<leftarrow> [0, 1, 2]]
         else toModuleIdentifier w = - 1))"
  using module_id.to_tagged_bij
  by (simp add: module_id.is_tagged_to_tagged module_id.to_tagged_low_bytes module_id.to_tagged_error)

text \<open>
  Converting a raw identifier to a service identifier and clearing the tag byte gives the raw
  identifier back, and every service identifier is the conversion of its untagged form.
\<close>
lemma service_identifier_roundtrip:
  "(union_byte w 3 = 0 \<longrightarrow>
      isServiceIdentifier (toServiceIdentifier w) \<and> union_set_byte (toServiceIdentifier w) 3 0 = w) \<and>
   (isServiceIdentifier v \<longrightarrow> toServiceIdentifier (union_set_byte v 3 0) = v)"
  by (simp add: service_id.is_tagged_to_tagged service_id.untag_to_tagged service_id.to_tagged_untag)

text \<open>
  getMinimalModuleIdentifier is a module identifier and, as a signed 32-bit number, the least
  of them; no identifier is both a module and a service identifier.
\<close>
lemma minimal_module_identifier:
  "isModuleIdentifier getMinimalModuleIdentifier \<and>
   (\<forall>w \<in> {w. isModuleIdentifier w}. sint getMinimalModuleIdentifier \<le> sint w \<and> \<not> isServiceIdentifier w)"
proof -
  have "sint getMinimalModuleIdentifier \<le> sint w" if "isModuleIdentifier w" for w
  proof -
    from that have "unat w div 2 ^ 24 = 42"
      using unat_union_byte_3 [of w] by (simp add: identifier_defs)
    then have lo: "42 * 2 ^ 24 \<le> unat w" and hi: "unat w < 43 * 2 ^ 24"
      using div_times_less_eq_dividend [of "unat w" "2 ^ 24"]
        dividend_less_div_times [of "2 ^ 24" "unat w"] by simp_all
    obtain n where n: "unat w = n" and un: "uint w = int n" by simp
    from lo hi have lo': "42 * 2 ^ 24 \<le> uint w" and "uint w < 2 ^ 31"
      unfolding n un by simp_all
    then have "sint w = uint w"
      by (simp add: sint_uint signed_take_bit_int_eq_self)
    with lo' show ?thesis
      by (simp add: identifier_defs union_set_byte_def)
  qed
  then show ?thesis
    by (simp add: identifier_defs union_byte_set_same)
qed

text \<open>
  canBeModuleIdentifier answers true for every identifier, although toModuleIdentifier refuses
  every identifier whose top byte is not zero: the assignment in its condition never fails.
\<close>
lemma canBeModuleIdentifier_accepts_all:
  "canBeModuleIdentifier w \<and> (toModuleIdentifier w = - 1) = (union_byte w 3 \<noteq> 0)"
proof -
  have "union_set_byte w 3 ModuleIdentifierCode \<noteq> - 1"
  proof
    assume "union_set_byte w 3 ModuleIdentifierCode = - 1"
    then have "union_byte (- 1) 3 = ModuleIdentifierCode"
      using union_byte_set_same [of 3 w ModuleIdentifierCode] by simp
    then show False by (simp add: union_byte_minus_1 ModuleIdentifierCode_def)
  qed
  then show ?thesis by (simp add: canBeModuleIdentifier_def toModuleIdentifier_def)
qed

end
