(* ===== verification/Timers.thy ===== *)
theory Timers
  imports Prelude
begin

text \<open>
  Timer.hpp and Timer.cpp: TimerInterface and its template Timer<T>. A timer is one record:
  the fields of TimerInterface, then the callback function (\<^const>\<open>None\<close> is a null
  std::function) and its parameters. The clock is an argument of every operation that reads
  it. A callback is run by a parameter of the model that says what calling the function on
  its parameters does to the rest of the program.
\<close>

section \<open>The data\<close>

datatype ActionStatus = Waiting | Running | Ended

record ('f, 'p) timer =
  active :: bool
  repeatable :: bool
  actionStatus :: ActionStatus
  timerID :: u32
  startTimestamp :: time_point
  duration :: duration
  callbackFunction :: "'f option"
  callbackParameters :: 'p

section \<open>TimerInterface\<close>

text \<open>
  The constructor of Timer<T> from a function and its parameters, over the constructor of
  TimerInterface.
\<close>

definition new_timer :: "time_point \<Rightarrow> 'f option \<Rightarrow> 'p \<Rightarrow> ('f, 'p) timer" where
  "new_timer now callbackFunc parameters =
     \<lparr>active = True, repeatable = False, actionStatus = Waiting, timerID = 0,
      startTimestamp = now, duration = 0,
      callbackFunction = callbackFunc, callbackParameters = parameters\<rparr>"

definition setActive :: "bool \<Rightarrow> ('f, 'p) timer \<Rightarrow> ('f, 'p) timer" where
  "setActive b t = t\<lparr>active := b\<rparr>"

definition isActive :: "('f, 'p) timer \<Rightarrow> bool" where
  "isActive t = active t"

definition setRepeatable :: "bool \<Rightarrow> ('f, 'p) timer \<Rightarrow> ('f, 'p) timer" where
  "setRepeatable b t = t\<lparr>repeatable := b\<rparr>"

definition isRepeatable :: "('f, 'p) timer \<Rightarrow> bool" where
  "isRepeatable t = repeatable t"

definition setTimerID :: "u32 \<Rightarrow> ('f, 'p) timer \<Rightarrow> ('f, 'p) timer" where
  "setTimerID i t = t\<lparr>timerID := i\<rparr>"

definition getTimerID :: "('f, 'p) timer \<Rightarrow> u32" where
  "getTimerID t = timerID t"

definition setStartTimestamp :: "time_point \<Rightarrow> ('f, 'p) timer \<Rightarrow> ('f, 'p) timer" where
  "setStartTimestamp s t = t\<lparr>startTimestamp := s\<rparr>"

definition getStartTimestamp :: "('f, 'p) timer \<Rightarrow> time_point" where
  "getStartTimestamp t = startTimestamp t"

definition setDuration :: "duration \<Rightarrow> ('f, 'p) timer \<Rightarrow> ('f, 'p) timer" where
  "setDuration d t = t\<lparr>duration := d\<rparr>"

definition getDuration :: "('f, 'p) timer \<Rightarrow> duration" where
  "getDuration t = duration t"

definition setExpirationTimestamp :: "time_point \<Rightarrow> time_point \<Rightarrow> ('f, 'p) timer \<Rightarrow> ('f, 'p) timer" where
  "setExpirationTimestamp now expirationTime t =
     (let t' = t\<lparr>startTimestamp := now\<rparr> in t'\<lparr>duration := expirationTime - startTimestamp t'\<rparr>)"

definition getExpirationTimestamp :: "('f, 'p) timer \<Rightarrow> time_point" where
  "getExpirationTimestamp t = startTimestamp t + duration t"

definition setActionStatus :: "ActionStatus \<Rightarrow> ('f, 'p) timer \<Rightarrow> ('f, 'p) timer" where
  "setActionStatus a t = t\<lparr>actionStatus := a\<rparr>"

definition getActionStatus :: "('f, 'p) timer \<Rightarrow> ActionStatus" where
  "getActionStatus t = actionStatus t"

text \<open>restartTimer moves the start to now and leaves the status as it is.\<close>

definition restart_timer :: "time_point \<Rightarrow> ('f, 'p) timer \<Rightarrow> ('f, 'p) timer" where
  "restart_timer now t = t\<lparr>startTimestamp := now\<rparr>"

definition setCallbackParameters :: "'p \<Rightarrow> ('f, 'p) timer \<Rightarrow> ('f, 'p) timer" where
  "setCallbackParameters p t = t\<lparr>callbackParameters := p\<rparr>"

definition getCallbackParameters :: "('f, 'p) timer \<Rightarrow> 'p" where
  "getCallbackParameters t = callbackParameters t"

definition setCallbackFunction :: "'f option \<Rightarrow> ('f, 'p) timer \<Rightarrow> ('f, 'p) timer" where
  "setCallbackFunction f t = t\<lparr>callbackFunction := f\<rparr>"

definition getCallbackFunction :: "('f, 'p) timer \<Rightarrow> 'f option" where
  "getCallbackFunction t = callbackFunction t"

definition isCallbackFunctionSet :: "('f, 'p) timer \<Rightarrow> bool" where
  "isCallbackFunctionSet t \<longleftrightarrow> callbackFunction t \<noteq> None"

lemmas timer_defs [op_defs] = new_timer_def setActive_def isActive_def setRepeatable_def
  isRepeatable_def setTimerID_def getTimerID_def setStartTimestamp_def getStartTimestamp_def
  setDuration_def getDuration_def setExpirationTimestamp_def getExpirationTimestamp_def
  setActionStatus_def getActionStatus_def restart_timer_def setCallbackParameters_def
  getCallbackParameters_def setCallbackFunction_def getCallbackFunction_def
  isCallbackFunctionSet_def

section \<open>Running the callback\<close>

text \<open>
  What a call of a callback does: it returns, throws, or never returns because it waits for
  a mutex its caller holds. \<open>'w\<close> is the state of the rest of the program.
\<close>

datatype 'w cb_outcome = Returned 'w | Threw 'w | NeverReturns

text \<open>
  The status is Running while the callback runs and Ended only when it returned. Calling a
  null std::function throws bad_function_call. The timer comes back with the outcome.
\<close>

definition runCallbackFunction ::
    "('f \<Rightarrow> 'p \<Rightarrow> 'w \<Rightarrow> 'w cb_outcome) \<Rightarrow> ('f, 'p) timer \<Rightarrow> 'w \<Rightarrow> ('f, 'p) timer \<times> 'w cb_outcome" where
  "runCallbackFunction call t w =
     (let t1 = t\<lparr>actionStatus := Running\<rparr>;
          r = (case callbackFunction t1 of None \<Rightarrow> Threw w | Some f \<Rightarrow> call f (callbackParameters t1) w)
      in case r of
           Returned w' \<Rightarrow> (t1\<lparr>actionStatus := Ended\<rparr>, Returned w')
         | Threw w' \<Rightarrow> (t1, Threw w')
         | NeverReturns \<Rightarrow> (t1, NeverReturns))"

lemma runCallbackFunction_status:
  "fst (runCallbackFunction call t w) =
     t\<lparr>actionStatus := (case snd (runCallbackFunction call t w) of Returned _ \<Rightarrow> Ended | _ \<Rightarrow> Running)\<rparr>"
  by (simp add: runCallbackFunction_def Let_def split: cb_outcome.split)

section \<open>Expiration\<close>

lemma expiration_restart: "getExpirationTimestamp (restart_timer now t) = now + duration t"
  by (simp add: op_defs)

lemma expiration_setExpiration: "getExpirationTimestamp (setExpirationTimestamp now e t) = e"
  by (simp add: op_defs Let_def)

text \<open>
  std::chrono::seconds of a 32-bit count, in nanoseconds.
\<close>

definition seconds :: "u32 \<Rightarrow> duration" where
  "seconds n = 1000000000 * uint n"

text \<open>The values of the 64-bit representation of a time point or duration.\<close>

definition fits_time_rep :: "int \<Rightarrow> bool" where
  "fits_time_rep x \<longleftrightarrow> - (2 ^ 63) \<le> x \<and> x < 2 ^ 63"

section \<open>Properties\<close>

text \<open>
  For every configured 32-bit number of seconds, and as long as the clock is below 2^62
  nanoseconds (the year 2116), a timer started now with that duration expires at a time that
  fits the 64-bit clock: the sum in getExpirationTimestamp does not overflow, and it is never
  before the start.
\<close>
lemma resend_expiration_no_overflow:
  assumes "0 \<le> now" and "now < 2 ^ 62"
  shows "fits_time_rep (seconds n) \<and>
    fits_time_rep (getExpirationTimestamp (setDuration (seconds n) (new_timer now f p))) \<and>
    now \<le> getExpirationTimestamp (setDuration (seconds n) (new_timer now f p))"
proof -
  obtain m where "uint n = m" and "0 \<le> m" and "m < 2 ^ 32"
    using uint_lt2p [of n] by simp
  with assms show ?thesis
    by (simp add: fits_time_rep_def seconds_def op_defs)
qed

end
