(* ===== verification/Timers_Cache.thy ===== *)
theory Timers_Cache
  imports Timers
begin

text \<open>
  TimersCache.hpp and TimersCache.cpp: the store of all timers, a multimap from expiration to
  timer behind the mutex timersLock, with the flag timersInvokedStatus and the condition
  variable timersInvoked that wake the timers thread. The mutex is a field that says whether
  some thread holds it: an operation that locks it while it is held does not return (value
  \<^const>\<open>None\<close>), which is how a callback that runs inside the locked loop of
  triggerExpiredTimers and calls back into the cache shows up. The condition variable is the
  number of notifications sent so far. now() is an argument, one per call.
\<close>

section \<open>The state\<close>

type_synonym ('f, 'p) entry = "time_point \<times> ('f, 'p) timer"

record ('f, 'p) timers_cache =
  timersLock :: bool
  timersInvoked :: nat
  timersInvokedStatus :: bool
  timers :: "('f, 'p) entry list"

definition empty_timers_cache :: "('f, 'p) timers_cache" where
  "empty_timers_cache = \<lparr>timersLock = False, timersInvoked = 0, timersInvokedStatus = False, timers = []\<rparr>"

definition smallestTimerID :: u32 where
  "smallestTimerID = 1"

abbreviation entry_id :: "('f, 'p) entry \<Rightarrow> u32" where
  "entry_id e \<equiv> timerID (snd e)"

abbreviation timer_ids :: "('f, 'p) timers_cache \<Rightarrow> u32 list" where
  "timer_ids c \<equiv> map entry_id (timers c)"

section \<open>Registering and removing\<close>

text \<open>
  The search for a free identifier, from the smallest up. The counter is 32 bits wide and
  wraps; when every identifier is taken the loop does not end (no value).
\<close>

partial_function (option) searchTimerID :: "('f, 'p) entry list \<Rightarrow> u32 \<Rightarrow> u32 option" where
  "searchTimerID es i = (if list_ex (\<lambda>e. entry_id e = i) es then searchTimerID es (i + 1) else Some i)"

definition generateTimerID :: "('f, 'p) timers_cache \<Rightarrow> u32 option" where
  "generateTimerID c = searchTimerID (timers c) smallestTimerID"

definition internalRegisterTimer ::
    "('f, 'p) timer option \<Rightarrow> ('f, 'p) timers_cache \<Rightarrow> (u32 \<times> ('f, 'p) timers_cache) option" where
  "internalRegisterTimer newTimer c =
     (if timersLock c then None
      else case generateTimerID c of None \<Rightarrow> None
        | Some newTimerID \<Rightarrow>
           (case newTimer of None \<Rightarrow> Some (0, c)
            | Some t \<Rightarrow>
               (let t' = setTimerID newTimerID t
                in Some (newTimerID,
                     c\<lparr>timersInvokedStatus := True,
                       timers := mm_insert (getExpirationTimestamp t') t' (timers c)\<rparr>))))"

definition notify_one :: "('f, 'p) timers_cache \<Rightarrow> ('f, 'p) timers_cache" where
  "notify_one c = c\<lparr>timersInvoked := Suc (timersInvoked c)\<rparr>"

definition registerTimer ::
    "('f, 'p) timer option \<Rightarrow> ('f, 'p) timers_cache \<Rightarrow> (u32 \<times> ('f, 'p) timers_cache) option" where
  "registerTimer newTimer c = map_option (\<lambda>(i, c'). (i, notify_one c')) (internalRegisterTimer newTimer c)"

definition registerTimerNoLock ::
    "('f, 'p) timer option \<Rightarrow> ('f, 'p) timers_cache \<Rightarrow> (u32 \<times> ('f, 'p) timers_cache) option" where
  "registerTimerNoLock newTimer c =
     (case generateTimerID c of None \<Rightarrow> None
      | Some newTimerID \<Rightarrow>
         (case newTimer of None \<Rightarrow> Some (0, c)
          | Some t \<Rightarrow>
             (let t' = setTimerID newTimerID t
              in Some (newTimerID,
                   c\<lparr>timers := mm_insert (getExpirationTimestamp t') t' (timers c)\<rparr>))))"

definition internalRemoveTimer ::
    "u32 \<Rightarrow> ('f, 'p) timers_cache \<Rightarrow> (bool \<times> ('f, 'p) timers_cache) option" where
  "internalRemoveTimer i c =
     (if timersLock c then None
      else case find (\<lambda>e. entry_id e = i) (timers c) of
          None \<Rightarrow> Some (False, c)
        | Some _ \<Rightarrow> Some (True, c\<lparr>timersInvokedStatus := True,
                                 timers := erase_first (\<lambda>e. entry_id e = i) (timers c)\<rparr>))"

definition removeTimer :: "u32 \<Rightarrow> ('f, 'p) timers_cache \<Rightarrow> ('f, 'p) timers_cache option" where
  "removeTimer i c =
     map_option (\<lambda>(removed, c'). if removed then notify_one c' else c') (internalRemoveTimer i c)"

definition cache_size :: "('f, 'p) timers_cache \<Rightarrow> nat option" where
  "cache_size c = (if timersLock c then None else Some (length (timers c)))"

section \<open>Expiration\<close>

definition getExpiredTimers :: "time_point \<Rightarrow> ('f, 'p) timers_cache \<Rightarrow> ('f, 'p) entry list option" where
  "getExpiredTimers now c =
     (if timersLock c then None else Some (filter (\<lambda>e. fst e < now) (timers c)))"

definition nextExpirationTimestamp :: "('f, 'p) timers_cache \<Rightarrow> time_point option option" where
  "nextExpirationTimestamp c =
     (if timersLock c then None
      else Some (case timers c of [] \<Rightarrow> None | e # _ \<Rightarrow> Some (fst e)))"

text \<open>
  The loop of triggerExpiredTimers over the entries, in iteration order: each callback runs on
  a thread of its own, but the future returned by std::async is destroyed at once and its
  destructor waits, so the loop waits for each callback with timersLock held. An exception
  stays in the future and is dropped with it. The callback sees the cache as it is then:
  locked, its own timer Running.
\<close>

definition cb_state :: "'w cb_outcome \<Rightarrow> 'w option" where
  "cb_state r = (case r of Returned w \<Rightarrow> Some w | Threw w \<Rightarrow> Some w | NeverReturns \<Rightarrow> None)"

fun trigger_entries ::
    "('f \<Rightarrow> 'p \<Rightarrow> ('f, 'p) timers_cache \<Rightarrow> 'w \<Rightarrow> 'w cb_outcome) \<Rightarrow> time_point \<Rightarrow> ('f, 'p) timers_cache
      \<Rightarrow> ('f, 'p) entry list \<Rightarrow> ('f, 'p) entry list \<Rightarrow> 'w \<Rightarrow> (('f, 'p) entry list \<times> 'w) option" where
  "trigger_entries call timePoint c passed [] w = Some (passed, w)"
| "trigger_entries call timePoint c passed (e # es) w =
     (if getActionStatus (snd e) = Waiting then
        if getExpirationTimestamp (snd e) < timePoint then
          (let seen = c\<lparr>timers := passed @ (fst e, (snd e)\<lparr>actionStatus := Running\<rparr>) # es\<rparr>;
               (t, r) = runCallbackFunction (\<lambda>f p. call f p seen) (snd e) w
           in case cb_state r of None \<Rightarrow> None
              | Some w' \<Rightarrow> trigger_entries call timePoint c (passed @ [(fst e, t)]) es w')
        else trigger_entries call timePoint c (passed @ [e]) es w
      else trigger_entries call timePoint c (passed @ [e]) es w)"

definition triggerExpiredTimers ::
    "('f \<Rightarrow> 'p \<Rightarrow> ('f, 'p) timers_cache \<Rightarrow> 'w \<Rightarrow> 'w cb_outcome) \<Rightarrow> time_point \<Rightarrow> ('f, 'p) timers_cache
      \<Rightarrow> 'w \<Rightarrow> (('f, 'p) timers_cache \<times> 'w) option" where
  "triggerExpiredTimers call timePoint c w =
     (if timersLock c then None
      else map_option (\<lambda>(es, w'). (c\<lparr>timers := es\<rparr>, w'))
             (trigger_entries call timePoint (c\<lparr>timersLock := True\<rparr>) [] (timers c) w))"

section \<open>After the callbacks\<close>

text \<open>The ended repeatable timers are taken out, then put back one by one, each with its own now().\<close>

fun reinsert_restarted ::
    "(nat \<Rightarrow> time_point) \<Rightarrow> nat \<Rightarrow> ('f, 'p) timer list \<Rightarrow> ('f, 'p) entry list \<Rightarrow> ('f, 'p) entry list" where
  "reinsert_restarted now n [] es = es"
| "reinsert_restarted now n (t # toRestart) es =
     (let t' = setStartTimestamp (now n) (setActionStatus Waiting t)
      in reinsert_restarted now (Suc n) toRestart (mm_insert (getExpirationTimestamp t') t' es))"

definition to_restart :: "('f, 'p) entry \<Rightarrow> bool" where
  "to_restart e \<longleftrightarrow> getActionStatus (snd e) = Ended \<and> isRepeatable (snd e)"

definition restartRepeatableTimers ::
    "(nat \<Rightarrow> time_point) \<Rightarrow> ('f, 'p) timers_cache \<Rightarrow> ('f, 'p) timers_cache option" where
  "restartRepeatableTimers now c =
     (if timersLock c then None
      else Some (c\<lparr>timers := reinsert_restarted now 0 (map snd (filter to_restart (timers c)))
                              (filter (\<lambda>e. \<not> to_restart e) (timers c))\<rparr>))"

definition removeEndedTimers :: "('f, 'p) timers_cache \<Rightarrow> ('f, 'p) timers_cache option" where
  "removeEndedTimers c =
     (if timersLock c then None
      else Some (c\<lparr>timers := filter (\<lambda>e. \<not> (\<not> isRepeatable (snd e) \<and> getActionStatus (snd e) = Ended))
                              (timers c)\<rparr>))"

text \<open>Restarting one timer: a new start, a new place in the multimap, the same status.\<close>

definition restartTimer ::
    "u32 \<Rightarrow> time_point \<Rightarrow> ('f, 'p) timers_cache \<Rightarrow> (bool \<times> ('f, 'p) timers_cache) option" where
  "restartTimer i now c =
     (if timersLock c then None
      else case find (\<lambda>e. entry_id e = i) (timers c) of
          None \<Rightarrow> Some (False, c)
        | Some e \<Rightarrow>
           (let t = restart_timer now (snd e)
            in Some (True, c\<lparr>timers := mm_insert (getExpirationTimestamp t) t
                                       (erase_first (\<lambda>e. entry_id e = i) (timers c))\<rparr>)))"

section \<open>Waiting\<close>

text \<open>
  What a thread blocked in wait_until or wait finds when it looks at the predicate at time
  now: it leaves and clears the flag, or stays blocked (no value).
\<close>

definition waitForNextExpiration ::
    "time_point \<Rightarrow> time_point \<Rightarrow> ('f, 'p) timers_cache \<Rightarrow> ('f, 'p) timers_cache option" where
  "waitForNextExpiration now waitFor c =
     (if \<not> timersLock c \<and> (timersInvokedStatus c \<or> waitFor \<le> now)
      then Some (c\<lparr>timersInvokedStatus := False\<rparr>) else None)"

definition waitForInvoke :: "('f, 'p) timers_cache \<Rightarrow> ('f, 'p) timers_cache option" where
  "waitForInvoke c =
     (if \<not> timersLock c \<and> timersInvokedStatus c then Some (c\<lparr>timersInvokedStatus := False\<rparr>) else None)"

lemmas cache_defs = internalRegisterTimer_def registerTimer_def registerTimerNoLock_def
  internalRemoveTimer_def removeTimer_def cache_size_def getExpiredTimers_def
  nextExpirationTimestamp_def triggerExpiredTimers_def restartRepeatableTimers_def
  removeEndedTimers_def restartTimer_def waitForNextExpiration_def waitForInvoke_def notify_one_def

section \<open>Fresh identifiers\<close>

lemma used_prefix_bound:
  assumes "\<forall>j. 1 \<le> unat j \<and> unat j \<le> n \<longrightarrow> j \<in> used" and "n < 2 ^ 32" and "finite (used :: u32 set)"
  shows "n \<le> card used"
proof -
  have val: "unat (word_of_nat k :: u32) = k" if "k \<le> n" for k
    using that assms(2) by (simp add: unsigned_of_nat take_bit_nat_eq_self)
  have "inj_on (word_of_nat :: nat \<Rightarrow> u32) {1..n}"
    using val by (intro inj_onI) (metis atLeastAtMost_iff)
  moreover have "(word_of_nat :: nat \<Rightarrow> u32) ` {1..n} \<subseteq> used"
    using assms(1) val by auto
  ultimately have "card {1..n} \<le> card used"
    using assms(3) by (rule card_inj_on_le)
  then show ?thesis by simp
qed

lemma list_ex_ids: "list_ex (\<lambda>e. entry_id e = i) es \<longleftrightarrow> i \<in> entry_id ` set es"
  by (auto simp: list_ex_iff)

lemma searchTimerID_spec:
  assumes "length es < 2 ^ 32 - 1" and "1 \<le> unat i"
    and "\<forall>j. 1 \<le> unat j \<and> unat j < unat i \<longrightarrow> j \<in> entry_id ` set es"
  shows "\<exists>k. searchTimerID es i = Some k \<and> 1 \<le> unat k \<and> k \<notin> entry_id ` set es \<and>
    (\<forall>j. 1 \<le> unat j \<and> unat j < unat k \<longrightarrow> j \<in> entry_id ` set es)"
  using assms(2,3)
proof (induction "2 ^ 32 - unat i" arbitrary: i rule: less_induct)
  case less
  show ?case
  proof (cases "i \<in> entry_id ` set es")
    case False
    with less.prems show ?thesis by (subst searchTimerID.simps) (simp add: list_ex_ids)
  next
    case True
    have upto: "\<forall>j. 1 \<le> unat j \<and> unat j \<le> unat i \<longrightarrow> j \<in> entry_id ` set es"
    proof (intro allI impI)
      fix j :: u32
      assume "1 \<le> unat j \<and> unat j \<le> unat i"
      then consider "j = i" | "1 \<le> unat j \<and> unat j < unat i"
        by (auto simp: le_less word_unat_eq_iff)
      then show "j \<in> entry_id ` set es"
        using less.prems True by cases blast+
    qed
    have "unat i < 2 ^ 32" using unsigned_less [of i] by simp
    with upto have "unat i \<le> card (entry_id ` set es)"
      by (intro used_prefix_bound) auto
    also have "\<dots> \<le> length es"
      using card_image_le [of "set es" entry_id] card_length [of es] by simp
    finally have "unat i + 1 < 2 ^ 32" using assms(1) by simp
    then have step: "unat (i + 1) = unat i + 1" by (simp add: unat_word_ariths)
    from upto step have "\<forall>j. 1 \<le> unat j \<and> unat j < unat (i + 1) \<longrightarrow> j \<in> entry_id ` set es"
      by (simp add: less_Suc_eq_le)
    moreover have "2 ^ 32 - unat (i + 1) < 2 ^ 32 - unat i"
      using \<open>unat i < 2 ^ 32\<close> step by simp
    ultimately have "\<exists>k. searchTimerID es (i + 1) = Some k \<and> 1 \<le> unat k \<and> k \<notin> entry_id ` set es \<and>
        (\<forall>j. 1 \<le> unat j \<and> unat j < unat k \<longrightarrow> j \<in> entry_id ` set es)"
      using less.hyps [of "i + 1"] step by simp
    with True show ?thesis by (subst searchTimerID.simps) (simp add: list_ex_ids)
  qed
qed

lemma generateTimerID_spec:
  assumes "length (timers c) < 2 ^ 32 - 1"
  shows "\<exists>k. generateTimerID c = Some k \<and> k \<noteq> 0 \<and> k \<notin> set (timer_ids c) \<and>
    (\<forall>j. 0 < unat j \<and> unat j < unat k \<longrightarrow> j \<in> set (timer_ids c))"
proof -
  from assms have "\<exists>k. searchTimerID (timers c) 1 = Some k \<and> 1 \<le> unat k \<and>
      k \<notin> entry_id ` set (timers c) \<and>
      (\<forall>j. 1 \<le> unat j \<and> unat j < unat k \<longrightarrow> j \<in> entry_id ` set (timers c))"
    by (intro searchTimerID_spec) auto
  then obtain k where "searchTimerID (timers c) 1 = Some k" and "1 \<le> unat k"
    and "k \<notin> entry_id ` set (timers c)"
    and "\<forall>j. 1 \<le> unat j \<and> unat j < unat k \<longrightarrow> j \<in> entry_id ` set (timers c)"
    by blast
  moreover from this(2) have "k \<noteq> 0" by auto
  ultimately show ?thesis
    by (intro exI [of _ k]) (simp add: generateTimerID_def smallestTimerID_def Suc_le_eq)
qed

text \<open>Whatever the size of the cache, an identifier that is found is free.\<close>

lemma searchTimerID_fresh: "searchTimerID es i = Some k \<Longrightarrow> k \<notin> entry_id ` set es"
proof (rule searchTimerID.raw_induct [where P = "\<lambda>es i k. k \<notin> entry_id ` set es"])
  fix f :: "('f, 'p) entry list \<Rightarrow> u32 \<Rightarrow> u32 option" and es i k
  assume "\<And>es i k. f es i = Some k \<Longrightarrow> k \<notin> entry_id ` set es"
    and "(if list_ex (\<lambda>e. entry_id e = i) es then f es (i + 1) else Some i) = Some k"
  then show "k \<notin> entry_id ` set es" by (auto simp: list_ex_ids split: if_splits)
qed

lemma generateTimerID_fresh: "generateTimerID c = Some k \<Longrightarrow> k \<notin> set (timer_ids c)"
  unfolding generateTimerID_def using searchTimerID_fresh by fastforce

section \<open>The invariant and the operations\<close>

text \<open>
  Entries sorted by key, identifiers distinct, and every key the expiration of its timer.
\<close>

definition cache_inv :: "('f, 'p) timers_cache \<Rightarrow> bool" where
  "cache_inv c \<longleftrightarrow> mm_sorted (timers c) \<and> distinct (timer_ids c) \<and>
     (\<forall>e \<in> set (timers c). fst e = getExpirationTimestamp (snd e))"

lemma cache_invI:
  "mm_sorted (timers c) \<Longrightarrow> distinct (timer_ids c) \<Longrightarrow>
   (\<And>e. e \<in> set (timers c) \<Longrightarrow> fst e = getExpirationTimestamp (snd e)) \<Longrightarrow> cache_inv c"
  by (simp add: cache_inv_def)

lemma cache_inv_empty: "cache_inv empty_timers_cache"
  by (simp add: cache_inv_def empty_timers_cache_def)

lemma distinct_ids_mm_insert:
  "distinct (map entry_id (mm_insert k t es)) \<longleftrightarrow> timerID t \<notin> entry_id ` set es \<and> distinct (map entry_id es)"
  by (induction es) auto

lemma timerID_setTimerID [simp]: "timerID (setTimerID i t) = i"
  by (simp add: setTimerID_def)

lemma expiration_setTimerID [simp]: "getExpirationTimestamp (setTimerID i t) = getExpirationTimestamp t"
  by (simp add: op_defs)

lemma cache_inv_insert:
  "cache_inv c \<Longrightarrow> timerID t \<notin> set (timer_ids c) \<Longrightarrow>
    cache_inv (c\<lparr>timers := mm_insert (getExpirationTimestamp t) t (timers c)\<rparr>)"
  by (auto simp: cache_inv_def mm_sorted_insert distinct_ids_mm_insert)

lemma cache_inv_filter: "cache_inv c \<Longrightarrow> cache_inv (c\<lparr>timers := filter P (timers c)\<rparr>)"
  by (auto simp: cache_inv_def mm_sorted_filter distinct_map_filter)

lemma cache_inv_erase:
  assumes "cache_inv c"
  shows "cache_inv (c\<lparr>timers := erase_first (\<lambda>e. entry_id e = i) (timers c)\<rparr>)"
  using cache_inv_filter [OF assms] assms
  by (simp add: erase_first_distinct cache_inv_def)

lemma cache_inv_frame [simp]:
  "cache_inv (c\<lparr>timersInvokedStatus := b\<rparr>) = cache_inv c"
  "cache_inv (c\<lparr>timersInvoked := n\<rparr>) = cache_inv c"
  "cache_inv (c\<lparr>timersLock := l\<rparr>) = cache_inv c"
  "cache_inv (notify_one c) = cache_inv c"
  by (simp_all add: cache_inv_def notify_one_def)

section \<open>What register, remove and restart do\<close>

lemma find_id_None_iff: "find (\<lambda>e. entry_id e = i) es = None \<longleftrightarrow> i \<notin> entry_id ` set es"
  unfolding find_None_iff by blast

lemma find_id_Some: "find (\<lambda>e. entry_id e = i) es = Some e \<Longrightarrow> i \<in> entry_id ` set es"
  using find_SomeD [of _ es e] by blast

lemma id_not_in_others [simp]: "i \<notin> entry_id ` {e \<in> A. entry_id e \<noteq> i}"
  by blast

lemma registerTimer_iff:
  "registerTimer (Some t) c = Some (i, c') \<longleftrightarrow>
     \<not> timersLock c \<and> generateTimerID c = Some i \<and>
     c' = c\<lparr>timersInvoked := Suc (timersInvoked c), timersInvokedStatus := True,
            timers := mm_insert (getExpirationTimestamp t) (setTimerID i t) (timers c)\<rparr>"
  by (auto simp: cache_defs Let_def split: option.splits)

lemma registerTimerNoLock_iff:
  "registerTimerNoLock (Some t) c = Some (i, c') \<longleftrightarrow>
     generateTimerID c = Some i \<and>
     c' = c\<lparr>timers := mm_insert (getExpirationTimestamp t) (setTimerID i t) (timers c)\<rparr>"
  by (auto simp: cache_defs Let_def split: option.splits)

lemma registerTimer_None_iff:
  "registerTimer None c = Some (i, c') \<longleftrightarrow>
     \<not> timersLock c \<and> generateTimerID c \<noteq> None \<and> i = 0 \<and> c' = notify_one c"
  by (auto simp: cache_defs split: option.splits)

lemma removeTimer_iff:
  "removeTimer i c = Some c' \<longleftrightarrow>
     \<not> timersLock c \<and>
     c' = (if i \<in> set (timer_ids c)
           then c\<lparr>timersInvokedStatus := True,
                  timers := erase_first (\<lambda>e. entry_id e = i) (timers c),
                  timersInvoked := Suc (timersInvoked c)\<rparr>
           else c)"
proof (cases "find (\<lambda>e. entry_id e = i) (timers c)")
  case None
  then have "i \<notin> set (timer_ids c)" by (simp add: find_id_None_iff)
  with None show ?thesis by (auto simp: cache_defs)
next
  case (Some e)
  then have "i \<in> set (timer_ids c)" using find_id_Some [OF Some] by simp
  with Some show ?thesis by (simp add: cache_defs eq_commute [of c'] ex_bool_eq)
qed

lemma restartTimer_iff:
  "restartTimer i now c = Some (b, c') \<longleftrightarrow>
     \<not> timersLock c \<and>
     (case find (\<lambda>e. entry_id e = i) (timers c) of
        None \<Rightarrow> \<not> b \<and> c' = c
      | Some e \<Rightarrow> b \<and> c' = c\<lparr>timers := mm_insert (now + duration (snd e)) (restart_timer now (snd e))
                               (erase_first (\<lambda>e. entry_id e = i) (timers c))\<rparr>)"
  by (auto simp: cache_defs expiration_restart Let_def split: option.splits)

lemma registerTimer_returns:
  "\<not> timersLock c \<Longrightarrow> length (timers c) < 2 ^ 32 - 1 \<Longrightarrow>
    \<exists>i c'. registerTimer (Some t) c = Some (i, c') \<and> i \<noteq> 0"
  using generateTimerID_spec [of c] by (auto simp: registerTimer_iff)

lemma registerTimer_inv: "cache_inv c \<Longrightarrow> registerTimer t c = Some (i, c') \<Longrightarrow> cache_inv c'"
proof (cases t)
  case None
  assume "cache_inv c" and "registerTimer t c = Some (i, c')"
  with None show ?thesis by (simp add: registerTimer_None_iff)
next
  case (Some u)
  assume inv: "cache_inv c" and reg: "registerTimer t c = Some (i, c')"
  from reg Some have "generateTimerID c = Some i" by (simp add: registerTimer_iff)
  then have "i \<notin> set (timer_ids c)" by (rule generateTimerID_fresh)
  then show ?thesis
    using reg Some cache_inv_insert [OF inv, of "setTimerID i u"]
    by (simp add: registerTimer_iff cache_inv_def)
qed

lemma registerTimerNoLock_inv:
  "cache_inv c \<Longrightarrow> registerTimerNoLock (Some t) c = Some (i, c') \<Longrightarrow> cache_inv c'"
  using cache_inv_insert [of c "setTimerID i t"] generateTimerID_fresh [of c i]
  by (auto simp: registerTimerNoLock_iff)

lemma removeTimer_inv: "cache_inv c \<Longrightarrow> removeTimer i c = Some c' \<Longrightarrow> cache_inv c'"
  using cache_inv_erase [of c i] by (auto simp: removeTimer_iff cache_inv_def split: if_splits)

lemma restartTimer_inv: "cache_inv c \<Longrightarrow> restartTimer i now c = Some (b, c') \<Longrightarrow> cache_inv c'"
proof (cases "find (\<lambda>e. entry_id e = i) (timers c)")
  case None
  assume "cache_inv c" and "restartTimer i now c = Some (b, c')"
  with None show ?thesis by (simp add: restartTimer_iff)
next
  case (Some e)
  assume inv: "cache_inv c" and res: "restartTimer i now c = Some (b, c')"
  let ?c = "c\<lparr>timers := erase_first (\<lambda>e. entry_id e = i) (timers c)\<rparr>"
  from Some have "timerID (restart_timer now (snd e)) = i"
    by (auto simp: restart_timer_def dest: find_SomeD)
  moreover from inv have "i \<notin> set (timer_ids ?c)"
    by (simp add: erase_first_distinct cache_inv_def)
  ultimately show ?thesis
    using res Some cache_inv_insert [OF cache_inv_erase [OF inv], of "restart_timer now (snd e)" i]
    by (simp add: restartTimer_iff expiration_restart)
qed

section \<open>The cache as a map from identifiers to timers\<close>

definition lookup_timer :: "('f, 'p) timers_cache \<Rightarrow> u32 \<Rightarrow> ('f, 'p) timer option" where
  "lookup_timer c i = map_option snd (find (\<lambda>e. entry_id e = i) (timers c))"

lemma lookup_timer_iff:
  "cache_inv c \<Longrightarrow> lookup_timer c i = Some t \<longleftrightarrow> t \<in> snd ` set (timers c) \<and> timerID t = i"
proof
  assume "lookup_timer c i = Some t"
  then show "t \<in> snd ` set (timers c) \<and> timerID t = i"
    using find_SomeD [of "\<lambda>e. entry_id e = i" "timers c"]
    by (auto simp: lookup_timer_def simp del: split_paired_Ex)
next
  assume "cache_inv c" and "t \<in> snd ` set (timers c) \<and> timerID t = i"
  then show "lookup_timer c i = Some t"
    using find_distinct [of entry_id "timers c"] by (auto simp: lookup_timer_def cache_inv_def)
qed

lemma lookup_timer_None_iff: "lookup_timer c i = None \<longleftrightarrow> i \<notin> set (timer_ids c)"
  by (simp add: lookup_timer_def find_id_None_iff)

lemma lookup_timer_eqI:
  assumes "cache_inv c" and "\<And>i t. m i = Some t \<longleftrightarrow> t \<in> snd ` set (timers c) \<and> timerID t = i"
  shows "lookup_timer c = m"
proof
  fix i
  have "\<forall>t. lookup_timer c i = Some t \<longleftrightarrow> m i = Some t"
    by (simp add: assms(2) lookup_timer_iff [OF assms(1)])
  then show "lookup_timer c i = m i" by (metis not_Some_eq)
qed

lemma lookup_registerTimer:
  assumes inv: "cache_inv c" and reg: "registerTimer (Some t) c = Some (i, c')"
  shows "lookup_timer c i = None \<and> lookup_timer c' = (lookup_timer c)(i \<mapsto> setTimerID i t)"
proof -
  from reg have "generateTimerID c = Some i" by (simp add: registerTimer_iff)
  then have fresh: "i \<notin> set (timer_ids c)" by (rule generateTimerID_fresh)
  have inv': "cache_inv c'" using inv reg by (rule registerTimer_inv)
  have "lookup_timer c' = (lookup_timer c)(i \<mapsto> setTimerID i t)"
    by (rule lookup_timer_eqI [OF inv'])
      (use reg fresh lookup_timer_iff [OF inv] in \<open>auto simp: registerTimer_iff\<close>)
  with fresh show ?thesis by (simp add: lookup_timer_None_iff)
qed

lemma lookup_removeTimer:
  assumes inv: "cache_inv c" and rem: "removeTimer i c = Some c'"
  shows "lookup_timer c' = (lookup_timer c)(i := None)"
proof (rule lookup_timer_eqI)
  show "cache_inv c'" using inv rem by (rule removeTimer_inv)
  fix j t
  from inv have "distinct (map entry_id (timers c))" by (simp add: cache_inv_def)
  with rem lookup_timer_iff [OF inv]
  show "((lookup_timer c)(i := None)) j = Some t \<longleftrightarrow> t \<in> snd ` set (timers c') \<and> timerID t = j"
    by (auto simp: removeTimer_iff erase_first_distinct split: if_splits)
qed

text \<open>
  The contract the message server relies on: a registered timer is found under a new
  identifier and nothing else changes; a removed identifier is gone and nothing else changes.
\<close>

locale timer_store =
  fixes inv :: "'c \<Rightarrow> bool"
    and room :: "'c \<Rightarrow> bool"
    and lookup :: "'c \<Rightarrow> u32 \<Rightarrow> 't option"
    and tag :: "u32 \<Rightarrow> 't \<Rightarrow> 't"
    and register :: "'t \<Rightarrow> 'c \<Rightarrow> (u32 \<times> 'c) option"
    and remove :: "u32 \<Rightarrow> 'c \<Rightarrow> 'c option"
  assumes register_law: "inv c \<Longrightarrow> register t c = Some (i, c') \<Longrightarrow>
      inv c' \<and> lookup c i = None \<and> lookup c' = (lookup c)(i \<mapsto> tag i t)"
    and remove_law: "inv c \<Longrightarrow> remove i c = Some c' \<Longrightarrow>
      inv c' \<and> lookup c' = (lookup c)(i := None)"
    and register_total: "inv c \<Longrightarrow> room c \<Longrightarrow> \<exists>i c'. register t c = Some (i, c') \<and> i \<noteq> 0"
begin

lemma register_then_remove:
  "inv c \<Longrightarrow> register t c = Some (i, c') \<Longrightarrow> remove i c' = Some c'' \<Longrightarrow> lookup c'' = lookup c"
  using register_law [of c t i c'] remove_law [of c' i c''] by (auto simp: fun_eq_iff)

lemma registered_ids_differ:
  "inv c \<Longrightarrow> register t c = Some (i, c') \<Longrightarrow> register u c' = Some (j, c'') \<Longrightarrow>
    i \<noteq> j \<and> lookup c'' i = Some (tag i t) \<and> lookup c'' j = Some (tag j u)"
  using register_law [of c t i c'] register_law [of c' u j c''] by auto

lemma remove_keeps_others:
  "inv c \<Longrightarrow> remove i c = Some c' \<Longrightarrow> i \<noteq> j \<Longrightarrow> lookup c' j = lookup c j"
  using remove_law [of c i c'] by simp

end

interpretation tc: timer_store cache_inv
    "\<lambda>c. \<not> timersLock c \<and> length (timers c) < 2 ^ 32 - 1"
    lookup_timer setTimerID "\<lambda>t. registerTimer (Some t)" removeTimer
proof (unfold_locales, goal_cases)
  case (1 c t i c')
  then show ?case
    using registerTimer_inv [of c "Some t" i c'] lookup_registerTimer [of c t i c'] by blast
next
  case (2 c i c')
  then show ?case
    using removeTimer_inv [of c i c'] lookup_removeTimer [of c i c'] by blast
next
  case (3 c t)
  then show ?case using registerTimer_returns [of c t] by blast
qed

section \<open>Property\<close>

text \<open>C38:
  Registering a timer in an unlocked, consistent cache of fewer than 2^32 - 1 timers returns
  (the search for an identifier ends), with the smallest positive identifier no timer of the
  cache has; the timer is then found under it, its expiration unchanged, every other
  identifier still means what it meant, the wake-up flag is set, and removing the identifier
  gives back the map there was before.
\<close>
theorem register_timer_fresh:
  assumes "cache_inv c" and "\<not> timersLock c" and "length (timers c) < 2 ^ 32 - 1"
  shows "\<exists>i c'. registerTimer (Some t) c = Some (i, c') \<and>
    0 < unat i \<and> i \<notin> set (timer_ids c) \<and> (\<forall>j. 0 < unat j \<and> unat j < unat i \<longrightarrow> j \<in> set (timer_ids c)) \<and>
    lookup_timer c' = (lookup_timer c)(i \<mapsto> setTimerID i t) \<and>
    getExpirationTimestamp (setTimerID i t) = getExpirationTimestamp t \<and>
    timersInvokedStatus c' \<and> length (timers c') = Suc (length (timers c)) \<and>
    (\<exists>c''. removeTimer i c' = Some c'' \<and> lookup_timer c'' = lookup_timer c)"
proof -
  obtain i where gen: "generateTimerID c = Some i" and nz: "i \<noteq> 0" and fresh: "i \<notin> set (timer_ids c)"
    and least: "\<forall>j. 0 < unat j \<and> unat j < unat i \<longrightarrow> j \<in> set (timer_ids c)"
    using generateTimerID_spec [OF assms(3)] by blast
  define c' where "c' = c\<lparr>timersInvoked := Suc (timersInvoked c), timersInvokedStatus := True,
            timers := mm_insert (getExpirationTimestamp t) (setTimerID i t) (timers c)\<rparr>"
  have reg: "registerTimer (Some t) c = Some (i, c')"
    using assms(2) gen by (simp add: registerTimer_iff c'_def)
  obtain c'' where rem: "removeTimer i c' = Some c''"
    using assms(2) by (simp add: removeTimer_iff c'_def)
  have "lookup_timer c' = (lookup_timer c)(i \<mapsto> setTimerID i t)"
    using lookup_registerTimer [OF assms(1) reg] by simp
  moreover have "lookup_timer c'' = lookup_timer c"
    using assms(1) reg rem by (rule tc.register_then_remove)
  moreover have "timersInvokedStatus c'" and "length (timers c') = Suc (length (timers c))"
    by (simp_all add: c'_def)
  moreover have "0 < unat i" using nz by (simp add: unat_gt_0)
  ultimately show ?thesis using reg rem fresh least by (intro exI [of _ i] exI [of _ c']) simp
qed

theorem register_timer_fresh_witness:
  "\<exists>c'. registerTimer (Some (new_timer 5 (Some ()) ())) (empty_timers_cache :: (unit, unit) timers_cache) = Some (1, c') \<and>
     lookup_timer c' 1 = Some (setTimerID 1 (new_timer 5 (Some ()) ()))"
proof -
  let ?c = "empty_timers_cache :: (unit, unit) timers_cache"
  have pre: "\<not> timersLock ?c" "length (timers ?c) < 2 ^ 32 - 1" by (simp_all add: empty_timers_cache_def)
  have gen: "generateTimerID ?c = Some 1"
    by (simp add: generateTimerID_def smallestTimerID_def empty_timers_cache_def searchTimerID.simps)
  obtain i c' where reg: "registerTimer (Some (new_timer 5 (Some ()) ())) ?c = Some (i, c')"
    and look: "lookup_timer c' = (lookup_timer ?c)(i \<mapsto> setTimerID i (new_timer 5 (Some ()) ()))"
    using register_timer_fresh [OF cache_inv_empty pre, of "new_timer 5 (Some ()) ()"] by auto
  with gen have "i = 1" by (simp add: registerTimer_iff)
  with reg look show ?thesis by simp
qed

end
