(* ===== verification/Timers_Loop.thy ===== *)
theory Timers_Loop
  imports Timers_Cache
begin

text \<open>
  One round of TimersThreadMain after its wait (TimersThreadMain.cpp): trigger the expired
  timers, restart the repeatable ones that ended, remove the other ended ones. The lemmas say
  what each of the three does to the cache and that a round fires exactly the due timers.
\<close>

definition timers_round ::
    "('f \<Rightarrow> 'p \<Rightarrow> ('f, 'p) timers_cache \<Rightarrow> 'w \<Rightarrow> 'w cb_outcome) \<Rightarrow> time_point \<Rightarrow> (nat \<Rightarrow> time_point)
      \<Rightarrow> ('f, 'p) timers_cache \<Rightarrow> 'w \<Rightarrow> (('f, 'p) timers_cache \<times> 'w) option" where
  "timers_round call now restarts c w =
     (case triggerExpiredTimers call now c w of None \<Rightarrow> None
      | Some (c1, w1) \<Rightarrow>
         (case restartRepeatableTimers restarts c1 of None \<Rightarrow> None
          | Some c2 \<Rightarrow>
             (case removeEndedTimers c2 of None \<Rightarrow> None | Some c3 \<Rightarrow> Some (c3, w1))))"

section \<open>Triggering\<close>

definition due :: "time_point \<Rightarrow> ('f, 'p) timer \<Rightarrow> bool" where
  "due tp t \<longleftrightarrow> getActionStatus t = Waiting \<and> getExpirationTimestamp t < tp"

text \<open>
  An entry before and after the loop: the same key, and only a due timer changes: its status
  is Ended when its callback returned, and stays Running when the callback was null or threw.
\<close>

definition fired ::
    "('f \<Rightarrow> 'p \<Rightarrow> ('f, 'p) timers_cache \<Rightarrow> 'w \<Rightarrow> 'w cb_outcome) \<Rightarrow> time_point
      \<Rightarrow> ('f, 'p) entry \<Rightarrow> ('f, 'p) entry \<Rightarrow> bool" where
  "fired call tp e e' \<longleftrightarrow> fst e' = fst e \<and>
     (if due tp (snd e) then
        (\<exists>f seen w w'. callbackFunction (snd e) = Some f \<and>
           call f (callbackParameters (snd e)) seen w = Returned w' \<and>
           snd e' = (snd e)\<lparr>actionStatus := Ended\<rparr>) \<or>
        ((callbackFunction (snd e) = None \<or>
          (\<exists>f seen w w'. callbackFunction (snd e) = Some f \<and>
             call f (callbackParameters (snd e)) seen w = Threw w')) \<and>
         snd e' = (snd e)\<lparr>actionStatus := Running\<rparr>)
      else snd e' = snd e)"

lemma runCallbackFunction_fired:
  assumes "due tp (snd e)" and "runCallbackFunction (\<lambda>f p. call f p seen) (snd e) w = (t', r)"
    and "cb_state r = Some w'"
  shows "fired call tp e (fst e, t')"
  using assms
  by (auto simp: fired_def runCallbackFunction_def cb_state_def Let_def split: option.splits cb_outcome.splits)

lemma trigger_entries_fired:
  "trigger_entries call tp c passed es w = Some (es', w') \<Longrightarrow>
    \<exists>zs. es' = passed @ zs \<and> list_all2 (fired call tp) es zs"
proof (induction call tp c passed es w rule: trigger_entries.induct)
  case (2 call tp c passed e es w)
  show ?case
  proof (cases "due tp (snd e)")
    case False
    then have "trigger_entries call tp c (passed @ [e]) es w = Some (es', w')"
      using "2.prems" by (auto simp: due_def split: if_splits)
    then obtain zs where "es' = (passed @ [e]) @ zs" and "list_all2 (fired call tp) es zs"
      using "2.IH"(2,3) False unfolding due_def by blast
    moreover from False have "fired call tp e e" by (simp add: fired_def)
    ultimately show ?thesis by (intro exI [of _ "e # zs"]) simp
  next
    case True
    let ?seen = "c\<lparr>timers := passed @ (fst e, (snd e)\<lparr>actionStatus := Running\<rparr>) # es\<rparr>"
    obtain t r where run: "runCallbackFunction (\<lambda>f p. call f p ?seen) (snd e) w = (t, r)"
      by fastforce
    with True "2.prems" obtain w1 where w1: "cb_state r = Some w1"
      and rest: "trigger_entries call tp c (passed @ [(fst e, t)]) es w1 = Some (es', w')"
      by (auto simp: due_def Let_def split: option.splits)
    from "2.IH"(1) True run w1 rest obtain zs
      where "es' = (passed @ [(fst e, t)]) @ zs" and "list_all2 (fired call tp) es zs"
      unfolding due_def by fastforce
    moreover from True run w1 have "fired call tp e (fst e, t)"
      by (rule runCallbackFunction_fired)
    ultimately show ?thesis by (intro exI [of _ "(fst e, t) # zs"]) simp
  qed
qed simp

lemma triggerExpiredTimers_fired:
  "triggerExpiredTimers call tp c w = Some (c', w') \<Longrightarrow>
    \<exists>zs. c' = c\<lparr>timers := zs\<rparr> \<and> list_all2 (fired call tp) (timers c) zs \<and> \<not> timersLock c"
  by (auto simp: triggerExpiredTimers_def split: if_splits dest!: trigger_entries_fired)

lemma fired_same: "fired call tp e e' \<Longrightarrow> fst e' = fst e \<and> entry_id e' = entry_id e \<and>
    getExpirationTimestamp (snd e') = getExpirationTimestamp (snd e) \<and> repeatable (snd e') = repeatable (snd e)"
  by (auto simp: fired_def op_defs split: if_splits)

lemma list_all2_fired_maps:
  "list_all2 (fired call tp) es zs \<Longrightarrow> map fst zs = map fst es \<and> map entry_id zs = map entry_id es"
  by (induction rule: list_all2_induct) (auto dest: fired_same)

lemma list_all2_fired_keys:
  "list_all2 (fired call tp) es zs \<Longrightarrow> \<forall>e \<in> set es. fst e = getExpirationTimestamp (snd e) \<Longrightarrow>
    \<forall>e \<in> set zs. fst e = getExpirationTimestamp (snd e)"
  by (induction rule: list_all2_induct) (auto dest: fired_same)

lemma triggerExpiredTimers_inv:
  "cache_inv c \<Longrightarrow> triggerExpiredTimers call tp c w = Some (c', w') \<Longrightarrow> cache_inv c'"
  using list_all2_fired_maps [of call tp "timers c"] list_all2_fired_keys [of call tp "timers c"]
  by (fastforce simp: cache_inv_def dest!: triggerExpiredTimers_fired)

section \<open>Restarting and removing\<close>

definition restarted :: "time_point \<Rightarrow> ('f, 'p) timer \<Rightarrow> ('f, 'p) timer" where
  "restarted now t = t\<lparr>actionStatus := Waiting, startTimestamp := now\<rparr>"

lemma restarted_eq: "setStartTimestamp now (setActionStatus Waiting t) = restarted now t"
  by (simp add: op_defs restarted_def)

lemma timerID_restarted [simp]: "timerID (restarted now t) = timerID t"
  by (simp add: restarted_def)

lemma set_reinsert_restarted:
  "set (reinsert_restarted now n ts es) =
    set es \<union> (\<lambda>(k, t). (getExpirationTimestamp (restarted (now k) t), restarted (now k) t)) ` set (enumerate n ts)"
  by (induction now n ts es rule: reinsert_restarted.induct)
    (auto simp: Let_def restarted_eq)

lemma sorted_reinsert_restarted:
  "mm_sorted es \<Longrightarrow> mm_sorted (reinsert_restarted now n ts es)"
  by (induction now n ts es rule: reinsert_restarted.induct)
    (auto simp: Let_def mm_sorted_insert)

lemma mset_ids_reinsert_restarted:
  "mset (map entry_id (reinsert_restarted now n ts es)) = mset (map timerID ts) + mset (map entry_id es)"
  by (induction now n ts es rule: reinsert_restarted.induct)
    (auto simp: Let_def restarted_eq)

lemma mset_ids_partition:
  "mset (map entry_id (filter P es)) + mset (map entry_id (filter (\<lambda>e. \<not> P e) es)) = mset (map entry_id es)"
  by (induction es) auto

lemma restartRepeatableTimers_ids:
  "restartRepeatableTimers now c = Some c' \<Longrightarrow> mset (timer_ids c') = mset (timer_ids c)"
  using mset_ids_partition [of to_restart "timers c"]
  by (auto simp: restartRepeatableTimers_def mset_ids_reinsert_restarted comp_def
      simp del: mset_map split: if_splits)

lemma restartRepeatableTimers_inv:
  assumes inv: "cache_inv c" and r: "restartRepeatableTimers now c = Some c'"
  shows "cache_inv c'"
proof (rule cache_invI)
  from r inv show "mm_sorted (timers c')"
    by (auto simp: restartRepeatableTimers_def cache_inv_def sorted_reinsert_restarted
        mm_sorted_filter split: if_splits)
  from restartRepeatableTimers_ids [OF r] inv show "distinct (timer_ids c')"
    by (metis mset_eq_imp_distinct_iff cache_inv_def)
  show "fst e = getExpirationTimestamp (snd e)" if "e \<in> set (timers c')" for e
    using that r inv
    by (auto simp: restartRepeatableTimers_def cache_inv_def set_reinsert_restarted split: if_splits)
qed

lemma removeEndedTimers_inv:
  "cache_inv c \<Longrightarrow> removeEndedTimers c = Some c' \<Longrightarrow> cache_inv c'"
  using cache_inv_filter by (auto simp: removeEndedTimers_def split: if_splits)

text \<open>After both passes no timer is Ended: the ended ones are restarted or removed.\<close>

definition settled :: "('f, 'p) timers_cache \<Rightarrow> bool" where
  "settled c \<longleftrightarrow> (\<forall>e \<in> set (timers c). actionStatus (snd e) \<noteq> Ended)"

lemma restart_then_remove:
  assumes "restartRepeatableTimers now c1 = Some c2" and "removeEndedTimers c2 = Some c3"
  shows "set (timers c3) =
    {e \<in> set (timers c1). actionStatus (snd e) \<noteq> Ended} \<union>
    (\<lambda>(k, t). (getExpirationTimestamp (restarted (now k) t), restarted (now k) t)) `
      set (enumerate 0 (map snd (filter to_restart (timers c1))))"
  using assms
  by (auto simp: restartRepeatableTimers_def removeEndedTimers_def set_reinsert_restarted
      to_restart_def restarted_def op_defs split: if_splits)

lemma restart_remove_settled:
  "restartRepeatableTimers now c1 = Some c2 \<Longrightarrow> removeEndedTimers c2 = Some c3 \<Longrightarrow> settled c3"
  by (auto simp: settled_def restart_then_remove restarted_def)

section \<open>A round\<close>

lemma timers_round_split:
  "timers_round call now restarts c w = Some (c3, w') \<longleftrightarrow>
    (\<exists>c1 c2. triggerExpiredTimers call now c w = Some (c1, w') \<and>
       restartRepeatableTimers restarts c1 = Some c2 \<and> removeEndedTimers c2 = Some c3)"
  by (auto simp: timers_round_def split: option.splits)

lemma timers_round_inv:
  "cache_inv c \<Longrightarrow> timers_round call now restarts c w = Some (c', w') \<Longrightarrow> cache_inv c' \<and> settled c'"
  using triggerExpiredTimers_inv restartRepeatableTimers_inv removeEndedTimers_inv
    restart_remove_settled by (metis timers_round_split)

text \<open>Once the callbacks have returned, the other two passes always go through.\<close>

lemma timers_round_returns_iff:
  "timers_round call now restarts c w \<noteq> None \<longleftrightarrow> triggerExpiredTimers call now c w \<noteq> None"
proof (cases "triggerExpiredTimers call now c w")
  case (Some a)
  obtain c1 w1 where a: "a = (c1, w1)" by fastforce
  with Some have "\<not> timersLock c1"
    by (auto dest!: triggerExpiredTimers_fired)
  with Some a show ?thesis
    by (simp add: timers_round_def restartRepeatableTimers_def removeEndedTimers_def)
qed (simp add: timers_round_def)

section \<open>Callbacks that return\<close>

definition returns :: "('f \<Rightarrow> 'p \<Rightarrow> ('f, 'p) timers_cache \<Rightarrow> 'w \<Rightarrow> 'w cb_outcome) \<Rightarrow> bool" where
  "returns call \<longleftrightarrow> (\<forall>f p c w. \<exists>w'. call f p c w = Returned w')"

definition callbacks_set :: "('f, 'p) timers_cache \<Rightarrow> bool" where
  "callbacks_set c \<longleftrightarrow> (\<forall>e \<in> set (timers c). isCallbackFunctionSet (snd e))"

text \<open>An entry after its callback, if it was due, returned.\<close>

definition mark :: "time_point \<Rightarrow> ('f, 'p) entry \<Rightarrow> ('f, 'p) entry" where
  "mark tp e = (if due tp (snd e) then (fst e, (snd e)\<lparr>actionStatus := Ended\<rparr>) else e)"

lemma entry_id_mark [simp]: "entry_id (mark tp e) = entry_id e"
  by (simp add: mark_def)

lemma runCallbackFunction_returns:
  assumes "isCallbackFunctionSet t" and "\<And>f p w. \<exists>w'. call f p w = Returned w'"
  shows "\<exists>w'. runCallbackFunction call t w = (t\<lparr>actionStatus := Ended\<rparr>, Returned w')"
proof -
  from assms(1) obtain f where f: "callbackFunction t = Some f"
    by (auto simp: isCallbackFunctionSet_def)
  obtain w' where "call f (callbackParameters t) w = Returned w'" using assms(2) by blast
  with f show ?thesis by (simp add: runCallbackFunction_def)
qed

text \<open>
  The callbacks of the entries run one after the other and return: each gets the parameters of
  its timer, sees the cache locked with its own timer Running in it, and takes over the world
  that the one before it left.
\<close>

inductive calls_in_order ::
    "('f \<Rightarrow> 'p \<Rightarrow> ('f, 'p) timers_cache \<Rightarrow> 'w \<Rightarrow> 'w cb_outcome) \<Rightarrow> ('f, 'p) entry list \<Rightarrow> 'w \<Rightarrow> 'w \<Rightarrow> bool"
  for call where
  no_call: "calls_in_order call [] w w"
| one_call: "callbackFunction (snd e) = Some f \<Longrightarrow> timersLock seen \<Longrightarrow>
    (fst e, (snd e)\<lparr>actionStatus := Running\<rparr>) \<in> set (timers seen) \<Longrightarrow>
    call f (callbackParameters (snd e)) seen w = Returned w1 \<Longrightarrow> calls_in_order call es w1 w2 \<Longrightarrow>
    calls_in_order call (e # es) w w2"

inductive_cases calls_in_orderE: "calls_in_order call (e # es) w w2"
inductive_simps calls_in_order_Nil [simp]: "calls_in_order call [] w w2"

lemma runCallbackFunction_calls:
  assumes "callbackFunction t = Some f" and "call f (callbackParameters t) w = Returned w'"
  shows "runCallbackFunction call t w = (t\<lparr>actionStatus := Ended\<rparr>, Returned w')"
  using assms by (simp add: runCallbackFunction_def)

lemma trigger_entries_returns:
  "returns call \<Longrightarrow> timersLock c \<Longrightarrow> \<forall>e \<in> set es. isCallbackFunctionSet (snd e) \<Longrightarrow>
    \<exists>w'. trigger_entries call tp c passed es w = Some (passed @ map (mark tp) es, w') \<and>
      calls_in_order call (filter (\<lambda>e. due tp (snd e)) es) w w'"
proof (induction call tp c passed es w rule: trigger_entries.induct)
  case (2 call tp c passed e es w)
  show ?case
  proof (cases "due tp (snd e)")
    case False
    then show ?thesis
      using "2.IH"(2,3) "2.prems" by (auto simp: due_def mark_def)
  next
    case True
    let ?seen = "c\<lparr>timers := passed @ (fst e, (snd e)\<lparr>actionStatus := Running\<rparr>) # es\<rparr>"
    obtain f where f: "callbackFunction (snd e) = Some f"
      using "2.prems"(3) by (auto simp: isCallbackFunctionSet_def)
    moreover obtain w1 where w1: "call f (callbackParameters (snd e)) ?seen w = Returned w1"
      using "2.prems"(1) unfolding returns_def by blast
    ultimately have run: "runCallbackFunction (\<lambda>f p. call f p ?seen) (snd e) w =
        ((snd e)\<lparr>actionStatus := Ended\<rparr>, Returned w1)"
      by (rule runCallbackFunction_calls)
    then obtain w' where rest: "trigger_entries call tp c (passed @ [mark tp e]) es w1 =
        Some ((passed @ [mark tp e]) @ map (mark tp) es, w')"
      and calls: "calls_in_order call (filter (\<lambda>e. due tp (snd e)) es) w1 w'"
      using "2.IH"(1) True "2.prems" by (fastforce simp: due_def mark_def cb_state_def)
    have "calls_in_order call (e # filter (\<lambda>e. due tp (snd e)) es) w w'"
      using "2.prems"(2) by (intro one_call [OF f _ _ w1 calls]) simp_all
    with True run rest show ?thesis by (simp add: due_def mark_def cb_state_def)
  qed
qed simp

lemma triggerExpiredTimers_returns:
  "returns call \<Longrightarrow> callbacks_set c \<Longrightarrow> \<not> timersLock c \<Longrightarrow>
    \<exists>w'. triggerExpiredTimers call tp c w = Some (c\<lparr>timers := map (mark tp) (timers c)\<rparr>, w') \<and>
      calls_in_order call (filter (\<lambda>e. due tp (snd e)) (timers c)) w w'"
  using trigger_entries_returns [of call "c\<lparr>timersLock := True\<rparr>" "timers c" tp "[]" w]
  by (auto simp: triggerExpiredTimers_def callbacks_set_def)

text \<open>The timers of the cache after a round whose callbacks all returned.\<close>

lemma timers_round_returns:
  assumes "returns call" and "callbacks_set c" and "\<not> timersLock c"
  shows "\<exists>c' w'. timers_round call now restarts c w = Some (c', w') \<and>
    calls_in_order call (filter (\<lambda>e. due now (snd e)) (timers c)) w w' \<and>
    set (timers c') = {e \<in> mark now ` set (timers c). actionStatus (snd e) \<noteq> Ended} \<union>
      (\<lambda>(k, t). (getExpirationTimestamp (restarted (restarts k) t), restarted (restarts k) t)) `
        set (enumerate 0 (map snd (filter to_restart (map (mark now) (timers c)))))"
proof -
  let ?c1 = "c\<lparr>timers := map (mark now) (timers c)\<rparr>"
  obtain w' where trig: "triggerExpiredTimers call now c w = Some (?c1, w')"
    and calls: "calls_in_order call (filter (\<lambda>e. due now (snd e)) (timers c)) w w'"
    using triggerExpiredTimers_returns [OF assms] by blast
  then obtain c' w2 where round: "timers_round call now restarts c w = Some (c', w2)"
    using timers_round_returns_iff [of call now restarts c w] by fastforce
  then obtain c2 where "restartRepeatableTimers restarts ?c1 = Some c2"
    and "removeEndedTimers c2 = Some c'"
    using trig by (auto simp: timers_round_split)
  moreover have "w2 = w'" using round trig by (auto simp: timers_round_split)
  ultimately show ?thesis using restart_then_remove [of restarts ?c1 c2 c'] round calls by auto
qed

lemma enumerate_mem: "t \<in> set ts \<Longrightarrow> \<exists>k. (k, t) \<in> set (enumerate n ts)"
proof -
  assume "t \<in> set ts"
  then have "t \<in> set (map snd (enumerate n ts))" by simp
  then show ?thesis by (auto simp del: map_snd_enumerate)
qed

lemma enumerate_memD: "(k, t) \<in> set (enumerate n ts) \<Longrightarrow> t \<in> set ts"
  by (metis imageI list.set_map map_snd_enumerate snd_conv)

text \<open>
  A round, timer by timer: what a timer of the cache becomes when its callback, if it is due,
  returns. \<open>restarts\<close> gives the times at which repeatable timers are restarted.
\<close>

definition round_result ::
    "time_point \<Rightarrow> (nat \<Rightarrow> time_point) \<Rightarrow> ('f, 'p) timer \<Rightarrow> ('f, 'p) timer option \<Rightarrow> bool" where
  "round_result now restarts t after \<longleftrightarrow>
     (if \<not> due now t then after = Some t
      else if repeatable t then \<exists>k. after = Some (restarted (restarts k) t)
      else after = None)"

lemma round_entry_origin:
  "e \<in> {e \<in> mark now ` set es. actionStatus (snd e) \<noteq> Ended} \<union>
      (\<lambda>(k, t). (getExpirationTimestamp (restarted (restarts k) t), restarted (restarts k) t)) `
        set (enumerate 0 (map snd (filter to_restart (map (mark now) es)))) \<Longrightarrow>
   \<exists>d \<in> set es. (e = mark now d \<and> actionStatus (snd e) \<noteq> Ended) \<or>
     (to_restart (mark now d) \<and> (\<exists>k u. e = (u, restarted (restarts k) (snd (mark now d)))))"
  by (fastforce dest!: enumerate_memD)

lemma round_result_lookup:
  assumes inv: "cache_inv c" and inv': "cache_inv c'" and settled: "settled c"
    and set': "set (timers c') = {e \<in> mark now ` set (timers c). actionStatus (snd e) \<noteq> Ended} \<union>
      (\<lambda>(k, t). (getExpirationTimestamp (restarted (restarts k) t), restarted (restarts k) t)) `
        set (enumerate 0 (map snd (filter to_restart (map (mark now) (timers c)))))"
    and t: "lookup_timer c i = Some t"
  shows "round_result now restarts t (lookup_timer c' i)"
proof -
  from t lookup_timer_iff [OF inv] obtain k0 where mem: "(k0, t) \<in> set (timers c)" and id: "timerID t = i"
    by auto
  have only: "e = (k0, t)" if "e \<in> set (timers c)" and "entry_id e = i" for e
    using inv mem id that by (auto simp: cache_inv_def distinct_map inj_on_def)
  consider (kept) "\<not> due now t" | (again) "due now t" "repeatable t" | (gone) "due now t" "\<not> repeatable t"
    by blast
  then show ?thesis
  proof cases
    case kept
    then have "mark now (k0, t) = (k0, t)" by (simp add: mark_def)
    with mem settled have "(k0, t) \<in> set (timers c')"
      unfolding set' settled_def by (auto intro!: image_eqI [of _ _ "(k0, t)"])
    then have "lookup_timer c' i = Some t"
      using lookup_timer_iff [OF inv'] id by (auto intro: image_eqI [of _ snd "(k0, t)"])
    with kept show ?thesis by (simp add: round_result_def)
  next
    case again
    let ?t = "t\<lparr>actionStatus := Ended\<rparr>"
    have "(k0, ?t) \<in> set (filter to_restart (map (mark now) (timers c)))"
      using again mem by (auto simp: mark_def to_restart_def op_defs intro!: image_eqI [of _ _ "(k0, t)"])
    then obtain k where k: "(k, ?t) \<in> set (enumerate 0 (map snd (filter to_restart (map (mark now) (timers c)))))"
      using enumerate_mem [of ?t] by (metis image_eqI image_set snd_conv)
    have "(getExpirationTimestamp (restarted (restarts k) ?t), restarted (restarts k) ?t) \<in> set (timers c')"
      unfolding set' by (intro UnI2 image_eqI [OF _ k]) simp
    then have "restarted (restarts k) ?t \<in> snd ` set (timers c')" by force
    then have "lookup_timer c' i = Some (restarted (restarts k) t)"
      using lookup_timer_iff [OF inv'] id by (simp add: restarted_def)
    with again show ?thesis by (auto simp: round_result_def)
  next
    case gone
    have "lookup_timer c' i = None"
    proof (rule ccontr)
      assume "lookup_timer c' i \<noteq> None"
      then obtain e where e: "e \<in> set (timers c')" and eid: "entry_id e = i"
        using lookup_timer_iff [OF inv'] by auto
      from round_entry_origin [OF e [unfolded set']]
      consider (old) d where "d \<in> set (timers c)" "e = mark now d" "actionStatus (snd e) \<noteq> Ended"
        | (new) k d u where "d \<in> set (timers c)" "to_restart (mark now d)"
            "e = (u, restarted (restarts k) (snd (mark now d)))"
        by blast
      then show False
      proof cases
        case old
        with eid have "d = (k0, t)" by (intro only) simp_all
        with old gone show False by (simp add: mark_def)
      next
        case new
        with eid have "d = (k0, t)" by (intro only) simp_all
        with new gone show False by (simp add: mark_def to_restart_def op_defs)
      qed
    qed
    with gone show ?thesis by (simp add: round_result_def)
  qed
qed

lemma round_result_none:
  assumes "cache_inv c'" and "lookup_timer c i = None"
    and set': "set (timers c') = {e \<in> mark now ` set (timers c). actionStatus (snd e) \<noteq> Ended} \<union>
      (\<lambda>(k, t). (getExpirationTimestamp (restarted (restarts k) t), restarted (restarts k) t)) `
        set (enumerate 0 (map snd (filter to_restart (map (mark now) (timers c)))))"
  shows "lookup_timer c' i = None"
proof -
  have "entry_id e \<in> set (timer_ids c)" if "e \<in> set (timers c')" for e
  proof -
    from round_entry_origin [OF that [unfolded set']]
    obtain d where d: "d \<in> set (timers c)" and "entry_id e = entry_id d"
      by (elim bexE disjE conjE exE) (auto simp del: split_paired_All)
    with d show ?thesis by simp
  qed
  with assms(2) show ?thesis by (auto simp: lookup_timer_None_iff)
qed

section \<open>The order of the calls\<close>

text \<open>
  A callback that cannot see the unlocked cache acts on the rest of the program only. Then the
  loop is a pass over the entries in order, whatever it stores in the cache on the way.
\<close>

fun fire_all ::
    "('f \<Rightarrow> 'p \<Rightarrow> 'w \<Rightarrow> 'w cb_outcome) \<Rightarrow> time_point \<Rightarrow> ('f, 'p) entry list \<Rightarrow> 'w
      \<Rightarrow> (('f, 'p) entry list \<times> 'w) option" where
  "fire_all effect tp [] w = Some ([], w)"
| "fire_all effect tp (e # es) w =
     (if due tp (snd e)
      then (let (t, r) = runCallbackFunction effect (snd e) w
            in case cb_state r of None \<Rightarrow> None
               | Some w' \<Rightarrow> map_option (\<lambda>(es', w''). ((fst e, t) # es', w'')) (fire_all effect tp es w'))
      else map_option (\<lambda>(es', w'). (e # es', w')) (fire_all effect tp es w))"

text \<open>A reflexive and transitive relation that every callback respects holds over the whole pass.\<close>

lemma runCallbackFunction_rel:
  assumes "\<And>w. R w w" and "\<And>f p w w'. cb_state (effect f p w) = Some w' \<Longrightarrow> R w w'"
    and "runCallbackFunction effect t w = (t', r)" and "cb_state r = Some w'"
  shows "R w w'"
proof (cases "callbackFunction t")
  case None
  with assms(1,3,4) show ?thesis by (auto simp: runCallbackFunction_def cb_state_def Let_def)
next
  case (Some f)
  with assms(3) have "r = effect f (callbackParameters t) w"
    by (auto simp: runCallbackFunction_def Let_def split: cb_outcome.splits)
  with assms(2,4) show ?thesis by metis
qed

lemma fire_all_rel:
  assumes refl: "\<And>w. R w w" and trans: "\<And>u v w. R u v \<Longrightarrow> R v w \<Longrightarrow> R u w"
    and effect: "\<And>f p w w'. cb_state (effect f p w) = Some w' \<Longrightarrow> R w w'"
  shows "fire_all effect tp es w = Some (es', w') \<Longrightarrow> R w w'"
proof (induction es arbitrary: es' w)
  case Nil
  then show ?case using refl by simp
next
  case (Cons e es)
  show ?case
  proof (cases "due tp (snd e)")
    case False
    with Cons show ?thesis by (auto split: option.splits)
  next
    case True
    obtain t r where run: "runCallbackFunction effect (snd e) w = (t, r)" by fastforce
    with True Cons.prems obtain u es2 where u: "cb_state r = Some u"
      and rest: "fire_all effect tp es u = Some (es2, w')"
      by (auto split: option.splits)
    from runCallbackFunction_rel [of R, OF refl effect run u] Cons.IH [OF rest] show ?thesis by (rule trans)
  qed
qed

locale locked_callbacks =
  fixes call :: "'f \<Rightarrow> 'p \<Rightarrow> ('f, 'p) timers_cache \<Rightarrow> 'w \<Rightarrow> 'w cb_outcome"
    and effect :: "'f \<Rightarrow> 'p \<Rightarrow> 'w \<Rightarrow> 'w cb_outcome"
  assumes locked_call: "timersLock c \<Longrightarrow> call f p c w = effect f p w"
begin

lemma trigger_entries_fire_all:
  "timersLock c \<Longrightarrow> trigger_entries call tp c passed es w =
     map_option (\<lambda>(es', w'). (passed @ es', w')) (fire_all effect tp es w)"
proof (induction es arbitrary: passed w)
  case (Cons e es)
  from Cons.prems have run: "(\<lambda>f p. call f p (c\<lparr>timers := ts\<rparr>)) = effect" for ts
    by (intro ext) (simp add: locked_call)
  show ?case
    using Cons.IH [OF Cons.prems]
    by (simp add: run due_def Let_def option.map_comp comp_def case_prod_unfold split: option.split)
qed simp

lemma triggerExpiredTimers_fire_all:
  "\<not> timersLock c \<Longrightarrow> triggerExpiredTimers call tp c w =
     map_option (\<lambda>(es, w'). (c\<lparr>timers := es\<rparr>, w')) (fire_all effect tp (timers c) w)"
  by (simp add: triggerExpiredTimers_def trigger_entries_fire_all option.map_comp comp_def case_prod_unfold)

end

interpretation recorder: locked_callbacks
    "\<lambda>f p c w. Returned (w @ [(f, p)])" "\<lambda>f p w. Returned (w @ [(f, p)])"
  by unfold_locales simp

lemma fire_all_recorder:
  "\<exists>es'. fire_all (\<lambda>f p w. Returned (w @ [(f, p)])) tp es w =
     Some (es', w @ map (\<lambda>e. (the (callbackFunction (snd e)), callbackParameters (snd e)))
                     (filter (\<lambda>e. due tp (snd e) \<and> isCallbackFunctionSet (snd e)) es))"
proof (induction es arbitrary: w)
  case (Cons e es)
  show ?case
  proof (cases "due tp (snd e)")
    case False
    with Cons.IH [of w] show ?thesis by auto
  next
    case True
    show ?thesis
    proof (cases "callbackFunction (snd e)")
      case None
      with True Cons.IH [of w] show ?thesis
        by (auto simp: runCallbackFunction_def isCallbackFunctionSet_def cb_state_def Let_def)
    next
      case (Some f)
      with True Cons.IH [of "w @ [(f, callbackParameters (snd e))]"] show ?thesis
        by (auto simp: runCallbackFunction_def isCallbackFunctionSet_def cb_state_def Let_def)
    qed
  qed
qed simp

section \<open>Several rounds\<close>

fun timers_rounds ::
    "('f \<Rightarrow> 'p \<Rightarrow> ('f, 'p) timers_cache \<Rightarrow> 'w \<Rightarrow> 'w cb_outcome) \<Rightarrow> (time_point \<times> (nat \<Rightarrow> time_point)) list
      \<Rightarrow> ('f, 'p) timers_cache \<Rightarrow> 'w \<Rightarrow> (('f, 'p) timers_cache \<times> 'w) option" where
  "timers_rounds call [] c w = Some (c, w)"
| "timers_rounds call ((now, restarts) # later) c w =
     (case timers_round call now restarts c w of None \<Rightarrow> None
      | Some (c', w') \<Rightarrow> timers_rounds call later c' w')"

lemma triggerExpiredTimers_lookup:
  assumes inv: "cache_inv c" and trig: "triggerExpiredTimers call tp c w = Some (c', w')"
    and t: "lookup_timer c i = Some t"
  shows "\<exists>k t'. lookup_timer c' i = Some t' \<and> fired call tp (k, t) (k, t')"
proof -
  from t lookup_timer_iff [OF inv] obtain k where mem: "(k, t) \<in> set (timers c)" and id: "timerID t = i"
    by auto
  from trig obtain zs where zs: "c' = c\<lparr>timers := zs\<rparr>" "list_all2 (fired call tp) (timers c) zs"
    using triggerExpiredTimers_fired [OF trig] by blast
  from mem obtain n where n: "n < length (timers c)" "timers c ! n = (k, t)"
    by (auto simp: in_set_conv_nth)
  with zs(2) have len: "n < length zs" and f: "fired call tp (k, t) (zs ! n)"
    by (auto simp: list_all2_conv_all_nth)
  from fired_same [OF f] id have z: "zs ! n = (k, snd (zs ! n))" and zid: "timerID (snd (zs ! n)) = i"
    by (auto simp: prod_eq_iff)
  from len zs(1) have "zs ! n \<in> set (timers c')" by simp
  then have "lookup_timer c' i = Some (snd (zs ! n))"
    using lookup_timer_iff [OF triggerExpiredTimers_inv [OF inv trig]] zid by auto
  with f z show ?thesis by metis
qed

lemma running_survives_passes:
  assumes inv: "cache_inv c1" and r: "restartRepeatableTimers now c1 = Some c2"
    and e: "removeEndedTimers c2 = Some c3"
    and t: "lookup_timer c1 i = Some t" and run: "actionStatus t = Running"
  shows "lookup_timer c3 i = Some t"
proof -
  from t lookup_timer_iff [OF inv] obtain k where "(k, t) \<in> set (timers c1)" and "timerID t = i" by auto
  with run have "t \<in> snd ` set (timers c3) \<and> timerID t = i"
    unfolding restart_then_remove [OF r e] by force
  moreover have "cache_inv c3"
    using inv r e restartRepeatableTimers_inv removeEndedTimers_inv by blast
  ultimately show ?thesis by (simp add: lookup_timer_iff)
qed

lemma running_survives_rounds:
  "cache_inv c \<Longrightarrow> lookup_timer c i = Some t \<Longrightarrow> actionStatus t = Running \<Longrightarrow>
    timers_rounds call later c w = Some (c', w') \<Longrightarrow> lookup_timer c' i = Some t"
proof (induction call later c w rule: timers_rounds.induct)
  case (2 call now restarts later c w)
  from "2.prems"(4) obtain c3 w3 where round: "timers_round call now restarts c w = Some (c3, w3)"
    and rest: "timers_rounds call later c3 w3 = Some (c', w')"
    by (auto split: option.splits)
  then obtain c1 c2 where trig: "triggerExpiredTimers call now c w = Some (c1, w3)"
    and r: "restartRepeatableTimers restarts c1 = Some c2" and e: "removeEndedTimers c2 = Some c3"
    by (auto simp: timers_round_split)
  from triggerExpiredTimers_lookup [OF "2.prems"(1) trig "2.prems"(2)] "2.prems"(3)
  have "lookup_timer c1 i = Some t" by (auto simp: fired_def due_def op_defs)
  then have "lookup_timer c3 i = Some t"
    using running_survives_passes [OF triggerExpiredTimers_inv [OF "2.prems"(1) trig] r e]
      "2.prems"(3) by blast
  moreover have "cache_inv c3" using timers_round_inv [OF "2.prems"(1) round] by blast
  ultimately show ?case using "2.IH" round rest "2.prems"(3) by blast
qed simp

section \<open>Properties\<close>

text \<open>
  A cache for the witnesses: a single-shot timer that expires at 10, a repeatable one at 20 and
  a single-shot one at 40, with identifiers 1, 2 and 3.
\<close>

definition sample_timer :: "u32 \<Rightarrow> bool \<Rightarrow> time_point \<Rightarrow> nat \<Rightarrow> (unit, nat) timer" where
  "sample_timer i r e p = \<lparr>active = True, repeatable = r, actionStatus = Waiting, timerID = i,
     startTimestamp = 0, duration = e, callbackFunction = Some (), callbackParameters = p\<rparr>"

definition sample_cache :: "(unit, nat) timers_cache" where
  "sample_cache = \<lparr>timersLock = False, timersInvoked = 0, timersInvokedStatus = False,
     timers = [(10, sample_timer 1 False 10 5), (20, sample_timer 2 True 20 6), (40, sample_timer 3 False 40 7)]\<rparr>"

lemma sample_cache_ok:
  "cache_inv sample_cache \<and> settled sample_cache \<and> \<not> timersLock sample_cache \<and> callbacks_set sample_cache"
  by (simp add: sample_cache_def sample_timer_def cache_inv_def settled_def callbacks_set_def op_defs)

lemma sample_lookup: "lookup_timer sample_cache i =
    (if i = 1 then Some (sample_timer 1 False 10 5) else if i = 2 then Some (sample_timer 2 True 20 6)
     else if i = 3 then Some (sample_timer 3 False 40 7) else None)"
  by (simp add: lookup_timer_def sample_cache_def sample_timer_def)

lemma sample_due: "due tp (sample_timer i r e p) \<longleftrightarrow> e < tp"
  by (simp add: due_def sample_timer_def op_defs)

text \<open>C37:
  Every operation of the timer cache keeps its invariant: entries in expiration order, no
  identifier twice, every key the expiration of its timer.
\<close>
theorem timers_cache_invariant:
  assumes "cache_inv c"
  shows "(\<forall>t i c'. registerTimer t c = Some (i, c') \<longrightarrow> cache_inv c') \<and>
    (\<forall>t i c'. registerTimerNoLock (Some t) c = Some (i, c') \<longrightarrow> cache_inv c') \<and>
    (\<forall>i c'. removeTimer i c = Some c' \<longrightarrow> cache_inv c') \<and>
    (\<forall>i now b c'. restartTimer i now c = Some (b, c') \<longrightarrow> cache_inv c') \<and>
    (\<forall>call tp w c' w'. triggerExpiredTimers call tp c w = Some (c', (w' :: 'w)) \<longrightarrow> cache_inv c') \<and>
    (\<forall>now c'. restartRepeatableTimers now c = Some c' \<longrightarrow> cache_inv c') \<and>
    (\<forall>c'. removeEndedTimers c = Some c' \<longrightarrow> cache_inv c') \<and>
    (\<forall>now tp c'. waitForNextExpiration now tp c = Some c' \<longrightarrow> cache_inv c')"
  using assms registerTimer_inv registerTimerNoLock_inv removeTimer_inv restartTimer_inv
    restartRepeatableTimers_inv removeEndedTimers_inv
  by (auto simp: waitForNextExpiration_def dest: triggerExpiredTimers_inv split: if_splits)

theorem timers_cache_invariant_witness:
  "cache_inv sample_cache \<and>
   (\<exists>c'. restartTimer 1 100 sample_cache = Some (True, c') \<and> map fst (timers c') = [20, 40, 110] \<and> cache_inv c')"
proof -
  have inv: "cache_inv sample_cache" using sample_cache_ok by simp
  have "\<exists>c'. restartTimer 1 100 sample_cache = Some (True, c') \<and> map fst (timers c') = [20, 40, 110]"
    by (simp add: restartTimer_def sample_cache_def sample_timer_def op_defs Let_def)
  then obtain c' where run: "restartTimer 1 100 sample_cache = Some (True, c')"
    and keys: "map fst (timers c') = [20, 40, 110]" by (elim exE conjE)
  from timers_cache_invariant [OF inv, where ?'w = unit]
  have "\<forall>i now b c'. restartTimer i now sample_cache = Some (b, c') \<longrightarrow> cache_inv c'"
    by (elim conjE) assumption
  with run have "cache_inv c'" by simp
  with inv run keys show ?thesis by simp
qed

text \<open>C8:
  A round of the timers thread over an unlocked, consistent cache in which every callback is
  set and returns always completes. It calls the callbacks of exactly the timers that wait and
  are strictly past their expiration, once each and in the order of the cache: each with the
  parameters of its timer, under timersLock and with its own timer Running, and on the world
  that the one before it left; no call beside these changes the world. And it does to every
  timer exactly this: a timer that is not due is untouched; a due repeatable timer is waiting
  again, started at one of the restart times; a due single-shot timer is gone; no timer
  appears. Afterwards the cache is consistent and holds no ended timer.
\<close>
theorem timers_round_exact:
  assumes "cache_inv c" and "settled c" and "\<not> timersLock c" and "callbacks_set c" and "returns call"
  shows "\<exists>c' w'. timers_round call now restarts c w = Some (c', w') \<and> cache_inv c' \<and> settled c' \<and>
    calls_in_order call (filter (\<lambda>e. due now (snd e)) (timers c)) w w' \<and>
    (\<forall>i. case lookup_timer c i of None \<Rightarrow> lookup_timer c' i = None
         | Some t \<Rightarrow> round_result now restarts t (lookup_timer c' i))"
proof -
  obtain c' w' where round: "timers_round call now restarts c w = Some (c', w')"
    and calls: "calls_in_order call (filter (\<lambda>e. due now (snd e)) (timers c)) w w'"
    and set': "set (timers c') = {e \<in> mark now ` set (timers c). actionStatus (snd e) \<noteq> Ended} \<union>
      (\<lambda>(k, t). (getExpirationTimestamp (restarted (restarts k) t), restarted (restarts k) t)) `
        set (enumerate 0 (map snd (filter to_restart (map (mark now) (timers c)))))"
    using timers_round_returns [OF assms(5,4,3), of now restarts w] by blast
  have inv': "cache_inv c'" and "settled c'" using timers_round_inv [OF assms(1) round] by simp_all
  with round calls show ?thesis
    using round_result_lookup [OF assms(1) inv' assms(2) set'] round_result_none [OF inv' _ set']
    by (auto split: option.split)
qed

theorem timers_round_exact_witness:
  "\<exists>c' w'. timers_round (\<lambda>f p c w. Returned (w + p)) 25 (\<lambda>k. 26) sample_cache 0 = Some (c', w' :: nat) \<and>
     lookup_timer c' 1 = None \<and> lookup_timer c' 2 = Some (restarted 26 (sample_timer 2 True 20 6)) \<and>
     lookup_timer c' 3 = Some (sample_timer 3 False 40 7) \<and> w' = 11"
proof -
  have "returns (\<lambda>f p c w. Returned (w + p :: nat))" by (simp add: returns_def)
  then obtain c' w' where "timers_round (\<lambda>f p c w. Returned (w + p)) 25 (\<lambda>k. 26) sample_cache 0 = Some (c', w' :: nat)"
    and calls: "calls_in_order (\<lambda>f p c w. Returned (w + p)) (filter (\<lambda>e. due 25 (snd e)) (timers sample_cache)) 0 w'"
    and all: "\<forall>i. case lookup_timer sample_cache i of None \<Rightarrow> lookup_timer c' i = None
         | Some t \<Rightarrow> round_result 25 (\<lambda>k. 26) t (lookup_timer c' i)"
    using timers_round_exact [of sample_cache "\<lambda>f p c w. Returned (w + p)" 25 "\<lambda>k. 26" 0] sample_cache_ok
    by blast
  moreover from all [rule_format, of 1] all [rule_format, of 2] all [rule_format, of 3]
  have "lookup_timer c' 1 = None \<and> lookup_timer c' 2 = Some (restarted 26 (sample_timer 2 True 20 6)) \<and>
     lookup_timer c' 3 = Some (sample_timer 3 False 40 7)"
    by (simp add: sample_lookup round_result_def sample_due) (simp add: sample_timer_def)
  moreover from calls have "w' = 11"
    by (auto simp: sample_cache_def sample_due elim!: calls_in_orderE) (simp add: sample_timer_def)
  ultimately show ?thesis by blast
qed

text \<open>
  triggerExpiredTimers calls the callbacks of exactly the waiting timers whose expiration is
  strictly before the given time, once each, in the order of their expirations.
\<close>
lemma timers_triggered_in_order:
  assumes "cache_inv c" and "\<not> timersLock c"
  shows "\<exists>c'. triggerExpiredTimers (\<lambda>f p seen w. Returned (w @ [(f, p)])) tp c [] =
      Some (c', map (\<lambda>e. (the (callbackFunction (snd e)), callbackParameters (snd e)))
                 (filter (\<lambda>e. due tp (snd e) \<and> isCallbackFunctionSet (snd e)) (timers c))) \<and>
    sorted (map (\<lambda>e. getExpirationTimestamp (snd e)) (filter (\<lambda>e. due tp (snd e)) (timers c)))"
proof -
  have eq: "map (\<lambda>e. getExpirationTimestamp (snd e)) (filter (\<lambda>e. due tp (snd e)) (timers c)) =
      map fst (filter (\<lambda>e. due tp (snd e)) (timers c))"
    using assms(1) by (auto simp: cache_inv_def)
  have "sorted (map (\<lambda>e. getExpirationTimestamp (snd e)) (filter (\<lambda>e. due tp (snd e)) (timers c)))"
    unfolding eq using assms(1) by (intro mm_sorted_filter) (simp add: cache_inv_def)
  then show ?thesis
    using assms(2) fire_all_recorder [of tp "timers c" "[]"]
    by (auto simp: recorder.triggerExpiredTimers_fire_all)
qed

text \<open>
  A due timer whose callback is null or throws is left in status Running by the round that
  fires it, and no later sequence of rounds ever runs, restarts or removes it.
\<close>
lemma throwing_timer_stuck:
  assumes "cache_inv c" and "lookup_timer c i = Some t" and "due now t"
    and "case callbackFunction t of None \<Rightarrow> True
         | Some f \<Rightarrow> \<forall>seen w. \<exists>w'. call f (callbackParameters t) seen w = Threw w'"
    and "timers_rounds call ((now, restarts) # later) c w = Some (c', w')"
  shows "lookup_timer c' i = Some (t\<lparr>actionStatus := Running\<rparr>)"
proof -
  from assms(5) obtain c3 w3 where round: "timers_round call now restarts c w = Some (c3, w3)"
    and rest: "timers_rounds call later c3 w3 = Some (c', w')"
    by (auto split: option.splits)
  then obtain c1 c2 where trig: "triggerExpiredTimers call now c w = Some (c1, w3)"
    and r: "restartRepeatableTimers restarts c1 = Some c2" and e: "removeEndedTimers c2 = Some c3"
    by (auto simp: timers_round_split)
  obtain k t' where t': "lookup_timer c1 i = Some t'" and f: "fired call now (k, t) (k, t')"
    using triggerExpiredTimers_lookup [OF assms(1) trig assms(2)] by blast
  from f assms(3,4) have "t' = t\<lparr>actionStatus := Running\<rparr>"
    by (auto simp: fired_def split: option.splits) (metis cb_outcome.distinct(1))
  with t' have "lookup_timer c3 i = Some (t\<lparr>actionStatus := Running\<rparr>)"
    using running_survives_passes [OF triggerExpiredTimers_inv [OF assms(1) trig] r e] by simp
  moreover have "cache_inv c3" using timers_round_inv [OF assms(1) round] by simp
  ultimately show ?thesis using running_survives_rounds [OF _ _ _ rest] by simp
qed

end
