(* ===== verification/Timers_Thread.thy ===== *)
theory Timers_Thread
  imports Timers_Loop
begin

text \<open>
  TimersThreadMain.cpp as a state machine: the thread's program counter, the shared cache, the
  clock, and the threads that register, remove and restart timers at any moment between the
  thread's operations. Each operation of the cache is one step (it runs under timersLock);
  registerTimer and removeTimer are two steps, because the notification is sent after the lock
  is released. A thread that waits remembers how many notifications there had been when it
  blocked; it is awake when more came, when its deadline passed, or spuriously.
\<close>

datatype thread_pc =
    AtTop
  | GotNext "time_point option"
  | WaitingUntil time_point nat
  | WaitingInvoke nat
  | AfterWait
  | Triggered
  | Restarted

record ('f, 'p, 'w) timers_system =
  pc :: thread_pc
  cache :: "('f, 'p) timers_cache"
  clock :: time_point
  pendingNotify :: nat
  world :: 'w

definition init_system :: "time_point \<Rightarrow> 'w \<Rightarrow> ('f, 'p, 'w) timers_system" where
  "init_system now w = \<lparr>pc = AtTop, cache = empty_timers_cache, clock = now, pendingNotify = 0, world = w\<rparr>"

text \<open>
  What a waiting thread does when it looks at its predicate: leave the wait with the flag
  cleared, or block (again).
\<close>

definition look_until :: "time_point \<Rightarrow> ('f, 'p, 'w) timers_system \<Rightarrow> ('f, 'p, 'w) timers_system" where
  "look_until T s =
     (case waitForNextExpiration (clock s) T (cache s) of
        Some c' \<Rightarrow> s\<lparr>pc := AfterWait, cache := c'\<rparr>
      | None \<Rightarrow> s\<lparr>pc := WaitingUntil T (timersInvoked (cache s))\<rparr>)"

definition look_invoke :: "('f, 'p, 'w) timers_system \<Rightarrow> ('f, 'p, 'w) timers_system" where
  "look_invoke s =
     (case waitForInvoke (cache s) of
        Some c' \<Rightarrow> s\<lparr>pc := AfterWait, cache := c'\<rparr>
      | None \<Rightarrow> s\<lparr>pc := WaitingInvoke (timersInvoked (cache s))\<rparr>)"

inductive timers_step ::
    "('f \<Rightarrow> 'p \<Rightarrow> ('f, 'p) timers_cache \<Rightarrow> 'w \<Rightarrow> 'w cb_outcome)
      \<Rightarrow> ('f, 'p, 'w) timers_system \<Rightarrow> ('f, 'p, 'w) timers_system \<Rightarrow> bool" for call where
  next_expiration: "pc s = AtTop \<Longrightarrow> nextExpirationTimestamp (cache s) = Some next \<Longrightarrow>
    timers_step call s (s\<lparr>pc := GotNext next\<rparr>)"
| start_wait_until: "pc s = GotNext (Some T) \<Longrightarrow> timers_step call s (look_until T s)"
| start_wait_invoke: "pc s = GotNext None \<Longrightarrow> timers_step call s (look_invoke s)"
| wake_until: "pc s = WaitingUntil T n \<Longrightarrow> n < timersInvoked (cache s) \<or> T \<le> clock s \<Longrightarrow>
    timers_step call s (look_until T s)"
| wake_invoke: "pc s = WaitingInvoke n \<Longrightarrow> n < timersInvoked (cache s) \<Longrightarrow>
    timers_step call s (look_invoke s)"
| spurious_until: "pc s = WaitingUntil T n \<Longrightarrow> timers_step call s (look_until T s)"
| spurious_invoke: "pc s = WaitingInvoke n \<Longrightarrow> timers_step call s (look_invoke s)"
| trigger: "pc s = AfterWait \<Longrightarrow> triggerExpiredTimers call (clock s) (cache s) (world s) = Some (c', w') \<Longrightarrow>
    timers_step call s (s\<lparr>pc := Triggered, cache := c', world := w'\<rparr>)"
| restart: "pc s = Triggered \<Longrightarrow> (\<forall>k. clock s \<le> now k \<and> now k \<le> later) \<Longrightarrow>
    restartRepeatableTimers now (cache s) = Some c' \<Longrightarrow>
    timers_step call s (s\<lparr>pc := Restarted, cache := c', clock := later\<rparr>)"
| remove_ended: "pc s = Restarted \<Longrightarrow> removeEndedTimers (cache s) = Some c' \<Longrightarrow>
    timers_step call s (s\<lparr>pc := AtTop, cache := c'\<rparr>)"
| tick: "clock s \<le> later \<Longrightarrow> timers_step call s (s\<lparr>clock := later\<rparr>)"
| env_register: "internalRegisterTimer newTimer (cache s) = Some (i, c') \<Longrightarrow>
    (\<forall>t. newTimer = Some t \<longrightarrow> startTimestamp t \<le> clock s) \<Longrightarrow>
    timers_step call s (s\<lparr>cache := c', pendingNotify := Suc (pendingNotify s)\<rparr>)"
| env_remove: "internalRemoveTimer i (cache s) = Some (removed, c') \<Longrightarrow>
    timers_step call s (s\<lparr>cache := c',
      pendingNotify := (if removed then Suc (pendingNotify s) else pendingNotify s)\<rparr>)"
| env_notify: "0 < pendingNotify s \<Longrightarrow>
    timers_step call s (s\<lparr>cache := notify_one (cache s), pendingNotify := pendingNotify s - 1\<rparr>)"
| env_restart: "restartTimer i (clock s) (cache s) = Some (found, c') \<Longrightarrow>
    timers_step call s (s\<lparr>cache := c'\<rparr>)"

inductive timers_reachable ::
    "('f \<Rightarrow> 'p \<Rightarrow> ('f, 'p) timers_cache \<Rightarrow> 'w \<Rightarrow> 'w cb_outcome) \<Rightarrow> ('f, 'p, 'w) timers_system \<Rightarrow> bool" for call where
  start: "timers_reachable call (init_system now w)"
| step: "timers_reachable call s \<Longrightarrow> timers_step call s t \<Longrightarrow> timers_reachable call t"

section \<open>The invariant\<close>

definition started_by :: "time_point \<Rightarrow> ('f, 'p) timers_cache \<Rightarrow> bool" where
  "started_by now c \<longleftrightarrow> (\<forall>e \<in> set (timers c). startTimestamp (snd e) \<le> now)"

text \<open>While the flag is clear, what the thread read from the cache is still a lower bound.\<close>

fun bound_ok :: "time_point option \<Rightarrow> ('f, 'p) timers_cache \<Rightarrow> bool" where
  "bound_ok (Some T) c = (\<not> timersInvokedStatus c \<longrightarrow> (\<forall>e \<in> set (timers c). T \<le> fst e))"
| "bound_ok None c = (\<not> timersInvokedStatus c \<longrightarrow> timers c = [])"

declare bound_ok.simps [simp del]

text \<open>A blocked thread whose flag is set has been notified or is about to be.\<close>

definition wake_ok :: "nat \<Rightarrow> nat \<Rightarrow> ('f, 'p) timers_cache \<Rightarrow> bool" where
  "wake_ok n pending c \<longleftrightarrow> n \<le> timersInvoked c \<and>
     (timersInvokedStatus c \<longrightarrow> n < timersInvoked c \<or> 0 < pending)"

definition pc_ok :: "thread_pc \<Rightarrow> nat \<Rightarrow> ('f, 'p) timers_cache \<Rightarrow> bool" where
  "pc_ok p pending c \<longleftrightarrow>
     (case p of GotNext r \<Rightarrow> bound_ok r c
      | WaitingUntil T n \<Rightarrow> bound_ok (Some T) c \<and> wake_ok n pending c
      | WaitingInvoke n \<Rightarrow> bound_ok None c \<and> wake_ok n pending c
      | _ \<Rightarrow> True)"

definition system_inv :: "('f, 'p, 'w) timers_system \<Rightarrow> bool" where
  "system_inv s \<longleftrightarrow> cache_inv (cache s) \<and> \<not> timersLock (cache s) \<and> started_by (clock s) (cache s) \<and>
     pc_ok (pc s) (pendingNotify s) (cache s)"

lemma system_invI:
  "cache_inv (cache s) \<Longrightarrow> \<not> timersLock (cache s) \<Longrightarrow> started_by (clock s) (cache s) \<Longrightarrow>
   pc_ok (pc s) (pendingNotify s) (cache s) \<Longrightarrow> system_inv s"
  by (simp add: system_inv_def)

lemma system_invD:
  assumes "system_inv s"
  shows "cache_inv (cache s)" and "\<not> timersLock (cache s)" and "started_by (clock s) (cache s)"
    and "pc_ok (pc s) (pendingNotify s) (cache s)"
  using assms by (simp_all add: system_inv_def)

lemma started_by_mono: "started_by now c \<Longrightarrow> now \<le> later \<Longrightarrow> started_by later c"
  by (auto simp: started_by_def)

lemma system_inv_init: "system_inv (init_system now w)"
  by (simp add: system_inv_def init_system_def cache_inv_empty empty_timers_cache_def started_by_def
      pc_ok_def cache_inv_def)

text \<open>Clearing the flag on the way out of the wait.\<close>

lemma look_until_inv:
  assumes "system_inv s" and "bound_ok (Some T) (cache s)"
  shows "system_inv (look_until T s)"
proof (cases "waitForNextExpiration (clock s) T (cache s)")
  case None
  with assms show ?thesis
    by (simp add: look_until_def system_inv_def pc_ok_def wake_ok_def waitForNextExpiration_def split: if_splits)
next
  case (Some c')
  with assms show ?thesis
    by (auto simp: look_until_def system_inv_def pc_ok_def started_by_def waitForNextExpiration_def split: if_splits)
qed

lemma look_invoke_inv:
  assumes "system_inv s" and "bound_ok None (cache s)"
  shows "system_inv (look_invoke s)"
proof (cases "waitForInvoke (cache s)")
  case None
  with assms show ?thesis
    by (simp add: look_invoke_def system_inv_def pc_ok_def wake_ok_def waitForInvoke_def split: if_splits)
next
  case (Some c')
  with assms show ?thesis
    by (auto simp: look_invoke_def system_inv_def pc_ok_def started_by_def waitForInvoke_def split: if_splits)
qed

section \<open>Every step keeps the invariant\<close>

lemma pc_okI:
  "(\<And>r. bound_ok r c \<Longrightarrow> bound_ok r c') \<Longrightarrow> (\<And>n. wake_ok n pending c \<Longrightarrow> wake_ok n pending' c') \<Longrightarrow>
    pc_ok p pending c \<Longrightarrow> pc_ok p pending' c'"
  by (auto simp: pc_ok_def split: thread_pc.splits)

lemma pc_ok_flag:
  "timersInvokedStatus c' \<Longrightarrow> timersInvoked c' = timersInvoked c \<Longrightarrow> pc_ok p pending c \<Longrightarrow> pc_ok p (Suc pending) c'"
proof (rule pc_okI)
  fix r
  assume "timersInvokedStatus c'"
  then show "bound_ok r c'" by (cases r) (auto simp: bound_ok.simps)
qed (auto simp: wake_ok_def)

lemma internalRegisterTimer_cases:
  assumes "internalRegisterTimer newTimer c = Some (i, c')"
  obtains "newTimer = None" and "c' = c"
  | t where "newTimer = Some t" and "registerTimer (Some t) c = Some (i, notify_one c')"
      and "c' = c\<lparr>timersInvokedStatus := True, timers := mm_insert (getExpirationTimestamp t) (setTimerID i t) (timers c)\<rparr>"
  using assms
  by (cases newTimer) (auto simp: internalRegisterTimer_def registerTimer_def Let_def split: if_splits option.splits)

lemma env_register_inv:
  assumes inv: "system_inv s" and reg: "internalRegisterTimer newTimer (cache s) = Some (i, c')"
    and start: "\<forall>t. newTimer = Some t \<longrightarrow> startTimestamp t \<le> clock s"
  shows "system_inv (s\<lparr>cache := c', pendingNotify := Suc (pendingNotify s)\<rparr>)"
  using reg
proof (cases rule: internalRegisterTimer_cases)
  case 1
  have "pc_ok (pc s) (Suc (pendingNotify s)) (cache s)"
    using system_invD(4) [OF inv] by (rule pc_okI [rotated 2]) (auto simp: wake_ok_def)
  with 1 system_invD(1,2,3) [OF inv] show ?thesis by (simp add: system_inv_def)
next
  case (2 t)
  have "cache_inv (notify_one c')"
    using system_invD(1) [OF inv] 2(2) by (rule registerTimer_inv)
  moreover have "pc_ok (pc s) (Suc (pendingNotify s)) c'"
    by (rule pc_ok_flag [OF _ _ system_invD(4) [OF inv]]) (simp_all add: 2(3))
  ultimately show ?thesis
    using system_invD(2,3) [OF inv] start 2
    by (intro system_invI) (auto simp: started_by_def setTimerID_def)
qed

lemma internalRemoveTimer_cases:
  assumes "internalRemoveTimer i c = Some (removed, c')"
  obtains "\<not> removed" and "c' = c"
  | "removed" and "removeTimer i c = Some (notify_one c')"
      and "c' = c\<lparr>timersInvokedStatus := True, timers := erase_first (\<lambda>e. entry_id e = i) (timers c)\<rparr>"
proof (cases "find (\<lambda>e. entry_id e = i) (timers c)")
  case None
  with assms show ?thesis
    by (intro that(1)) (auto simp: internalRemoveTimer_def split: if_splits)
next
  case (Some e)
  with assms show ?thesis
    by (intro that(2)) (auto simp: internalRemoveTimer_def removeTimer_def split: if_splits)
qed

lemma env_remove_inv:
  assumes inv: "system_inv s" and rem: "internalRemoveTimer i (cache s) = Some (removed, c')"
  shows "system_inv (s\<lparr>cache := c',
      pendingNotify := (if removed then Suc (pendingNotify s) else pendingNotify s)\<rparr>)"
  using rem
proof (cases rule: internalRemoveTimer_cases)
  case 1
  with system_invD [OF inv] show ?thesis by (simp add: system_inv_def)
next
  case 2
  have "cache_inv (notify_one c')"
    using system_invD(1) [OF inv] 2(2) by (rule removeTimer_inv)
  moreover have "pc_ok (pc s) (Suc (pendingNotify s)) c'"
    by (rule pc_ok_flag [OF _ _ system_invD(4) [OF inv]]) (simp_all add: 2(3))
  moreover have "started_by (clock s) c'"
    using system_invD(3) [OF inv] 2(3) set_erase_first_subset by (fastforce simp: started_by_def)
  ultimately show ?thesis
    using system_invD(2) [OF inv] 2 by (intro system_invI) simp_all
qed

lemma env_notify_inv:
  assumes "system_inv s"
  shows "system_inv (s\<lparr>cache := notify_one (cache s), pendingNotify := pendingNotify s - 1\<rparr>)"
proof (rule system_invI)
  let ?s = "s\<lparr>cache := notify_one (cache s), pendingNotify := pendingNotify s - 1\<rparr>"
  have "bound_ok r (notify_one (cache s)) = bound_ok r (cache s)" for r
    by (cases r) (simp_all add: notify_one_def bound_ok.simps)
  then have "pc_ok (pc s) (pendingNotify s - 1) (notify_one (cache s))"
    by (intro pc_okI [OF _ _ system_invD(4) [OF assms]]) (auto simp: wake_ok_def notify_one_def)
  then show "pc_ok (pc ?s) (pendingNotify ?s) (cache ?s)" by simp
qed (use system_invD [OF assms] in \<open>simp_all add: started_by_def notify_one_def cache_inv_def\<close>)

text \<open>
  Restarting moves a timer from its key to now plus its duration, which is no earlier because
  it was started no later than now: the thread need not be told.
\<close>

lemma env_restart_inv:
  assumes inv: "system_inv s" and res: "restartTimer i (clock s) (cache s) = Some (found, c')"
  shows "system_inv (s\<lparr>cache := c'\<rparr>)"
proof (cases "find (\<lambda>e. entry_id e = i) (timers (cache s))")
  case None
  with res inv show ?thesis by (simp add: restartTimer_iff)
next
  case (Some e)
  let ?es = "erase_first (\<lambda>e. entry_id e = i) (timers (cache s))"
  have e: "e \<in> set (timers (cache s))" using Some find_SomeD by fastforce
  from res Some have c': "c' = (cache s)\<lparr>timers :=
      mm_insert (clock s + duration (snd e)) (restart_timer (clock s) (snd e)) ?es\<rparr>"
    by (simp add: restartTimer_iff)
  have later: "fst e \<le> clock s + duration (snd e)"
    using system_invD(1,3) [OF inv] e by (auto simp: cache_inv_def started_by_def op_defs)
  have sub: "set ?es \<subseteq> set (timers (cache s))" by (rule set_erase_first_subset)
  have "bound_ok r (cache s) \<Longrightarrow> bound_ok r c'" for r
    using later e sub unfolding c' by (cases r) (fastforce simp: bound_ok.simps)+
  then have "pc_ok (pc s) (pendingNotify s) c'"
    by (rule pc_okI [OF _ _ system_invD(4) [OF inv]]) (simp_all add: c' wake_ok_def)
  moreover have "started_by (clock s) c'"
    using system_invD(3) [OF inv] sub by (auto simp: c' started_by_def restart_timer_def)
  moreover have "cache_inv c'"
    using system_invD(1) [OF inv] res by (rule restartTimer_inv)
  ultimately show ?thesis
    using system_invD(2) [OF inv] by (intro system_invI) (simp_all add: c')
qed

lemma next_expiration_bound:
  "cache_inv c \<Longrightarrow> nextExpirationTimestamp c = Some r \<Longrightarrow> bound_ok r c"
  by (cases "timers c") (auto simp: nextExpirationTimestamp_def bound_ok.simps cache_inv_def split: if_splits)

lemma trigger_inv:
  assumes inv: "system_inv s"
    and trig: "triggerExpiredTimers call (clock s) (cache s) (world s) = Some (c', w')"
  shows "system_inv (s\<lparr>pc := Triggered, cache := c', world := w'\<rparr>)"
proof -
  obtain zs where c': "c' = (cache s)\<lparr>timers := zs\<rparr>"
    and all2: "list_all2 (fired call (clock s)) (timers (cache s)) zs"
    using triggerExpiredTimers_fired [OF trig] by blast
  have "startTimestamp (snd z) \<le> clock s" if "z \<in> set zs" for z
  proof -
    from that all2 obtain e where "e \<in> set (timers (cache s))" and f: "fired call (clock s) e z"
      by (metis list_all2_conv_all_nth in_set_conv_nth)
    moreover from f have "startTimestamp (snd z) = startTimestamp (snd e)"
      by (auto simp: fired_def split: if_splits)
    ultimately show ?thesis using system_invD(3) [OF inv] by (simp add: started_by_def)
  qed
  moreover have "cache_inv c'" using system_invD(1) [OF inv] trig by (rule triggerExpiredTimers_inv)
  ultimately show ?thesis
    using system_invD(2) [OF inv] by (simp add: system_inv_def started_by_def pc_ok_def c')
qed

lemma restart_inv:
  assumes inv: "system_inv s" and now: "\<forall>k. clock s \<le> now k \<and> now k \<le> later"
    and res: "restartRepeatableTimers now (cache s) = Some c'"
  shows "system_inv (s\<lparr>pc := Restarted, cache := c', clock := later\<rparr>)"
proof -
  have "clock s \<le> later" using now order_trans by blast
  with system_invD(3) [OF inv] have "started_by later (cache s)" by (rule started_by_mono)
  then have "started_by later c'"
    using res now
    by (fastforce simp: restartRepeatableTimers_def started_by_def set_reinsert_restarted restarted_def split: if_splits)
  moreover have "cache_inv c'" using system_invD(1) [OF inv] res by (rule restartRepeatableTimers_inv)
  moreover have "\<not> timersLock c'" using res by (auto simp: restartRepeatableTimers_def split: if_splits)
  ultimately show ?thesis by (simp add: system_inv_def pc_ok_def)
qed

lemma remove_ended_inv:
  assumes inv: "system_inv s" and rem: "removeEndedTimers (cache s) = Some c'"
  shows "system_inv (s\<lparr>pc := AtTop, cache := c'\<rparr>)"
  using system_invD [OF inv] removeEndedTimers_inv [OF system_invD(1) [OF inv] rem] rem
  by (auto simp: system_inv_def pc_ok_def removeEndedTimers_def started_by_def split: if_splits)

lemma tick_inv: "system_inv s \<Longrightarrow> clock s \<le> later \<Longrightarrow> system_inv (s\<lparr>clock := later\<rparr>)"
  using started_by_mono by (auto simp: system_inv_def)

lemma timers_step_inv: "timers_step call s t \<Longrightarrow> system_inv s \<Longrightarrow> system_inv t"
proof (induction rule: timers_step.induct)
  case (next_expiration s r)
  then show ?case
    using next_expiration_bound [of "cache s" r] by (simp add: system_inv_def pc_ok_def)
next
  case (start_wait_until s T)
  then show ?case using system_invD(4) [of s] by (intro look_until_inv) (simp_all add: pc_ok_def)
next
  case (start_wait_invoke s)
  then show ?case using system_invD(4) [of s] by (intro look_invoke_inv) (simp_all add: pc_ok_def)
next
  case (wake_until s T n)
  then show ?case using system_invD(4) [of s] by (intro look_until_inv) (simp_all add: pc_ok_def)
next
  case (wake_invoke s n)
  then show ?case using system_invD(4) [of s] by (intro look_invoke_inv) (simp_all add: pc_ok_def)
next
  case (spurious_until s T n)
  then show ?case using system_invD(4) [of s] by (intro look_until_inv) (simp_all add: pc_ok_def)
next
  case (spurious_invoke s n)
  then show ?case using system_invD(4) [of s] by (intro look_invoke_inv) (simp_all add: pc_ok_def)
qed (simp_all add: trigger_inv restart_inv remove_ended_inv tick_inv env_register_inv env_remove_inv
    env_notify_inv [simplified] env_restart_inv)

lemma timers_reachable_inv: "timers_reachable call s \<Longrightarrow> system_inv s"
  by (induction rule: timers_reachable.induct) (auto simp: system_inv_init timers_step_inv)

section \<open>Property\<close>

text \<open>The thread sleeps although some timer expires before the moment it waits for.\<close>

definition oversleeps :: "('f, 'p, 'w) timers_system \<Rightarrow> bool" where
  "oversleeps s \<longleftrightarrow>
     (case pc s of WaitingUntil T n \<Rightarrow> list_ex (\<lambda>e. fst e < T) (timers (cache s))
      | WaitingInvoke n \<Rightarrow> timers (cache s) \<noteq> []
      | _ \<Rightarrow> False)"

definition notified :: "('f, 'p, 'w) timers_system \<Rightarrow> bool" where
  "notified s \<longleftrightarrow>
     (case pc s of WaitingUntil T n \<Rightarrow> n < timersInvoked (cache s)
      | WaitingInvoke n \<Rightarrow> n < timersInvoked (cache s)
      | _ \<Rightarrow> False)"

definition waiting :: "('f, 'p, 'w) timers_system \<Rightarrow> bool" where
  "waiting s \<longleftrightarrow> (case pc s of WaitingUntil T n \<Rightarrow> True | WaitingInvoke n \<Rightarrow> True | _ \<Rightarrow> False)"

text \<open>Where the thread is after it has looked at its predicate once more.\<close>

definition next_look :: "('f, 'p, 'w) timers_system \<Rightarrow> thread_pc" where
  "next_look s =
     (case pc s of WaitingUntil T n \<Rightarrow> pc (look_until T s) | WaitingInvoke n \<Rightarrow> pc (look_invoke s) | p \<Rightarrow> p)"

text \<open>
  A thread that waits is roused: it has been notified or a notification is still to be sent, and
  its next look at the predicate ends the wait.
\<close>

definition roused :: "('f, 'p, 'w) timers_system \<Rightarrow> bool" where
  "roused s \<longleftrightarrow> (notified s \<or> 0 < pendingNotify s) \<and> next_look s = AfterWait"

text \<open>
  The two changes the thread must learn of: a timer that another thread registers and one that
  another thread removes. Each is the step env_register or env_remove above.
\<close>

inductive timers_change :: "('f, 'p, 'w) timers_system \<Rightarrow> ('f, 'p, 'w) timers_system \<Rightarrow> bool" where
  registered: "internalRegisterTimer (Some t) (cache s) = Some (i, c') \<Longrightarrow> startTimestamp t \<le> clock s \<Longrightarrow>
    timers_change s (s\<lparr>cache := c', pendingNotify := Suc (pendingNotify s)\<rparr>)"
| removed: "i \<in> set (timer_ids (cache s)) \<Longrightarrow> internalRemoveTimer i (cache s) = Some (found, c') \<Longrightarrow>
    timers_change s (s\<lparr>cache := c',
      pendingNotify := (if found then Suc (pendingNotify s) else pendingNotify s)\<rparr>)"

lemma timers_change_step: "timers_change s t \<Longrightarrow> timers_step call s t"
  by (induction rule: timers_change.induct) (blast intro: env_register env_remove)+

lemma timers_change_flag: "timers_change s t \<Longrightarrow> timersInvokedStatus (cache t)"
proof (induction rule: timers_change.induct)
  case (registered t s i c')
  from registered(1) show ?case by (cases rule: internalRegisterTimer_cases) simp_all
next
  case (removed i s found c')
  from removed(1) obtain e where "e \<in> set (timers (cache s))" and "entry_id e = i" by auto
  then have "find (\<lambda>e. entry_id e = i) (timers (cache s)) \<noteq> None"
    unfolding find_None_iff by blast
  with removed(2) show ?case by (auto simp: internalRemoveTimer_def split: if_splits option.splits)
qed

text \<open>Any steps of the system in which the thread does not leave a wait.\<close>

inductive asleep_steps ::
    "('f \<Rightarrow> 'p \<Rightarrow> ('f, 'p) timers_cache \<Rightarrow> 'w \<Rightarrow> 'w cb_outcome)
      \<Rightarrow> ('f, 'p, 'w) timers_system \<Rightarrow> ('f, 'p, 'w) timers_system \<Rightarrow> bool" for call where
  asleep_now: "asleep_steps call s s"
| asleep_next: "asleep_steps call s t \<Longrightarrow> timers_step call t u \<Longrightarrow> pc u \<noteq> AfterWait \<or> pc t = AfterWait \<Longrightarrow>
    asleep_steps call s u"

text \<open>Only the end of a wait clears the flag.\<close>

lemma look_keeps_flag:
  "pc (look_until T s) \<noteq> AfterWait \<Longrightarrow> timersInvokedStatus (cache (look_until T s)) = timersInvokedStatus (cache s)"
  "pc (look_invoke s) \<noteq> AfterWait \<Longrightarrow> timersInvokedStatus (cache (look_invoke s)) = timersInvokedStatus (cache s)"
  by (auto simp: look_until_def look_invoke_def split: option.splits)

lemma step_keeps_flag:
  "timers_step call s t \<Longrightarrow> timersInvokedStatus (cache s) \<Longrightarrow> pc t \<noteq> AfterWait \<or> pc s = AfterWait \<Longrightarrow>
    timersInvokedStatus (cache t)"
proof (induction rule: timers_step.induct)
  case (trigger s c' w')
  from triggerExpiredTimers_fired [OF trigger(2)] trigger(3) show ?case by auto
next
  case (env_register newTimer s i c')
  from env_register(1) show ?case using env_register(3) by (cases rule: internalRegisterTimer_cases) simp_all
next
  case (env_remove i s removed c')
  from env_remove(1) show ?case using env_remove(2) by (cases rule: internalRemoveTimer_cases) simp_all
qed (auto simp: look_keeps_flag restartRepeatableTimers_def removeEndedTimers_def notify_one_def
    restartTimer_def Let_def split: if_splits option.splits)

lemma asleep_keeps_flag:
  "asleep_steps call s t \<Longrightarrow> timersInvokedStatus (cache s) \<Longrightarrow> timersInvokedStatus (cache t)"
  by (induction rule: asleep_steps.induct) (auto dest: step_keeps_flag)

lemma asleep_keeps_inv: "asleep_steps call s t \<Longrightarrow> system_inv s \<Longrightarrow> system_inv t"
  by (induction rule: asleep_steps.induct) (auto dest: timers_step_inv)

lemma flag_rouses:
  assumes "system_inv s" and "timersInvokedStatus (cache s)" and "waiting s"
  shows "roused s"
  using assms system_invD(2,4) [OF assms(1)]
  by (auto simp: waiting_def roused_def notified_def next_look_def pc_ok_def wake_ok_def look_until_def look_invoke_def
      waitForNextExpiration_def waitForInvoke_def split: thread_pc.splits)

lemma oversleeps_flag:
  assumes "system_inv s" and "oversleeps s"
  shows "timersInvokedStatus (cache s) \<and> waiting s"
  using assms(2) system_invD(4) [OF assms(1)]
  by (force simp: oversleeps_def waiting_def pc_ok_def bound_ok.simps list_ex_iff split: thread_pc.splits)

text \<open>C2:
  In every reachable interleaving of the timers thread with threads that register, remove and
  restart timers: whenever the thread sleeps past some timer's expiration it is roused, and
  after every registration and every removal of a timer it is roused whenever it waits, until
  it has left a wait: it has been notified or a notification is still to be sent, and its next
  look at the predicate ends the wait. No registration or removal is slept through.
\<close>
theorem no_lost_wakeup:
  assumes "timers_reachable call s"
  shows "(oversleeps s \<longrightarrow> roused s) \<and>
    (\<forall>t u. timers_change s t \<longrightarrow> asleep_steps call t u \<longrightarrow> waiting u \<longrightarrow> roused u)"
proof -
  have inv: "system_inv s" using assms by (rule timers_reachable_inv)
  have "roused u" if "timers_change s t" and "asleep_steps call t u" and "waiting u" for t u
  proof (rule flag_rouses)
    show "system_inv u" using inv that timers_change_step timers_step_inv asleep_keeps_inv by metis
    show "timersInvokedStatus (cache u)" using that timers_change_flag asleep_keeps_flag by metis
  qed fact
  with inv show ?thesis using flag_rouses oversleeps_flag by metis
qed

text \<open>
  A run for the witness: a timer is registered while the thread starts; the thread goes through a
  round and sleeps until the timer expires, with the flag clear and every notification used up.
\<close>

definition sample_system :: "thread_pc \<Rightarrow> bool \<Rightarrow> (time_point \<times> u32) list \<Rightarrow> nat \<Rightarrow> nat \<Rightarrow> (unit, unit, unit) timers_system" where
  "sample_system p flag ts sent pending =
     \<lparr>pc = p, cache = \<lparr>timersLock = False, timersInvoked = sent, timersInvokedStatus = flag,
        timers = map (\<lambda>(T, i). (T, setTimerID i (setDuration T (new_timer 0 (Some ()) ())))) ts\<rparr>,
      clock = 0, pendingNotify = pending, world = ()\<rparr>"

definition sample_call :: "unit \<Rightarrow> unit \<Rightarrow> (unit, unit) timers_cache \<Rightarrow> unit \<Rightarrow> unit cb_outcome" where
  "sample_call f p c w = Returned w"

lemmas sample_system_defs = sample_system_def op_defs generateTimerID_def smallestTimerID_def searchTimerID.simps Let_def

lemma sample_registered:
  "internalRegisterTimer (Some (setDuration 5 (new_timer 0 (Some ()) ()))) (cache (sample_system p flag [] n k)) =
     Some (1, cache (sample_system p True [(5, 1)] n k))"
  by (simp add: internalRegisterTimer_def sample_system_defs)

lemma sample_registered_earlier:
  "internalRegisterTimer (Some (setDuration 3 (new_timer 0 (Some ()) ()))) (cache (sample_system p flag [(5, 1)] n k)) =
     Some (2, cache (sample_system p True [(3, 2), (5, 1)] n k))"
  by (simp add: internalRegisterTimer_def sample_system_defs)

lemma sample_removed:
  "internalRemoveTimer 1 (cache (sample_system p flag [(5, 1)] n k)) = Some (True, cache (sample_system p True [] n k))"
  by (simp add: internalRemoveTimer_def sample_system_defs)

lemma sample_sleeping: "timers_reachable sample_call (sample_system (WaitingUntil 5 1) False [(5, 1)] 1 0)"
proof -
  note step = timers_reachable.step [where call = sample_call]
  have "sample_system AtTop False [] 0 0 = init_system 0 ()"
    by (simp add: sample_system_def init_system_def empty_timers_cache_def)
  then have "timers_reachable sample_call (sample_system AtTop False [] 0 0)"
    using timers_reachable.start [of sample_call 0 "()"] by simp
  from step [OF this env_register [OF sample_registered]]
  have "timers_reachable sample_call (sample_system AtTop True [(5, 1)] 0 1)" by (simp add: sample_system_defs)
  from step [OF this env_notify] have "timers_reachable sample_call (sample_system AtTop True [(5, 1)] 1 0)"
    by (simp add: sample_system_defs notify_one_def)
  from step [OF this next_expiration [of _ "Some 5"]]
  have "timers_reachable sample_call (sample_system (GotNext (Some 5)) True [(5, 1)] 1 0)"
    by (simp add: sample_system_defs nextExpirationTimestamp_def)
  from step [OF this start_wait_until [of _ 5]]
  have "timers_reachable sample_call (sample_system AfterWait False [(5, 1)] 1 0)"
    by (simp add: sample_system_defs look_until_def waitForNextExpiration_def)
  from step [OF this trigger [of _ _ "cache (sample_system AfterWait False [(5, 1)] 1 0)" "()"]]
  have "timers_reachable sample_call (sample_system Triggered False [(5, 1)] 1 0)"
    by (simp add: sample_system_defs triggerExpiredTimers_def)
  from step [OF this restart [of _ "\<lambda>_. 0" 0 "cache (sample_system Triggered False [(5, 1)] 1 0)"]]
  have "timers_reachable sample_call (sample_system Restarted False [(5, 1)] 1 0)"
    by (simp add: sample_system_defs restartRepeatableTimers_def to_restart_def)
  from step [OF this remove_ended [of _ "cache (sample_system Restarted False [(5, 1)] 1 0)"]]
  have "timers_reachable sample_call (sample_system AtTop False [(5, 1)] 1 0)"
    by (simp add: sample_system_defs removeEndedTimers_def)
  from step [OF this next_expiration [of _ "Some 5"]]
  have "timers_reachable sample_call (sample_system (GotNext (Some 5)) False [(5, 1)] 1 0)"
    by (simp add: sample_system_defs nextExpirationTimestamp_def)
  from step [OF this start_wait_until [of _ 5]] show ?thesis
    by (simp add: sample_system_defs look_until_def waitForNextExpiration_def)
qed

text \<open>
  The sleeping thread is roused by the removal of its timer, and stays so after a spurious look at
  the clock; and by the registration of an earlier timer, which it would oversleep.
\<close>
theorem no_lost_wakeup_witness:
  "\<exists>s t u v. timers_reachable sample_call s \<and> waiting s \<and> \<not> roused s \<and>
     timers_change s t \<and> timers (cache t) = [] \<and> asleep_steps sample_call t u \<and> 0 < clock u \<and> roused u \<and>
     timers_change s v \<and> oversleeps v \<and> roused v"
proof -
  define s where "s = sample_system (WaitingUntil 5 1) False [(5, 1)] 1 0"
  define t where "t = sample_system (WaitingUntil 5 1) True [] 1 1"
  define v where "v = sample_system (WaitingUntil 5 1) True [(3, 2), (5, 1)] 1 1"
  have reach: "timers_reachable sample_call s" unfolding s_def by (rule sample_sleeping)
  have "timers_change s t"
    unfolding s_def t_def using timers_change.removed [OF _ sample_removed, of "WaitingUntil 5 1" False 1 0]
    by (simp add: sample_system_defs)
  moreover have change: "timers_change s v"
    unfolding s_def v_def using timers_change.registered [OF sample_registered_earlier, of "WaitingUntil 5 1" False 1 0]
    by (simp add: sample_system_defs)
  moreover have "asleep_steps sample_call t (t\<lparr>clock := 4\<rparr>)"
    by (intro asleep_next [OF asleep_now] tick) (simp_all add: t_def sample_system_def)
  moreover have "waiting (t\<lparr>clock := 4\<rparr>)" by (simp add: t_def waiting_def sample_system_def)
  ultimately have "roused (t\<lparr>clock := 4\<rparr>)" and "asleep_steps sample_call t (t\<lparr>clock := 4\<rparr>)"
    and "timers_change s t" and "timers_change s v"
    using no_lost_wakeup [OF reach] by blast+
  moreover have over: "oversleeps v" by (simp add: v_def oversleeps_def sample_system_def)
  moreover have "roused v"
    using no_lost_wakeup [OF timers_reachable.step [OF reach timers_change_step [OF change]]] over by simp
  moreover have "waiting s \<and> \<not> roused s" by (simp add: s_def waiting_def roused_def notified_def sample_system_def)
  moreover have "timers (cache t) = []" and "0 < clock (t\<lparr>clock := 4\<rparr>)" by (simp_all add: t_def sample_system_def)
  ultimately show ?thesis using reach by blast
qed

end
