(* ===== verification/Message_Queue.thy ===== *)
theory Message_Queue
  imports Prelude
begin

text \<open>
  MessageQueue.hpp: a std::queue behind a mutex. Every operation takes and releases the
  mutex, so it is one atomic step on the queue's content, first element first. front() and
  pop() of an empty std::queue are undefined behaviour, the value \<^const>\<open>None\<close> here.
\<close>

section \<open>The operations\<close>

definition push :: "'a \<Rightarrow> 'a list \<Rightarrow> nat \<times> 'a list" where
  "push message messagesQueue = (let q = messagesQueue @ [message] in (length q, q))"

definition front :: "'a list \<Rightarrow> 'a option" where
  "front messagesQueue = (case messagesQueue of [] \<Rightarrow> None | m # _ \<Rightarrow> Some m)"

definition pop :: "'a list \<Rightarrow> 'a list option" where
  "pop messagesQueue = (case messagesQueue of [] \<Rightarrow> None | _ # q \<Rightarrow> Some q)"

definition queue_size :: "'a list \<Rightarrow> nat" where
  "queue_size messagesQueue = length messagesQueue"

definition queue_empty :: "'a list \<Rightarrow> bool" where
  "queue_empty messagesQueue \<longleftrightarrow> messagesQueue = []"

lemmas queue_defs = push_def front_def pop_def queue_size_def queue_empty_def

section \<open>The contract the senders rely on\<close>

locale fifo_queue =
  fixes content :: "'q \<Rightarrow> 'a list"
    and enq :: "'a \<Rightarrow> 'q \<Rightarrow> nat \<times> 'q"
    and first :: "'q \<Rightarrow> 'a option"
    and deq :: "'q \<Rightarrow> 'q option"
    and count :: "'q \<Rightarrow> nat"
    and is_empty :: "'q \<Rightarrow> bool"
  assumes enq_content: "content (snd (enq m q)) = content q @ [m]"
    and enq_count: "fst (enq m q) = length (content (snd (enq m q)))"
    and first_content: "content q = m # ms \<Longrightarrow> first q = Some m"
    and deq_content: "content q = m # ms \<Longrightarrow> \<exists>q'. deq q = Some q' \<and> content q' = ms"
    and deq_empty: "content q = [] \<Longrightarrow> deq q = None"
    and count_content: "count q = length (content q)"
    and is_empty_content: "is_empty q \<longleftrightarrow> content q = []"
begin

text \<open>push never reports 0: the branches that log a failed push are unreachable.\<close>

lemma enq_reports_success: "fst (enq m q) \<noteq> 0"
  by (simp add: enq_count enq_content)

text \<open>A pushed message is alone exactly when the queue was empty: the test size() > 1 of the senders.\<close>

lemma enq_alone_iff: "count (snd (enq m q)) \<le> 1 \<longleftrightarrow> is_empty q"
  by (simp add: count_content enq_content is_empty_content)

lemma enq_first: "is_empty q \<Longrightarrow> first (snd (enq m q)) = Some m"
  using enq_content [of m q] by (intro first_content [of _ m "[]"]) (simp add: is_empty_content)

lemma enq_first_busy: "\<not> is_empty q \<Longrightarrow> first (snd (enq m q)) = first q"
  using enq_content [of m q] first_content
  by (cases "content q") (auto simp: is_empty_content)

lemma deq_first_content:
  "deq q = Some q' \<Longrightarrow> first q = Some m \<Longrightarrow> content q = m # content q'"
  using first_content deq_content deq_empty by (cases "content q") fastforce+

end

interpretation mq: fifo_queue "\<lambda>q. q" push front pop queue_size queue_empty
  by unfold_locales (auto simp: queue_defs)

lemma push_eq [simp]: "push m q = (Suc (length q), q @ [m])"
  by (simp add: push_def)

lemma front_Cons [simp]: "front (m # q) = Some m" and front_Nil [simp]: "front [] = None"
  by (simp_all add: front_def)

lemma pop_Cons [simp]: "pop (m # q) = Some q" and pop_Nil [simp]: "pop [] = None"
  by (simp_all add: pop_def)

section \<open>Any interleaving of producers and the consumer\<close>

text \<open>
  The threads that share a queue interleave whole operations, so a history is a list of
  pushes and takes (front, then pop). The run gives the messages taken and what is left, or
  no value when a take meets an empty queue.
\<close>

datatype 'a queue_op = PushOp 'a | TakeOp

fun run_queue :: "'a queue_op list \<Rightarrow> 'a list \<Rightarrow> ('a list \<times> 'a list) option" where
  "run_queue [] q = Some ([], q)"
| "run_queue (PushOp m # ops) q = run_queue ops (snd (push m q))"
| "run_queue (TakeOp # ops) q =
     (case front q of None \<Rightarrow> None
      | Some m \<Rightarrow> (case pop q of None \<Rightarrow> None
         | Some q' \<Rightarrow> map_option (\<lambda>(taken, rest). (m # taken, rest)) (run_queue ops q')))"

fun pushes :: "'a queue_op list \<Rightarrow> 'a list" where
  "pushes [] = []"
| "pushes (PushOp m # ops) = m # pushes ops"
| "pushes (TakeOp # ops) = pushes ops"

fun takes :: "'a queue_op list \<Rightarrow> nat" where
  "takes [] = 0"
| "takes (PushOp m # ops) = takes ops"
| "takes (TakeOp # ops) = Suc (takes ops)"

lemma run_queue_order:
  "run_queue ops q = Some (taken, rest) \<Longrightarrow> taken @ rest = q @ pushes ops \<and> length taken = takes ops"
proof (induction ops q arbitrary: taken rule: run_queue.induct)
  case (3 ops q)
  then show ?case by (cases q) auto
qed auto

text \<open>Every take is preceded by enough pushes: then no operation is undefined.\<close>

fun never_underflows :: "nat \<Rightarrow> 'a queue_op list \<Rightarrow> bool" where
  "never_underflows n [] = True"
| "never_underflows n (PushOp m # ops) = never_underflows (Suc n) ops"
| "never_underflows n (TakeOp # ops) = (0 < n \<and> never_underflows (n - 1) ops)"

lemma run_queue_defined_iff: "run_queue ops q \<noteq> None \<longleftrightarrow> never_underflows (length q) ops"
proof (induction ops q rule: run_queue.induct)
  case (3 ops q)
  then show ?case by (cases q) auto
qed auto

section \<open>Properties\<close>

text \<open>
  Whatever way pushes and takes interleave, the messages taken followed by the messages left
  are the initial content followed by the messages pushed, in order: none lost, none
  duplicated, none overtaken. The run is defined exactly when no take meets an empty queue.
\<close>
lemma message_queue_fifo:
  "(run_queue ops q \<noteq> None) = never_underflows (length q) ops \<and>
   (\<forall>taken rest. run_queue ops q = Some (taken, rest) \<longrightarrow>
      taken @ rest = q @ pushes ops \<and> length taken = takes ops)"
  using run_queue_order [of ops q] run_queue_defined_iff [of ops q] by blast

end
