(* ===== verification/Messages.thy ===== *)
theory Messages
  imports Prelude
begin

text \<open>
  The ServiceModule messages as the code uses them, and ModuleMessageMakers.cpp, which builds
  them. The classes are generated from a protocol file that is not part of the repository: a
  message is the record of the fields the code sets and reads, each present or absent, and the
  payload type \<open>'any\<close> is a parameter. Reading a field of an absent submessage gives its
  default, as protobuf documents; the default payload is a parameter where it is read.
\<close>

datatype OperationCode = ModuleRequest | OtherOperation i32

datatype ResponseCode = Success | OtherResponse i32

record header =
  senderidentifier :: i32
  operationcode :: OperationCode
  transactioncode :: u32

record 'any message =
  msgHeader :: "header option"
  msgRequest :: "'any option option"
  msgSubscriptionRequest :: "string option"
  msgResponse :: "ResponseCode option"

definition empty_message :: "'any message" where
  "empty_message = \<lparr>msgHeader = None, msgRequest = None, msgSubscriptionRequest = None, msgResponse = None\<rparr>"

definition has_header :: "'any message \<Rightarrow> bool" where
  "has_header m \<longleftrightarrow> msgHeader m \<noteq> None"

definition has_request :: "'any message \<Rightarrow> bool" where
  "has_request m \<longleftrightarrow> msgRequest m \<noteq> None"

definition has_response :: "'any message \<Rightarrow> bool" where
  "has_response m \<longleftrightarrow> msgResponse m \<noteq> None"

definition header_transactioncode :: "'any message \<Rightarrow> u32" where
  "header_transactioncode m = (case msgHeader m of None \<Rightarrow> 0 | Some h \<Rightarrow> transactioncode h)"

definition header_senderidentifier :: "'any message \<Rightarrow> i32" where
  "header_senderidentifier m = (case msgHeader m of None \<Rightarrow> 0 | Some h \<Rightarrow> senderidentifier h)"

text \<open>The payload of a request: request().request(), the default payload where it is absent.\<close>

definition request_payload :: "'any \<Rightarrow> 'any message \<Rightarrow> 'any" where
  "request_payload default_any m =
     (case msgRequest m of Some (Some any) \<Rightarrow> any | _ \<Rightarrow> default_any)"

text \<open>set_allocated_request of a null pointer leaves the payload absent.\<close>

definition makeRequestMessage :: "i32 \<Rightarrow> 'any option \<Rightarrow> u32 \<Rightarrow> 'any message" where
  "makeRequestMessage moduleIdentifier any transactionCode =
     (let requestHeader = \<lparr>senderidentifier = moduleIdentifier, operationcode = ModuleRequest,
                           transactioncode = transactionCode\<rparr>
      in empty_message\<lparr>msgHeader := Some requestHeader, msgRequest := Some any\<rparr>)"

definition makeSubscriptionRequestMessage :: "i32 \<Rightarrow> string \<Rightarrow> u32 \<Rightarrow> 'any message" where
  "makeSubscriptionRequestMessage moduleIdentifier subscribedType transactionCode =
     (let requestHeader = \<lparr>senderidentifier = moduleIdentifier, operationcode = ModuleRequest,
                           transactioncode = transactionCode\<rparr>
      in empty_message\<lparr>msgHeader := Some requestHeader, msgSubscriptionRequest := Some subscribedType\<rparr>)"

lemmas message_defs = empty_message_def has_header_def has_request_def has_response_def
  header_transactioncode_def header_senderidentifier_def request_payload_def
  makeRequestMessage_def makeSubscriptionRequestMessage_def

lemma made_transactioncode [simp]:
  "header_transactioncode (makeRequestMessage i any t) = t"
  "header_transactioncode (makeSubscriptionRequestMessage i ty t) = t"
  by (simp_all add: message_defs Let_def)

lemma made_sender [simp]:
  "header_senderidentifier (makeRequestMessage i any t) = i"
  "header_senderidentifier (makeSubscriptionRequestMessage i ty t) = i"
  by (simp_all add: message_defs Let_def)

end
