(* ===== verification/Configuration.thy ===== *)
theory Configuration
  imports Prelude
begin

text \<open>
  ModuleConfiguration, ModuleConfigurationReader and the log levels of Logging.hpp. The JSON
  library and the file system are parameters: what the code asks of them either gives a value,
  throws a json exception, or is undefined behaviour (the const operator[] on a missing key).
  The configuration a failed read leaves behind is part of the result.
\<close>

section \<open>Decimal names\<close>

text \<open>std::to_string of an integer.\<close>

fun decimal_digits :: "nat \<Rightarrow> string" where
  "decimal_digits n =
     (if n < 10 then [char_of (48 + n)] else decimal_digits (n div 10) @ [char_of (48 + n mod 10)])"

declare decimal_digits.simps [simp del]

definition to_string :: "int \<Rightarrow> string" where
  "to_string i = (if i < 0 then CHR ''-'' # decimal_digits (nat (- i)) else decimal_digits (nat i))"

definition digit_value :: "char \<Rightarrow> nat" where
  "digit_value c = of_char c - 48"

lemma digit_value_char: "d < 10 \<Longrightarrow> digit_value (char_of (48 + d)) = d"
  by (simp add: digit_value_def of_char_of)

lemma decimal_digits_value:
  "foldl (\<lambda>v c. 10 * v + digit_value c) 0 (decimal_digits n) = n"
proof (induction n rule: decimal_digits.induct)
  case (1 n)
  then show ?case
    by (cases "n < 10") (simp_all add: decimal_digits.simps [of n] digit_value_char)
qed

lemma decimal_digits_no_sign: "CHR ''-'' \<notin> set (decimal_digits n)"
proof (induction n rule: decimal_digits.induct)
  case (1 n)
  have digit: "CHR ''-'' \<noteq> char_of (48 + d)" if "d < 10" for d :: nat
  proof
    assume "CHR ''-'' = char_of (48 + d)"
    then have "of_char (CHR ''-'') = (of_char (char_of (48 + d) :: char) :: nat)" by simp
    with that show False by (simp add: of_char_of)
  qed
  with 1 show ?case
    by (cases "n < 10") (auto simp: decimal_digits.simps [of n])
qed

lemma decimal_digits_inj: "decimal_digits m = decimal_digits n \<Longrightarrow> m = n"
  by (metis decimal_digits_value)

lemma to_string_inj: "to_string i = to_string j \<longleftrightarrow> i = j"
proof
  assume eq: "to_string i = to_string j"
  have "(i < 0) = (j < 0)"
    using eq decimal_digits_no_sign [of "nat i"] decimal_digits_no_sign [of "nat j"]
    by (auto simp: to_string_def split: if_splits) (metis list.set_intros(1))+
  with eq show "i = j"
    by (auto simp: to_string_def split: if_splits dest: decimal_digits_inj)
qed simp

section \<open>The JSON library\<close>

datatype 'a json_result = Value 'a | Json_exception | Json_undefined

text \<open>
  \<open>json_at\<close> is the const operator[] with a key, the getters are get<T>(), \<open>json_parse\<close> is
  json::parse of an open file.
\<close>

record ('j, 'f) json_library =
  json_at :: "'j \<Rightarrow> string \<Rightarrow> 'j json_result"
  json_get_u32 :: "'j \<Rightarrow> u32 json_result"
  json_get_u16 :: "'j \<Rightarrow> u16 json_result"
  json_get_string :: "'j \<Rightarrow> string json_result"
  json_parse :: "'f \<Rightarrow> 'j json_result"

fun json_then :: "'a json_result \<Rightarrow> ('a \<Rightarrow> 'b json_result) \<Rightarrow> 'b json_result" where
  "json_then (Value a) f = f a"
| "json_then Json_exception f = Json_exception"
| "json_then Json_undefined f = Json_undefined"

text \<open>jsonConfig[section][key].get<T>()\<close>

definition json_field ::
    "('j, 'f) json_library \<Rightarrow> ('j \<Rightarrow> 'a json_result) \<Rightarrow> 'j \<Rightarrow> string \<Rightarrow> string \<Rightarrow> 'a json_result" where
  "json_field J get j sec key = json_then (json_at J j sec) (\<lambda>s. json_then (json_at J s key) get)"

section \<open>The configuration\<close>

record server_configuration =
  maxMessageResends :: u32
  timeBetweenMessageResendsInSeconds :: u32
  messageBufferSize :: u32
  listeningPort :: u16

record logging_configuration =
  loggingLevel :: string

record configuration =
  serverConfiguration :: server_configuration
  loggingConfiguration :: logging_configuration

definition initial_configuration :: configuration where
  "initial_configuration =
     \<lparr>serverConfiguration = \<lparr>maxMessageResends = 0, timeBetweenMessageResendsInSeconds = 0,
        messageBufferSize = 0, listeningPort = 0\<rparr>,
      loggingConfiguration = \<lparr>loggingLevel = []\<rparr>\<rparr>"

text \<open>
  One assignment of the try block and what follows it: an exception ends the block with false,
  keeping the assignments made before it.
\<close>

definition assign_field ::
    "'a json_result \<Rightarrow> ('a \<Rightarrow> 'c \<Rightarrow> 'c) \<Rightarrow> ('c \<Rightarrow> ('e, bool, 'c) outcome) \<Rightarrow> 'c \<Rightarrow> ('e, bool, 'c) outcome" where
  "assign_field r store continue c =
     (case r of Value v \<Rightarrow> continue (store v c)
      | Json_exception \<Rightarrow> Done False c
      | Json_undefined \<Rightarrow> Undefined)"

definition server_readFromJson ::
    "('j, 'f) json_library \<Rightarrow> 'j \<Rightarrow> server_configuration \<Rightarrow> (unit, bool, server_configuration) outcome" where
  "server_readFromJson J j =
     assign_field (json_field J (json_get_u32 J) j ''ServerConfiguration'' ''MaxMessageResends'')
       (\<lambda>v c. c\<lparr>maxMessageResends := v\<rparr>)
    (assign_field (json_field J (json_get_u32 J) j ''ServerConfiguration'' ''TimeBetweenMessageResendsInSeconds'')
       (\<lambda>v c. c\<lparr>timeBetweenMessageResendsInSeconds := v\<rparr>)
    (assign_field (json_field J (json_get_u32 J) j ''ServerConfiguration'' ''MessageBufferSize'')
       (\<lambda>v c. c\<lparr>messageBufferSize := v\<rparr>)
    (assign_field (json_field J (json_get_u16 J) j ''ServerConfiguration'' ''ListeningPort'')
       (\<lambda>v c. c\<lparr>listeningPort := v\<rparr>)
    (\<lambda>c. Done True c))))"

definition logging_readFromJson ::
    "('j, 'f) json_library \<Rightarrow> 'j \<Rightarrow> logging_configuration \<Rightarrow> (unit, bool, logging_configuration) outcome" where
  "logging_readFromJson J j =
     assign_field (json_field J (json_get_string J) j ''LoggingConfiguration'' ''Level'')
       (\<lambda>v c. c\<lparr>loggingLevel := v\<rparr>) (\<lambda>c. Done True c)"

section \<open>The reader\<close>

definition configurationDirectoryPath :: string where
  "configurationDirectoryPath = ''/opt/ProcessManager/ModulesConfigurations/''"

definition configuration_file :: "i32 \<Rightarrow> string" where
  "configuration_file myModuleIdentifier = configurationDirectoryPath @ to_string (sint myModuleIdentifier)"

definition readConfig ::
    "('j, 'f) json_library \<Rightarrow> 'j \<Rightarrow> configuration \<Rightarrow> (unit, bool, configuration) outcome" where
  "readConfig J configJson c =
     (case server_readFromJson J configJson (serverConfiguration c) of
        Done ok s \<Rightarrow> Done ok (c\<lparr>serverConfiguration := s\<rparr>)
      | Throws e s \<Rightarrow> Throws e (c\<lparr>serverConfiguration := s\<rparr>)
      | Blocks \<Rightarrow> Blocks
      | Undefined \<Rightarrow> Undefined)"

text \<open>\<open>open_file\<close> gives the stream of a path, or nothing when it cannot be opened.\<close>

definition readConfiguration ::
    "('j, 'f) json_library \<Rightarrow> (string \<Rightarrow> 'f option) \<Rightarrow> i32 \<Rightarrow> configuration \<Rightarrow> (unit, bool, configuration) outcome" where
  "readConfiguration J open_file myModuleIdentifier c =
     (case open_file (configuration_file myModuleIdentifier) of
        None \<Rightarrow> Done False c
      | Some ifs \<Rightarrow>
         (case json_parse J ifs of
            Value configJson \<Rightarrow> readConfig J configJson c
          | Json_exception \<Rightarrow> Done False c
          | Json_undefined \<Rightarrow> Undefined))"

section \<open>Log levels\<close>

datatype LogLevel = TRACE | DEBUG | INFO | WARNING | ERROR | CRITICAL

datatype spdlog_level = spd_trace | spd_debug | spd_info | spd_warn | spd_err | spd_critical

fun translateToSpdlogLevel :: "LogLevel \<Rightarrow> spdlog_level" where
  "translateToSpdlogLevel TRACE = spd_trace"
| "translateToSpdlogLevel DEBUG = spd_debug"
| "translateToSpdlogLevel INFO = spd_info"
| "translateToSpdlogLevel WARNING = spd_warn"
| "translateToSpdlogLevel ERROR = spd_err"
| "translateToSpdlogLevel CRITICAL = spd_critical"

definition translateNameToSpdlogLevel :: "string \<Rightarrow> spdlog_level" where
  "translateNameToSpdlogLevel logLevel =
     (if logLevel = ''TRACE'' then spd_trace
      else if logLevel = ''DEBUG'' then spd_debug
      else if logLevel = ''INFO'' then spd_info
      else if logLevel = ''WARNING'' then spd_warn
      else if logLevel = ''ERROR'' then spd_err
      else if logLevel = ''CRITICAL'' then spd_critical
      else spd_trace)"

text \<open>
  The logger is the static instance: absent, or with its pattern's identifier and its level.
\<close>

record log_instance =
  logPattern :: "i32 option"
  logLevel :: spdlog_level

definition initializeLog :: "LogLevel \<Rightarrow> log_instance option \<Rightarrow> log_instance option" where
  "initializeLog level logger =
     (case logger of None \<Rightarrow> Some \<lparr>logPattern = None, logLevel = translateToSpdlogLevel level\<rparr>
      | Some l \<Rightarrow> Some l)"

definition updateConfiguration :: "i32 \<Rightarrow> configuration \<Rightarrow> log_instance option \<Rightarrow> log_instance option" where
  "updateConfiguration moduleIdentifier c logger =
     (case logger of None \<Rightarrow> None
      | Some l \<Rightarrow> Some (l\<lparr>logPattern := Some moduleIdentifier,
                          logLevel := translateNameToSpdlogLevel (loggingLevel (loggingConfiguration c))\<rparr>))"

lemmas configuration_defs = assign_field_def server_readFromJson_def logging_readFromJson_def
  readConfig_def readConfiguration_def json_field_def

section \<open>Reading\<close>

lemma readConfiguration_logging:
  "readConfiguration J open_file i c = Done ok c' \<Longrightarrow> loggingConfiguration c' = loggingConfiguration c"
  by (auto simp: readConfiguration_def readConfig_def split: option.splits json_result.splits outcome.splits)

text \<open>What the four reads give, in the order of the code.\<close>

definition server_fields ::
    "('j, 'f) json_library \<Rightarrow> 'j \<Rightarrow> u32 json_result \<times> u32 json_result \<times> u32 json_result \<times> u16 json_result" where
  "server_fields J j =
     (json_field J (json_get_u32 J) j ''ServerConfiguration'' ''MaxMessageResends'',
      json_field J (json_get_u32 J) j ''ServerConfiguration'' ''TimeBetweenMessageResendsInSeconds'',
      json_field J (json_get_u32 J) j ''ServerConfiguration'' ''MessageBufferSize'',
      json_field J (json_get_u16 J) j ''ServerConfiguration'' ''ListeningPort'')"

lemma server_readFromJson_result:
  "server_readFromJson J j c =
     (case server_fields J j of
        (Value a, Value b, Value d, Value e) \<Rightarrow>
          Done True (c\<lparr>maxMessageResends := a, timeBetweenMessageResendsInSeconds := b,
                       messageBufferSize := d, listeningPort := e\<rparr>)
      | (Value a, Value b, Value d, Json_exception) \<Rightarrow>
          Done False (c\<lparr>maxMessageResends := a, timeBetweenMessageResendsInSeconds := b, messageBufferSize := d\<rparr>)
      | (Value a, Value b, Json_exception, _) \<Rightarrow>
          Done False (c\<lparr>maxMessageResends := a, timeBetweenMessageResendsInSeconds := b\<rparr>)
      | (Value a, Json_exception, _, _) \<Rightarrow> Done False (c\<lparr>maxMessageResends := a\<rparr>)
      | (Json_exception, _, _, _) \<Rightarrow> Done False c
      | _ \<Rightarrow> Undefined)"
  by (simp add: server_readFromJson_def server_fields_def assign_field_def split: json_result.split)

lemma readConfiguration_success:
  assumes "readConfiguration J open_file i c = Done True c'"
  obtains ifs j a b d e where "open_file (configuration_file i) = Some ifs" and "json_parse J ifs = Value j"
    and "server_fields J j = (Value a, Value b, Value d, Value e)"
    and "serverConfiguration c' = \<lparr>maxMessageResends = a, timeBetweenMessageResendsInSeconds = b,
           messageBufferSize = d, listeningPort = e\<rparr>"
  using assms
  by (auto simp: readConfiguration_def readConfig_def server_readFromJson_result
      split: option.splits json_result.splits outcome.splits prod.splits)

section \<open>Properties\<close>

text \<open>
  Reading the configuration succeeds exactly when the module's file opens and parses and each of
  the four server settings is there with its type; the server settings are then exactly the
  four values of the file, whatever they were before, and the logging settings are untouched.
\<close>
lemma configuration_read_complete:
  "(readConfiguration J open_file i c = Done True c') =
    (\<exists>ifs j a b d e. open_file (configuration_file i) = Some ifs \<and> json_parse J ifs = Value j \<and>
       server_fields J j = (Value a, Value b, Value d, Value e) \<and>
       c' = c\<lparr>serverConfiguration := \<lparr>maxMessageResends = a, timeBetweenMessageResendsInSeconds = b,
                messageBufferSize = d, listeningPort = e\<rparr>\<rparr>)"
  by (auto simp: readConfiguration_def readConfig_def server_readFromJson_result
      split: option.splits json_result.splits outcome.splits prod.splits)

text \<open>
  Two modules read the same configuration file exactly when they have the same identifier: the
  decimal name of a signed 32-bit identifier determines it.
\<close>
lemma configuration_files_distinct:
  "(configuration_file i = configuration_file j) = (i = j)"
  by (auto simp: configuration_file_def to_string_inj signed_word_eqI)

end
