(* ===== verification/Services.thy ===== *)
theory Services
  imports Prelude
begin

text \<open>
  MongoServicesCollection.hpp and .cpp, MongoDbEnvironment.cpp: reading the record of a service from the Services
  collection. The database is a parameter: find_one, from a filter to the first matching
  document, which can also throw. A document is a map from field names to values; reading the
  type of a field it does not have throws, as bsoncxx does for an unset element.
\<close>

section \<open>Documents and records\<close>

datatype bson_type = k_int32 | k_utf8 | k_other

datatype bson_value = B_int32 i32 | B_utf8 string | B_other

datatype db_error = Unset_element | Query_exception

type_synonym bson_document = "string \<rightharpoonup> bson_value"

datatype service_filter = ByServiceIdentifier i32 | ByName string

record ServiceRecord =
  srPort :: u16
  srIdentifier :: i32
  srIpAddress :: string
  srName :: string

definition element_type :: "bson_document \<Rightarrow> string \<Rightarrow> db_error + bson_type" where
  "element_type view key =
     (case view key of
        None \<Rightarrow> Inl Unset_element
      | Some (B_int32 _) \<Rightarrow> Inr k_int32
      | Some (B_utf8 _) \<Rightarrow> Inr k_utf8
      | Some B_other \<Rightarrow> Inr k_other)"

text \<open>The getters, used only on elements of their type.\<close>

definition get_int32 :: "bson_document \<Rightarrow> string \<Rightarrow> i32" where
  "get_int32 view key = (case view key of Some (B_int32 i) \<Rightarrow> i | _ \<Rightarrow> 0)"

definition get_utf8 :: "bson_document \<Rightarrow> string \<Rightarrow> string" where
  "get_utf8 view key = (case view key of Some (B_utf8 s) \<Rightarrow> s | _ \<Rightarrow> [])"

section \<open>Reading a record\<close>

text \<open>
  The checks in the order of the code, each able to throw; the port of 32 bits is stored into
  16 bits.
\<close>

definition viewToServiceRecord :: "bson_document \<Rightarrow> db_error + ServiceRecord option" where
  "viewToServiceRecord view =
     (case element_type view ''ServiceIdentifier'' of Inl e \<Rightarrow> Inl e
      | Inr t1 \<Rightarrow> if t1 \<noteq> k_int32 then Inr None
      else (case element_type view ''IpAddress'' of Inl e \<Rightarrow> Inl e
      | Inr t2 \<Rightarrow> if t2 \<noteq> k_utf8 then Inr None
      else (case element_type view ''Port'' of Inl e \<Rightarrow> Inl e
      | Inr t3 \<Rightarrow> if t3 \<noteq> k_int32 then Inr None
      else (case element_type view ''Name'' of Inl e \<Rightarrow> Inl e
      | Inr t4 \<Rightarrow> if t4 \<noteq> k_utf8 then Inr None
      else Inr (Some \<lparr>srPort = ucast (get_int32 view ''Port''),
                      srIdentifier = get_int32 view ''ServiceIdentifier'',
                      srIpAddress = get_utf8 view ''IpAddress'',
                      srName = get_utf8 view ''Name''\<rparr>)))))"

definition getService ::
    "(service_filter \<Rightarrow> db_error + bson_document option) \<Rightarrow> i32 \<Rightarrow> db_error + ServiceRecord option" where
  "getService find_one serviceIdentifier =
     (case find_one (ByServiceIdentifier serviceIdentifier) of
        Inl e \<Rightarrow> Inl e
      | Inr None \<Rightarrow> Inr None
      | Inr (Some view) \<Rightarrow> viewToServiceRecord view)"

definition getServiceByName ::
    "(service_filter \<Rightarrow> db_error + bson_document option) \<Rightarrow> string \<Rightarrow> db_error + ServiceRecord option" where
  "getServiceByName find_one serviceName =
     (case find_one (ByName serviceName) of
        Inl e \<Rightarrow> Inl e
      | Inr None \<Rightarrow> Inr None
      | Inr (Some view) \<Rightarrow> viewToServiceRecord view)"

section \<open>The environment of the database\<close>

text \<open>
  MongoDbEnvironment.cpp: the instance is set once, when the driver can be constructed.
  isConnected asks the server: the value of "ok" in its answer to a ping, or an exception of the
  driver; without an instance it is undefined behaviour.
\<close>

definition db_initialize :: "bool \<Rightarrow> bool \<Rightarrow> bool \<times> bool" where
  "db_initialize constructs inst =
     (if \<not> inst then (if constructs then (True, True) else (False, False)) else (True, inst))"

definition db_isConnected :: "('e + int) \<Rightarrow> bool \<Rightarrow> bool option" where
  "db_isConnected ping inst =
     (if \<not> inst then None
      else Some (case ping of Inl e \<Rightarrow> False | Inr ok \<Rightarrow> ok = 1))"

section \<open>When a record is read\<close>

lemma viewToServiceRecord_Some_iff:
  "viewToServiceRecord view = Inr (Some r) \<longleftrightarrow>
    (\<exists>i ip p n. view ''ServiceIdentifier'' = Some (B_int32 i) \<and> view ''IpAddress'' = Some (B_utf8 ip) \<and>
       view ''Port'' = Some (B_int32 p) \<and> view ''Name'' = Some (B_utf8 n) \<and>
       r = \<lparr>srPort = ucast p, srIdentifier = i, srIpAddress = ip, srName = n\<rparr>)"
  unfolding viewToServiceRecord_def element_type_def get_int32_def get_utf8_def
  by (auto split: sum.splits option.splits bson_value.splits if_splits)

text \<open>The document that holds a service whose port is given as a 32-bit number.\<close>

definition service_document :: "i32 \<Rightarrow> string \<Rightarrow> i32 \<Rightarrow> string \<Rightarrow> bson_document" where
  "service_document i ip p n =
     [''ServiceIdentifier'' \<mapsto> B_int32 i, ''IpAddress'' \<mapsto> B_utf8 ip, ''Port'' \<mapsto> B_int32 p, ''Name'' \<mapsto> B_utf8 n]"

lemma viewToServiceRecord_document:
  "viewToServiceRecord (service_document i ip p n) =
     Inr (Some \<lparr>srPort = ucast p, srIdentifier = i, srIpAddress = ip, srName = n\<rparr>)"
  unfolding viewToServiceRecord_Some_iff by (simp add: service_document_def)

section \<open>Properties\<close>

text \<open>
  A record is read from a document exactly when its four fields are there with their types;
  then identifier, address and name are the stored ones, and the port is the stored number
  modulo 2^16: it is the stored port exactly when that lies in 0..65535. A stored record whose
  port is in range is read back unchanged.
\<close>
lemma service_record_read:
  "(viewToServiceRecord view = Inr (Some r)) =
    (\<exists>i ip p n. view ''ServiceIdentifier'' = Some (B_int32 i) \<and> view ''IpAddress'' = Some (B_utf8 ip) \<and>
       view ''Port'' = Some (B_int32 p) \<and> view ''Name'' = Some (B_utf8 n) \<and>
       srIdentifier r = i \<and> srIpAddress r = ip \<and> srName r = n \<and> uint (srPort r) = sint p mod 2 ^ 16 \<and>
       (uint (srPort r) = sint p) = (0 \<le> sint p \<and> sint p < 2 ^ 16))" (is "?lhs = ?rhs")
proof -
  have wrap: "uint (ucast p :: u16) = sint p mod 2 ^ 16" for p :: i32
  proof -
    have "uint (ucast p :: u16) = take_bit 16 (sint p)"
      by (simp add: unsigned_ucast_eq sint_uint take_bit_signed_take_bit)
    then show ?thesis by (simp add: take_bit_eq_mod)
  qed
  have range: "(sint p mod 2 ^ 16 = sint p) = (0 \<le> sint p \<and> sint p < 2 ^ 16)" for p :: i32
    by (metis mod_pos_pos_trivial pos_mod_bound pos_mod_sign zero_less_numeral zero_less_power)
  have key: "(q = ucast p) = (uint q = sint p mod 2 ^ 16 \<and> (uint q = sint p) = (0 \<le> sint p \<and> sint p < 2 ^ 16))"
    for p :: i32 and q :: u16
    by (metis wrap range unsigned_word_eqI)
  show ?thesis
    unfolding viewToServiceRecord_Some_iff by (cases r) (auto simp: key)
qed

end
