(* ===== verification/Events.thy ===== *)
theory Events
  imports Prelude
begin

text \<open>
  Event.hpp, ModuleEventsCache and EventManager: the handlers a user registers for the
  requests of a sender, and their dispatch. The handler class is user code, so what its
  validate and run do are parameters: \<open>validate\<close> decides on the message, \<open>run\<close> acts on the
  rest of the program. A dereferenced null pointer (a null event, or a null callback that is
  run) is undefined behaviour, the value \<^const>\<open>None\<close>.
\<close>

section \<open>Events\<close>

text \<open>MessageReceiveEvent<T> holds a callback, a pointer that may be null.\<close>

datatype 'h event = MessageReceiveEvent "'h option"

fun validateMessage :: "('h \<Rightarrow> 'm \<Rightarrow> bool) \<Rightarrow> 'h event \<Rightarrow> 'm \<Rightarrow> bool" where
  "validateMessage validate (MessageReceiveEvent (Some callback)) m = validate callback m"
| "validateMessage validate (MessageReceiveEvent None) m = False"

fun handleReceivedMessage :: "('h \<Rightarrow> 'm \<Rightarrow> 'w \<Rightarrow> 'w) \<Rightarrow> 'h event \<Rightarrow> 'm \<Rightarrow> 'w \<Rightarrow> 'w option" where
  "handleReceivedMessage run (MessageReceiveEvent (Some callback)) m w = Some (run callback m w)"
| "handleReceivedMessage run (MessageReceiveEvent None) m w = None"

section \<open>The cache of events\<close>

text \<open>
  A multimap from the sender, a signed 32-bit identifier, to owned events; \<^const>\<open>None\<close> is a
  null unique_ptr.
\<close>

type_synonym 'h events_cache = "(int \<times> 'h event option) list"

definition addEvent :: "i32 \<Rightarrow> 'h event option \<Rightarrow> 'h events_cache \<Rightarrow> 'h events_cache" where
  "addEvent i event eventsCache = mm_insert (sint i) event eventsCache"

fun run_range ::
    "('h \<Rightarrow> 'm \<Rightarrow> bool) \<Rightarrow> ('h \<Rightarrow> 'm \<Rightarrow> 'w \<Rightarrow> 'w) \<Rightarrow> 'm \<Rightarrow> 'h events_cache \<Rightarrow> 'w \<Rightarrow> 'w option" where
  "run_range validate run m [] w = Some w"
| "run_range validate run m ((_, None) # es) w = None"
| "run_range validate run m ((_, Some event) # es) w =
     (if validateMessage validate event m
      then (case handleReceivedMessage run event m w of None \<Rightarrow> None
            | Some w' \<Rightarrow> run_range validate run m es w')
      else run_range validate run m es w)"

definition runRequestsHandlers ::
    "('h \<Rightarrow> 'm \<Rightarrow> bool) \<Rightarrow> ('h \<Rightarrow> 'm \<Rightarrow> 'w \<Rightarrow> 'w) \<Rightarrow> i32 \<Rightarrow> 'm \<Rightarrow> 'h events_cache \<Rightarrow> 'w \<Rightarrow> 'w option" where
  "runRequestsHandlers validate run i m eventsCache w =
     (case find (\<lambda>e. fst e = sint i) eventsCache of
        None \<Rightarrow> Some w
      | Some _ \<Rightarrow> run_range validate run m (mm_equal_range (sint i) eventsCache) w)"

section \<open>The event manager\<close>

text \<open>
  The static eventManager pointer: null, or an object that refers to the events cache of the
  module. \<open>allocated\<close> says whether operator new succeeds.
\<close>

record 'h event_manager =
  eventManager :: bool
  managedEvents :: "'h events_cache"

definition initializeEventManager :: "bool \<Rightarrow> 'h event_manager \<Rightarrow> bool \<times> 'h event_manager" where
  "initializeEventManager allocated g =
     (if \<not> eventManager g then
        (if allocated then (True, g\<lparr>eventManager := True\<rparr>) else (False, g))
      else (True, g))"

definition registerNewEventHandler :: "i32 \<Rightarrow> 'h event option \<Rightarrow> 'h event_manager \<Rightarrow> 'h event_manager" where
  "registerNewEventHandler i event g =
     (if eventManager g then g\<lparr>managedEvents := addEvent i event (managedEvents g)\<rparr> else g)"

definition getEventManager :: "'h event_manager \<Rightarrow> bool" where
  "getEventManager g = eventManager g"

text \<open>
  The destructor deletes the instance, whose destructor runs and finds the pointer still set:
  destroying the instance never returns. Nothing in the program destroys it.
\<close>

partial_function (option) destroyEventManager :: "'h event_manager \<Rightarrow> 'h event_manager option" where
  "destroyEventManager g = (if eventManager g then destroyEventManager g else Some g)"

lemma destroyEventManager_result:
  "destroyEventManager g = (if eventManager g then None else Some g)"
proof (cases "destroyEventManager g")
  case None
  then show ?thesis by (subst (asm) destroyEventManager.simps) (simp split: if_splits)
next
  case (Some g')
  have "\<not> eventManager g \<and> g' = g"
    by (rule destroyEventManager.raw_induct [where P = "\<lambda>g g'. \<not> eventManager g \<and> g' = g", OF _ Some])
      (auto split: if_splits)
  with Some show ?thesis by simp
qed

lemmas event_defs = addEvent_def runRequestsHandlers_def initializeEventManager_def
  registerNewEventHandler_def

section \<open>Dispatch\<close>

lemma sint_eq_iff: "sint (i :: i32) = sint j \<longleftrightarrow> i = j"
  by (metis signed_word_eqI)

lemma run_range_filter:
  "\<forall>e \<in> set es. snd e \<noteq> None \<Longrightarrow>
    run_range validate run m es w =
      Some (fold (\<lambda>h. run h m) (filter (\<lambda>h. validate h m)
        (concat (map (\<lambda>e. case snd e of Some (MessageReceiveEvent (Some h)) \<Rightarrow> [h] | _ \<Rightarrow> []) es))) w)"
proof (induction validate run m es w rule: run_range.induct)
  case (3 validate run m k event es w)
  obtain cb where "event = MessageReceiveEvent cb" by (cases event)
  with 3 show ?case by (cases cb) auto
qed auto

text \<open>Registrations in the order they were made, into an initialised manager.\<close>

fun register_all :: "(i32 \<times> 'h option) list \<Rightarrow> 'h event_manager \<Rightarrow> 'h event_manager" where
  "register_all [] g = g"
| "register_all ((i, h) # regs) g =
     register_all regs (registerNewEventHandler i (Some (MessageReceiveEvent h)) g)"

lemma register_all_sorted:
  "mm_sorted (managedEvents g) \<Longrightarrow> mm_sorted (managedEvents (register_all regs g))"
  by (induction regs g rule: register_all.induct)
    (auto simp: registerNewEventHandler_def addEvent_def mm_sorted_insert)

lemma register_all_of_sender:
  "eventManager g \<Longrightarrow> mm_sorted (managedEvents g) \<Longrightarrow>
    filter (\<lambda>e. fst e = sint i) (managedEvents (register_all regs g)) =
      filter (\<lambda>e. fst e = sint i) (managedEvents g) @
      map (\<lambda>(j, h). (sint j, Some (MessageReceiveEvent h))) (filter (\<lambda>(j, h). j = i) regs)"
proof (induction regs g rule: register_all.induct)
  case (2 j h regs g)
  then show ?case
    using filter_key_mm_insert [of "managedEvents g" "sint i"]
      filter_mm_insert_other [of "\<lambda>e. fst e = sint i" "sint j"]
    by (cases "j = i")
      (auto simp: registerNewEventHandler_def addEvent_def mm_sorted_insert sint_eq_iff)
qed simp

lemma runRequestsHandlers_range:
  "mm_sorted c \<Longrightarrow> runRequestsHandlers validate run i m c w =
     run_range validate run m (filter (\<lambda>e. fst e = sint i) c) w"
proof (cases "find (\<lambda>e. fst e = sint i) c")
  case None
  then have "filter (\<lambda>e. fst e = sint i) c = []"
    unfolding filter_empty_conv using find_None_all [OF None] by blast
  with None show ?thesis by (simp add: runRequestsHandlers_def)
next
  case (Some e)
  moreover assume "mm_sorted c"
  ultimately show ?thesis by (simp add: runRequestsHandlers_def mm_equal_range_filter)
qed

text \<open>What the message server relies on: who runs for a sender is decided by the registrations of that sender.\<close>

locale event_dispatch =
  fixes dispatch :: "i32 \<Rightarrow> 'm \<Rightarrow> 'c \<Rightarrow> 'w \<Rightarrow> 'w option"
    and add :: "i32 \<Rightarrow> 'h \<Rightarrow> 'c \<Rightarrow> 'c"
    and handlers :: "i32 \<Rightarrow> 'c \<Rightarrow> 'h list"
    and ok :: "'c \<Rightarrow> bool"
    and accepts :: "'h \<Rightarrow> 'm \<Rightarrow> bool"
    and act :: "'h \<Rightarrow> 'm \<Rightarrow> 'w \<Rightarrow> 'w"
  assumes dispatch_law: "ok c \<Longrightarrow> dispatch i m c w = Some (fold (\<lambda>h. act h m) (filter (\<lambda>h. accepts h m) (handlers i c)) w)"
    and add_law: "ok c \<Longrightarrow> ok (add i h c) \<and> handlers j (add i h c) = handlers j c @ (if i = j then [h] else [])"
begin

lemma dispatch_unregistered: "ok c \<Longrightarrow> handlers i c = [] \<Longrightarrow> dispatch i m c w = Some w"
  by (simp add: dispatch_law)

lemma dispatch_after_add:
  "ok c \<Longrightarrow> dispatch i m (add i h c) w =
     map_option (if accepts h m then act h m else id) (dispatch i m c w)"
  by (simp add: dispatch_law add_law)

lemma dispatch_other_sender: "ok c \<Longrightarrow> i \<noteq> j \<Longrightarrow> dispatch j m (add i h c) w = dispatch j m c w"
  by (simp add: dispatch_law add_law)

end

definition handlers_of :: "i32 \<Rightarrow> 'h events_cache \<Rightarrow> 'h list" where
  "handlers_of i c = concat (map (\<lambda>e. case snd e of Some (MessageReceiveEvent (Some h)) \<Rightarrow> [h] | _ \<Rightarrow> [])
     (filter (\<lambda>e. fst e = sint i) c))"

definition events_ok :: "'h events_cache \<Rightarrow> bool" where
  "events_ok c \<longleftrightarrow> mm_sorted c \<and> (\<forall>e \<in> set c. snd e \<noteq> None)"

interpretation ec: event_dispatch "runRequestsHandlers validate run"
    "\<lambda>i h. addEvent i (Some (MessageReceiveEvent (Some h)))" handlers_of events_ok validate run
  for validate run
proof (unfold_locales, goal_cases)
  case (1 c i m w)
  then show ?case
    by (auto simp: events_ok_def runRequestsHandlers_range handlers_of_def intro!: run_range_filter)
next
  case (2 c i h j)
  have "filter (\<lambda>e. fst e = sint j) (addEvent i (Some (MessageReceiveEvent (Some h))) c) =
      filter (\<lambda>e. fst e = sint j) c @ (if i = j then [(sint j, Some (MessageReceiveEvent (Some h)))] else [])"
    using 2 filter_key_mm_insert [of c "sint j"]
      filter_mm_insert_other [of "\<lambda>e. fst e = sint j" "sint i" "Some (MessageReceiveEvent (Some h))" c]
    by (simp add: events_ok_def addEvent_def sint_eq_iff)
  with 2 show ?case
    by (auto simp: events_ok_def addEvent_def mm_sorted_insert handlers_of_def)
qed

section \<open>Property\<close>

text \<open>
  After any sequence of registrations with an initialised event manager, a request of a sender
  runs exactly the handlers registered for that sender whose validation accepts the message,
  each once, in the order of their registrations; handlers of other senders, handlers that
  refuse and null handlers are not run. Registrations before initialize are dropped.
\<close>
lemma request_dispatch_exact:
  "runRequestsHandlers validate run i m
     (managedEvents (register_all regs \<lparr>eventManager = initialised, managedEvents = []\<rparr>)) w =
   Some (fold (\<lambda>h. run h m)
     [h. (j, Some h) \<leftarrow> (if initialised then regs else []), j = i, validate h m] w)"
proof (cases initialised)
  case False
  then have "register_all regs \<lparr>eventManager = initialised, managedEvents = []\<rparr> =
      \<lparr>eventManager = initialised, managedEvents = []\<rparr>"
    by (induction regs) (auto simp: registerNewEventHandler_def)
  with False show ?thesis by (simp add: runRequestsHandlers_def)
next
  case True
  let ?g = "\<lparr>eventManager = True, managedEvents = []\<rparr>"
  have sender: "filter (\<lambda>e. fst e = sint i) (managedEvents (register_all regs ?g)) =
      map (\<lambda>(j, h). (sint j, Some (MessageReceiveEvent h))) (filter (\<lambda>(j, h). j = i) regs)"
    by (subst register_all_of_sender) simp_all
  have handlers: "filter (\<lambda>h. validate h m)
      (concat (map (\<lambda>e. case snd e of Some (MessageReceiveEvent (Some h)) \<Rightarrow> [h] | _ \<Rightarrow> [])
         (map (\<lambda>(j, h). (sint j, Some (MessageReceiveEvent h))) (filter (\<lambda>(j, h). j = i) regs)))) =
      [h. (j, Some h) \<leftarrow> regs, j = i, validate h m]"
    by (induction regs) (auto split: option.splits)
  show ?thesis
    using True handlers
    by (simp add: runRequestsHandlers_range register_all_sorted sender run_range_filter)
qed

end
