(* ===== verification/Server.thy ===== *)
theory Server
  imports Timers_Loop Message_Queue Messages Configuration Services Events
begin

text \<open>
  ModuleServer.hpp and ModuleServer.cpp: the UDP server that sends requests to services one at
  a time, starts a resend timer for each, cancels it when the response comes, and dispatches
  incoming requests. What is outside the repository is the record \<open>server_env\<close>: the generated
  serialiser and parser, rand, the database, the address parser, the socket calls. Handlers of
  requests act on \<open>'w\<close>, the rest of the program; a user's timer callback sends requests and acts
  on \<open>'w\<close>. Every function is one atomic step on the
  state; the asynchronous calls of the socket only record that they were started, and their
  completion handlers are operations of their own.
\<close>

section \<open>The state\<close>

type_synonym 'addr endpoint = "'addr \<times> u16"

type_synonym bytes = "u8 list"

record 'addr destination =
  serviceIdentifier :: i32
  endpoint :: "'addr endpoint"

record ('addr, 'any) parked_message =
  transactionCode :: u32
  destination :: "'addr destination"
  parkedMessage :: "'any message"

text \<open>
  The functions that timers of the cache run: the lambda of startTimerToResend, and the functions
  of the user's program, which shares the cache through ModuleTimersManager.
\<close>

datatype server_callback = ResendMessage | UserCallback nat

type_synonym ('addr, 'any) server_timers = "(server_callback, ('addr, 'any) parked_message option) timers_cache"

datatype server_error = System_error | Database_error db_error

text \<open>
  \<open>readingStarted\<close>: an async_receive_from is pending. \<open>inFlight\<close>: the async_send_to calls
  without a completion yet, \<open>handedOver\<close> all of them since the start. \<open>randCalls\<close>: how often
  rand has been called. \<open>now\<close>: what the clock shows.
\<close>

record ('addr, 'any, 'h, 'w) server =
  servicesEndpointsMap :: "i32 \<rightharpoonup> 'addr endpoint"
  timersCache :: "('addr, 'any) server_timers"
  eventsCache :: "'h events_cache"
  socketOpen :: bool
  messageBufferLength :: nat
  messageQueue :: "('addr destination \<times> 'any message) list"
  parkedMessages :: "('addr, 'any) parked_message list"
  transactionAndTimerID :: "u32 \<rightharpoonup> u32"
  readingStarted :: bool
  inFlight :: "('addr endpoint \<times> bytes) list"
  handedOver :: "('addr endpoint \<times> bytes) list"
  randCalls :: nat
  now :: time_point
  handlersWorld :: 'w

record ('addr, 'any, 'h, 'w) server_env =
  moduleIdentifier :: i32
  configured :: server_configuration
  rand :: "nat \<Rightarrow> nat"
  databaseInitialised :: bool
  find_one :: "service_filter \<Rightarrow> db_error + bson_document option"
  address_from_string :: "string \<Rightarrow> 'addr option"
  serialize :: "'any message \<Rightarrow> bytes"
  parse :: "bytes \<Rightarrow> 'any message option"
  default_any :: 'any
  socket_open_ok :: bool
  socket_bind_ok :: "u16 \<Rightarrow> bool"
  handler_validate :: "'h \<Rightarrow> 'any \<Rightarrow> bool"
  handler_run :: "'h \<Rightarrow> 'any \<Rightarrow> 'w \<Rightarrow> 'w"
  user_requests :: "nat \<Rightarrow> (i32 \<times> 'any option) list"
  user_callback :: "nat \<Rightarrow> 'w \<Rightarrow> 'w cb_outcome"

type_synonym ('addr, 'any, 'h, 'w, 'a) server_result =
  "(server_error, 'a, ('addr, 'any, 'h, 'w) server) outcome"

definition new_server :: "(i32 \<rightharpoonup> 'addr endpoint) \<Rightarrow> 'h events_cache \<Rightarrow> 'w \<Rightarrow> ('addr, 'any, 'h, 'w) server" where
  "new_server endpoints events w =
     \<lparr>servicesEndpointsMap = endpoints, timersCache = empty_timers_cache, eventsCache = events,
      socketOpen = False, messageBufferLength = 0, messageQueue = [], parkedMessages = [],
      transactionAndTimerID = Map.empty, readingStarted = False, inFlight = [], handedOver = [],
      randCalls = 0, now = 0, handlersWorld = w\<rparr>"

section \<open>Binding\<close>

text \<open>
  open and bind throw system_error, which the catch clause of the code does not match: it
  catches error_code. So the exception leaves the function, and false is never returned.
\<close>

definition bindToListeningSocket ::
    "('addr, 'any, 'h, 'w) server_env \<Rightarrow> ('addr, 'any, 'h, 'w) server \<Rightarrow> ('addr, 'any, 'h, 'w, bool) server_result" where
  "bindToListeningSocket env s =
     (if \<not> socket_open_ok env then Throws System_error s
      else let s = s\<lparr>socketOpen := True\<rparr>
           in if \<not> socket_bind_ok env (listeningPort (configured env)) then Throws System_error s
              else Done True (s\<lparr>messageBufferLength := unat (messageBufferSize (configured env))\<rparr>))"

section \<open>Transaction codes\<close>

text \<open>
  The loop draws again while a parked message has the code; when every code that is drawn is
  taken it does not end.
\<close>

partial_function (option) redraw ::
    "(nat \<Rightarrow> nat) \<Rightarrow> ('addr, 'any) parked_message list \<Rightarrow> nat \<Rightarrow> u32 \<Rightarrow> (u32 \<times> nat) option" where
  "redraw rnd parked calls code =
     (if find (\<lambda>p. transactionCode p = code) parked \<noteq> None
      then redraw rnd parked (Suc calls) (of_nat (rnd calls mod 10000000 + 1))
      else Some (code, calls))"

definition generateTransactionCode ::
    "('addr, 'any, 'h, 'w) server_env \<Rightarrow> ('addr, 'any, 'h, 'w) server \<Rightarrow> ('addr, 'any, 'h, 'w, u32) server_result" where
  "generateTransactionCode env s =
     (let newTransactionCode = of_nat (rand env (randCalls s) mod 1000 + 1)
      in case redraw (rand env) (parkedMessages s) (Suc (randCalls s)) newTransactionCode of
           None \<Rightarrow> Blocks
         | Some (code, calls) \<Rightarrow> Done code (s\<lparr>randCalls := calls\<rparr>))"

section \<open>Sending\<close>

definition startTimerToResend ::
    "('addr, 'any, 'h, 'w) server_env \<Rightarrow> 'addr destination \<Rightarrow> 'any message
      \<Rightarrow> ('addr, 'any, 'h, 'w) server \<Rightarrow> ('addr, 'any, 'h, 'w, unit) server_result" where
  "startTimerToResend env dest request s =
     (let code = header_transactioncode request;
          parked = \<lparr>transactionCode = code, destination = dest, parkedMessage = request\<rparr>;
          resendTimer = setDuration (seconds (timeBetweenMessageResendsInSeconds (configured env)))
                          (new_timer (now s) (Some ResendMessage) (Some parked))
      in case registerTimer (Some resendTimer) (timersCache s) of
           None \<Rightarrow> Blocks
         | Some (resendTimerID, cache) \<Rightarrow>
             Done () (s\<lparr>timersCache := cache,
                        transactionAndTimerID := map_emplace code resendTimerID (transactionAndTimerID s)\<rparr>))"

definition sendToDestination ::
    "'addr destination \<Rightarrow> bytes option \<Rightarrow> ('addr, 'any, 'h, 'w) server \<Rightarrow> ('addr, 'any, 'h, 'w, bool) server_result" where
  "sendToDestination dest message s =
     (case message of
        Some bytes \<Rightarrow> Done True (s\<lparr>inFlight := inFlight s @ [(endpoint dest, bytes)],
                                  handedOver := handedOver s @ [(endpoint dest, bytes)]\<rparr>)
      | None \<Rightarrow> Done False s)"

definition send ::
    "('addr, 'any, 'h, 'w) server_env \<Rightarrow> ('addr, 'any, 'h, 'w) server \<Rightarrow> ('addr, 'any, 'h, 'w, unit) server_result" where
  "send env s =
     (case front (messageQueue s) of
        None \<Rightarrow> Undefined
      | Some (dest, message) \<Rightarrow>
          andThen (startTimerToResend env dest message s)
            (\<lambda>_ s. andThen (sendToDestination dest (Some (serialize env message)) s)
              (\<lambda>_ s. Done () s)))"

definition processSendError :: "('addr, 'any, 'h, 'w) server \<Rightarrow> ('addr, 'any, 'h, 'w) server" where
  "processSendError s = s"

text \<open>The completion handler of the oldest async_send_to.\<close>

definition postSendToDestination ::
    "('addr, 'any, 'h, 'w) server_env \<Rightarrow> bool \<Rightarrow> ('addr, 'any, 'h, 'w) server \<Rightarrow> ('addr, 'any, 'h, 'w, unit) server_result" where
  "postSendToDestination env error s0 =
     (let s = s0\<lparr>inFlight := tl (inFlight s0)\<rparr>
      in if error then Done () (processSendError s)
         else case pop (messageQueue s) of
                None \<Rightarrow> Undefined
              | Some q \<Rightarrow>
                  (let s' = s\<lparr>messageQueue := q\<rparr>
                   in if queue_empty (messageQueue s') then Done () s' else send env s'))"

section \<open>Requests\<close>

text \<open>
  The part the three senders share. A destination comes from the map of endpoints or else from
  the database, which is reached through a pointer that is null when the environment was not
  initialised. The message is pushed and sent at once only when it is alone in the queue.
\<close>

definition findDestination ::
    "('addr, 'any, 'h, 'w) server_env \<Rightarrow> i32 \<Rightarrow> ('addr, 'any, 'h, 'w) server
      \<Rightarrow> ('addr, 'any, 'h, 'w, 'addr destination option) server_result" where
  "findDestination env i s =
     (case servicesEndpointsMap s i of
        Some e \<Rightarrow> Done (Some \<lparr>serviceIdentifier = i, endpoint = e\<rparr>) s
      | None \<Rightarrow>
          if \<not> databaseInitialised env then Undefined
          else case getService (find_one env) i of
                 Inl err \<Rightarrow> Throws (Database_error err) s
               | Inr None \<Rightarrow> Done None s
               | Inr (Some service) \<Rightarrow>
                   (case address_from_string env (srIpAddress service) of
                      None \<Rightarrow> Throws System_error s
                    | Some address \<Rightarrow>
                        Done (Some \<lparr>serviceIdentifier = i, endpoint = (address, srPort service)\<rparr>) s))"

definition pushAndSend ::
    "('addr, 'any, 'h, 'w) server_env \<Rightarrow> 'addr destination \<Rightarrow> 'any message
      \<Rightarrow> ('addr, 'any, 'h, 'w) server \<Rightarrow> ('addr, 'any, 'h, 'w, bool) server_result" where
  "pushAndSend env dest message s =
     (let (pushed, q) = push (dest, message) (messageQueue s);
          s' = s\<lparr>messageQueue := q\<rparr>
      in if pushed \<noteq> 0 then
           (if queue_size (messageQueue s') > 1 then Done False s'
            else andThen (send env s') (\<lambda>_ s. Done True s))
         else Done False s')"

definition sendRequest ::
    "('addr, 'any, 'h, 'w) server_env \<Rightarrow> i32 \<Rightarrow> 'any option \<Rightarrow> ('addr, 'any, 'h, 'w) server
      \<Rightarrow> ('addr, 'any, 'h, 'w, bool) server_result" where
  "sendRequest env i anyRequest s =
     andThen (findDestination env i s) (\<lambda>d s.
       case d of None \<Rightarrow> Done False s
       | Some dest \<Rightarrow> andThen (generateTransactionCode env s) (\<lambda>code s.
           pushAndSend env dest (makeRequestMessage (moduleIdentifier env) anyRequest code) s))"

definition sendRequestMessage ::
    "('addr, 'any, 'h, 'w) server_env \<Rightarrow> i32 \<Rightarrow> 'any message \<Rightarrow> ('addr, 'any, 'h, 'w) server
      \<Rightarrow> ('addr, 'any, 'h, 'w, bool) server_result" where
  "sendRequestMessage env i request s =
     andThen (findDestination env i s) (\<lambda>d s.
       case d of None \<Rightarrow> Done False s | Some dest \<Rightarrow> pushAndSend env dest request s)"

definition sendSubscribeRequest ::
    "('addr, 'any, 'h, 'w) server_env \<Rightarrow> i32 \<Rightarrow> string \<Rightarrow> ('addr, 'any, 'h, 'w) server
      \<Rightarrow> ('addr, 'any, 'h, 'w, bool) server_result" where
  "sendSubscribeRequest env i subscribedType s =
     andThen (findDestination env i s) (\<lambda>d s.
       case d of None \<Rightarrow> Done False s
       | Some dest \<Rightarrow> andThen (generateTransactionCode env s) (\<lambda>code s.
           pushAndSend env dest (makeSubscriptionRequestMessage (moduleIdentifier env) subscribedType code) s))"

text \<open>Requests that a handler or a callback sends one after the other, whatever is answered; an exception ends them.\<close>

fun send_all ::
    "('addr, 'any, 'h, 'w) server_env \<Rightarrow> (i32 \<times> 'any option) list \<Rightarrow> ('addr, 'any, 'h, 'w) server
      \<Rightarrow> ('addr, 'any, 'h, 'w, unit) server_result" where
  "send_all env [] s = Done () s"
| "send_all env ((i, any) # requests) s = andThen (sendRequest env i any s) (\<lambda>_ s. send_all env requests s)"

text \<open>The lambda of startTimerToResend.\<close>

definition resendMessage ::
    "('addr, 'any, 'h, 'w) server_env \<Rightarrow> ('addr, 'any) parked_message option \<Rightarrow> ('addr, 'any, 'h, 'w) server
      \<Rightarrow> ('addr, 'any, 'h, 'w, unit) server_result" where
  "resendMessage env message s =
     (case message of
        None \<Rightarrow> Done () s
      | Some p \<Rightarrow>
          (let s' = (if transactionAndTimerID s (transactionCode p) \<noteq> None
                     then s\<lparr>transactionAndTimerID := (transactionAndTimerID s)(transactionCode p := None)\<rparr>
                     else s)
           in andThen (sendRequestMessage env (serviceIdentifier (destination p)) (parkedMessage p) s')
                (\<lambda>_ s. Done () s)))"

section \<open>Receiving\<close>

definition handleRequest ::
    "('addr, 'any, 'h, 'w) server_env \<Rightarrow> 'any message \<Rightarrow> ('addr, 'any, 'h, 'w) server
      \<Rightarrow> ('addr, 'any, 'h, 'w, unit) server_result" where
  "handleRequest env requestMessage s =
     (case runRequestsHandlers (handler_validate env) (handler_run env) (header_senderidentifier requestMessage)
             (request_payload (default_any env) requestMessage) (eventsCache s) (handlersWorld s) of
        None \<Rightarrow> Undefined
      | Some w \<Rightarrow> Done () (s\<lparr>handlersWorld := w\<rparr>))"

definition handleResponse ::
    "'any message \<Rightarrow> ('addr, 'any, 'h, 'w) server \<Rightarrow> ('addr, 'any, 'h, 'w, unit) server_result" where
  "handleResponse responseMessage s =
     (if \<not> has_response responseMessage then Done () s
      else if msgResponse responseMessage = Some Success then
        (let code = header_transactioncode responseMessage
         in case transactionAndTimerID s code of
              Some timer_id \<Rightarrow>
                (case removeTimer timer_id (timersCache s) of
                   None \<Rightarrow> Blocks
                 | Some cache \<Rightarrow>
                     Done () (s\<lparr>timersCache := cache,
                                transactionAndTimerID := (transactionAndTimerID s)(code := None)\<rparr>))
            | None \<Rightarrow> Done () s)
      else Done () s)"

definition processHandleReceiveError :: "('addr, 'any, 'h, 'w) server \<Rightarrow> ('addr, 'any, 'h, 'w) server" where
  "processHandleReceiveError s = s"

definition startReading :: "('addr, 'any, 'h, 'w) server \<Rightarrow> ('addr, 'any, 'h, 'w) server" where
  "startReading s = s\<lparr>readingStarted := True\<rparr>"

text \<open>
  The completion handler of async_receive_from: an error, or a datagram, of which the socket
  stores what fits the buffer.
\<close>

definition postReceive ::
    "('addr, 'any, 'h, 'w) server_env \<Rightarrow> bytes option \<Rightarrow> ('addr, 'any, 'h, 'w) server
      \<Rightarrow> ('addr, 'any, 'h, 'w, unit) server_result" where
  "postReceive env datagram s0 =
     (let s = s0\<lparr>readingStarted := False\<rparr>
      in case datagram of
           None \<Rightarrow> Done () (processHandleReceiveError s)
         | Some d \<Rightarrow>
             (let receivedMessage = take (messageBufferLength s) d;
                  s = startReading s
              in case parse env receivedMessage of
                   None \<Rightarrow> Done () s
                 | Some m \<Rightarrow>
                     (if has_header m then
                        (if has_request m then handleRequest env m s
                         else if has_response m then handleResponse m s
                         else Done () s)
                      else Done () s)))"

lemmas send_defs = startTimerToResend_def sendToDestination_def send_def pushAndSend_def
lemmas request_defs = sendRequest_def sendRequestMessage_def sendSubscribeRequest_def

end
