(* ===== verification/Server_Requests.thy ===== *)
theory Server_Requests
  imports Server
begin

text \<open>
  What the operations of the server do, branch by branch: the codes it draws, the destination
  it finds, what a send adds to the state, what a response takes away. The timer cache enters
  through the contract \<open>timer_store\<close> of its theory only.
\<close>

section \<open>Transaction codes\<close>

definition code_parked :: "('addr, 'any) parked_message list \<Rightarrow> u32 \<Rightarrow> bool" where
  "code_parked parked code \<longleftrightarrow> code \<in> transactionCode ` set parked"

definition drawn_code :: "(nat \<Rightarrow> nat) \<Rightarrow> nat \<Rightarrow> nat \<Rightarrow> u32" where
  "drawn_code rnd bound k = of_nat (rnd k mod bound + 1)"

lemma unat_drawn_code: "0 < bound \<Longrightarrow> bound < 2 ^ 31 \<Longrightarrow> unat (drawn_code rnd bound k) = rnd k mod bound + 1"
proof -
  assume "0 < bound" and "bound < 2 ^ 31"
  then have "rnd k mod bound < bound" and "bound < 2 ^ 31"
    by simp_all
  then have "rnd k mod bound + 1 < 2 ^ 32" by simp
  then show ?thesis by (simp add: drawn_code_def unsigned_of_nat take_bit_nat_eq_self del: of_nat_Suc)
qed

lemma drawn_code_bounds:
  "0 < bound \<Longrightarrow> bound < 2 ^ 31 \<Longrightarrow> 1 \<le> unat (drawn_code rnd bound k) \<and> unat (drawn_code rnd bound k) \<le> bound"
  using mod_less_divisor [of bound "rnd k"] by (simp add: unat_drawn_code Suc_le_eq)

lemma redraw_unfold:
  "redraw rnd parked calls code =
     (if code_parked parked code then redraw rnd parked (Suc calls) (drawn_code rnd 10000000 calls)
      else Some (code, calls))"
proof -
  have "find (\<lambda>p. transactionCode p = code) parked \<noteq> None \<longleftrightarrow> code_parked parked code"
    unfolding find_None_iff code_parked_def by blast
  then show ?thesis by (subst redraw.simps) (simp add: drawn_code_def)
qed

text \<open>The search ends exactly when some draw is free, with the first such draw.\<close>

lemma redraw_first_free:
  "\<not> code_parked parked (drawn_code rnd 10000000 (calls + n)) \<Longrightarrow>
    \<forall>k < n. code_parked parked (drawn_code rnd 10000000 (calls + k)) \<Longrightarrow> code_parked parked code \<Longrightarrow>
    redraw rnd parked calls code = Some (drawn_code rnd 10000000 (calls + n), Suc (calls + n))"
proof (induction n arbitrary: calls code)
  case 0
  then show ?case
    by (simp add: redraw_unfold [of rnd parked calls code] redraw_unfold [of rnd parked "Suc calls"])
next
  case (Suc n)
  from Suc.prems(2) have first: "code_parked parked (drawn_code rnd 10000000 calls)"
    by (metis add.right_neutral zero_less_Suc)
  from Suc.prems(2) have "\<forall>k < n. code_parked parked (drawn_code rnd 10000000 (Suc calls + k))"
    by (metis Suc_mono add_Suc add_Suc_right)
  with Suc.IH [of "Suc calls" "drawn_code rnd 10000000 calls"] Suc.prems(1) first
  have "redraw rnd parked (Suc calls) (drawn_code rnd 10000000 calls) =
      Some (drawn_code rnd 10000000 (Suc calls + n), Suc (Suc calls + n))" by simp
  with Suc.prems(3) show ?case by (simp add: redraw_unfold [of rnd parked calls code])
qed

lemma redraw_result:
  "redraw rnd parked calls code = Some (c, calls') \<Longrightarrow>
    \<not> code_parked parked c \<and> (c = code \<and> calls' = calls \<or> (\<exists>k. c = drawn_code rnd 10000000 k))"
proof (rule redraw.raw_induct [where P = "\<lambda>rnd parked calls code (c, calls').
    \<not> code_parked parked c \<and> (c = code \<and> calls' = calls \<or> (\<exists>k. c = drawn_code rnd 10000000 k))", THEN case_prodD])
  fix rd :: "(nat \<Rightarrow> nat) \<Rightarrow> ('a, 'b) parked_message list \<Rightarrow> nat \<Rightarrow> u32 \<Rightarrow> (u32 \<times> nat) option"
    and rnd :: "nat \<Rightarrow> nat" and parked :: "('a, 'b) parked_message list" and calls code r
  assume IH: "\<And>rnd parked calls code r. rd rnd parked calls code = Some r \<Longrightarrow>
      (case r of (c, calls') \<Rightarrow> \<not> code_parked parked c \<and>
         (c = code \<and> calls' = calls \<or> (\<exists>k. c = drawn_code rnd 10000000 k)))"
    and step: "(if find (\<lambda>p. transactionCode p = code) parked \<noteq> None
      then rd rnd parked (Suc calls) (of_nat (rnd calls mod 10000000 + 1))
      else Some (code, calls)) = Some r"
  show "case r of (c, calls') \<Rightarrow> \<not> code_parked parked c \<and>
      (c = code \<and> calls' = calls \<or> (\<exists>k. c = drawn_code rnd 10000000 k))"
  proof (cases "find (\<lambda>p. transactionCode p = code) parked")
    case None
    then have "\<not> code_parked parked code"
      unfolding find_None_iff code_parked_def by blast
    with None step show ?thesis by auto
  next
    case (Some p)
    with step have "rd rnd parked (Suc calls) (drawn_code rnd 10000000 calls) = Some r"
      by (simp add: drawn_code_def)
    from IH [OF this] show ?thesis by auto
  qed
qed

lemma generateTransactionCode_none_parked:
  "parkedMessages s = [] \<Longrightarrow>
    generateTransactionCode env s =
      Done (drawn_code (rand env) 1000 (randCalls s)) (s\<lparr>randCalls := Suc (randCalls s)\<rparr>)"
  by (simp add: generateTransactionCode_def redraw_unfold code_parked_def drawn_code_def)

section \<open>Sending\<close>

definition resend_timer ::
    "('addr, 'any, 'h, 'w) server_env \<Rightarrow> time_point \<Rightarrow> 'addr destination \<Rightarrow> 'any message
      \<Rightarrow> (server_callback, ('addr, 'any) parked_message option) timer" where
  "resend_timer env start dest m =
     setDuration (seconds (timeBetweenMessageResendsInSeconds (configured env)))
       (new_timer start (Some ResendMessage)
         (Some \<lparr>transactionCode = header_transactioncode m, destination = dest, parkedMessage = m\<rparr>))"

text \<open>The state after a send that registered its timer under i, leaving the cache c.\<close>

definition after_send ::
    "('addr, 'any, 'h, 'w) server_env \<Rightarrow> 'addr destination \<Rightarrow> 'any message \<Rightarrow> u32 \<Rightarrow> ('addr, 'any) server_timers
      \<Rightarrow> ('addr, 'any, 'h, 'w) server \<Rightarrow> ('addr, 'any, 'h, 'w) server" where
  "after_send env dest m i c s =
     s\<lparr>timersCache := c,
       transactionAndTimerID := map_emplace (header_transactioncode m) i (transactionAndTimerID s),
       inFlight := inFlight s @ [(endpoint dest, serialize env m)],
       handedOver := handedOver s @ [(endpoint dest, serialize env m)]\<rparr>"

lemma send_result:
  "messageQueue s = (dest, m) # q \<Longrightarrow>
    send env s =
      (case registerTimer (Some (resend_timer env (now s) dest m)) (timersCache s) of
         None \<Rightarrow> Blocks | Some (i, c) \<Rightarrow> Done () (after_send env dest m i c s))"
  by (simp add: send_defs resend_timer_def after_send_def Let_def split: option.split)

lemma pushAndSend_result:
  "pushAndSend env dest m s =
     (let s' = s\<lparr>messageQueue := messageQueue s @ [(dest, m)]\<rparr>
      in if messageQueue s \<noteq> [] then Done False s'
         else case registerTimer (Some (resend_timer env (now s) dest m)) (timersCache s) of
                None \<Rightarrow> Blocks | Some (i, c) \<Rightarrow> Done True (after_send env dest m i c s'))"
  by (cases "messageQueue s")
    (simp_all add: pushAndSend_def queue_size_def send_result split: option.split)

lemma findDestination_state:
  "findDestination env i s = Done d s' \<Longrightarrow> s' = s"
  "findDestination env i s = Throws e s' \<Longrightarrow> s' = s"
  "findDestination env i s \<noteq> Blocks"
  by (auto simp: findDestination_def split: option.splits sum.splits if_splits)

text \<open>How the three senders use a destination that was found.\<close>

lemma send_found:
  assumes "findDestination env i s = Done (Some d) s" and "parkedMessages s = []"
  shows "sendRequest env i any s =
      pushAndSend env d (makeRequestMessage (moduleIdentifier env) any (drawn_code (rand env) 1000 (randCalls s)))
        (s\<lparr>randCalls := Suc (randCalls s)\<rparr>)"
    and "sendSubscribeRequest env i ty s =
      pushAndSend env d (makeSubscriptionRequestMessage (moduleIdentifier env) ty (drawn_code (rand env) 1000 (randCalls s)))
        (s\<lparr>randCalls := Suc (randCalls s)\<rparr>)"
    and "sendRequestMessage env i m s = pushAndSend env d m s"
  using assms by (simp_all add: request_defs generateTransactionCode_none_parked)

text \<open>A cache that can take another timer.\<close>

abbreviation timers_room :: "('addr, 'any, 'h, 'w) server \<Rightarrow> bool" where
  "timers_room s \<equiv> cache_inv (timersCache s) \<and> \<not> timersLock (timersCache s) \<and>
     length (timers (timersCache s)) < 2 ^ 32 - 1"

lemma registered_in_room:
  assumes "timers_room s"
  obtains i c where "registerTimer (Some t) (timersCache s) = Some (i, c)" and "i \<noteq> 0" and "cache_inv c"
    and "\<not> timersLock c" and "lookup_timer (timersCache s) i = None"
    and "lookup_timer c = (lookup_timer (timersCache s))(i \<mapsto> setTimerID i t)"
proof -
  obtain i c where reg: "registerTimer (Some t) (timersCache s) = Some (i, c)" and "i \<noteq> 0"
    using tc.register_total assms by blast
  moreover from reg have "\<not> timersLock c" by (simp add: registerTimer_iff)
  moreover have "cache_inv c \<and> lookup_timer (timersCache s) i = None \<and>
      lookup_timer c = (lookup_timer (timersCache s))(i \<mapsto> setTimerID i t)"
    using tc.register_law [OF _ reg] assms by blast
  ultimately show ?thesis using that by blast
qed

section \<open>Responses\<close>

definition success_response :: "i32 \<Rightarrow> u32 \<Rightarrow> 'any message" where
  "success_response sender code =
     empty_message\<lparr>msgHeader := Some \<lparr>senderidentifier = sender, operationcode = ModuleRequest, transactioncode = code\<rparr>,
                   msgResponse := Some Success\<rparr>"

lemma success_response_simps [simp]:
  "has_response (success_response sender code)"
  "msgResponse (success_response sender code) = Some Success"
  "header_transactioncode (success_response sender code) = code"
  by (simp_all add: success_response_def message_defs)

lemma handleResponse_success:
  assumes "has_response m" and "msgResponse m = Some Success" and "\<not> timersLock (timersCache s)"
  shows "handleResponse m s =
    (case transactionAndTimerID s (header_transactioncode m) of
       None \<Rightarrow> Done () s
     | Some i \<Rightarrow> Done () (s\<lparr>timersCache := the (removeTimer i (timersCache s)),
         transactionAndTimerID := (transactionAndTimerID s)(header_transactioncode m := None)\<rparr>))"
proof -
  have "\<exists>c. removeTimer i (timersCache s) = Some c" for i
    using removeTimer_iff [of i "timersCache s"] assms(3) by simp
  then have "removeTimer i (timersCache s) = Some (the (removeTimer i (timersCache s)))" for i
    by (metis option.sel)
  with assms show ?thesis
    by (simp add: handleResponse_def Let_def split: option.split) (metis option.distinct(1))
qed

lemma removed_lookup:
  assumes "cache_inv c" and "\<not> timersLock c"
  shows "lookup_timer (the (removeTimer i c)) = (lookup_timer c)(i := None)"
    and "cache_inv (the (removeTimer i c))" and "\<not> timersLock (the (removeTimer i c))"
proof -
  obtain c' where rem: "removeTimer i c = Some c'"
    using removeTimer_iff [of i c] assms(2) by simp
  with tc.remove_law [OF assms(1) rem] show "lookup_timer (the (removeTimer i c)) = (lookup_timer c)(i := None)"
    and "cache_inv (the (removeTimer i c))" by simp_all
  from rem assms(2) have "\<not> timersLock c'" by (simp add: removeTimer_iff)
  with rem show "\<not> timersLock (the (removeTimer i c))" by simp
qed

section \<open>A server for the witnesses\<close>

text \<open>
  One service in the map of endpoints, one more in the database, a serialiser that keeps the
  low byte of the transaction code, and a rand that counts.
\<close>

definition sample_env :: "(nat, nat, unit, nat) server_env" where
  "sample_env =
     \<lparr>moduleIdentifier = 704643073,
      configured = \<lparr>maxMessageResends = 3, timeBetweenMessageResendsInSeconds = 5, messageBufferSize = 64, listeningPort = 4000\<rparr>,
      rand = (\<lambda>k. k), databaseInitialised = True,
      find_one = (\<lambda>f. if f = ByServiceIdentifier 872415332
                      then Inr (Some (service_document 872415332 ''127.0.0.1'' 101 ''ExampleService'')) else Inr None),
      address_from_string = (\<lambda>a. if a = ''127.0.0.1'' then Some 1 else None),
      serialize = (\<lambda>m. [ucast (header_transactioncode m)]),
      parse = (\<lambda>b. case b of [c] \<Rightarrow> Some (success_response 0 (ucast c)) | _ \<Rightarrow> None),
      default_any = 0, socket_open_ok = True, socket_bind_ok = (\<lambda>port. port \<noteq> 80),
      handler_validate = (\<lambda>h a. True), handler_run = (\<lambda>h a w. w + a),
      user_requests = (\<lambda>n. if n = 1 then [(872415233, Some 7)] else []), user_callback = (\<lambda>n w. Returned (w + n))\<rparr>"

definition sample_server :: "(nat, nat, unit, nat) server" where
  "sample_server = new_server [872415233 \<mapsto> (1, 7)] [] 0"

lemma sample_server_simps:
  "parkedMessages sample_server = []" "messageQueue sample_server = []" "transactionAndTimerID sample_server = Map.empty"
  "timersCache sample_server = empty_timers_cache" "inFlight sample_server = []" "handedOver sample_server = []"
  "servicesEndpointsMap sample_server = [872415233 \<mapsto> (1, 7)]" "randCalls sample_server = 0"
  by (simp_all add: sample_server_def new_server_def)

lemma sample_room: "timers_room sample_server"
  by (simp add: sample_server_simps cache_inv_empty) (simp add: empty_timers_cache_def)

section \<open>Properties of the codes\<close>

text \<open>
  A transaction code that is returned is not parked and lies in 1..10000000; with nothing
  parked the search returns at once, with a code in 1..1000; and with parked messages it
  returns as soon as some later draw of rand is free, with the first free one.
\<close>
lemma transaction_code_search:
  "(case generateTransactionCode env s of
      Done code s' \<Rightarrow> \<not> code_parked (parkedMessages s) code \<and> 1 \<le> unat code \<and> unat code \<le> 10000000
    | Blocks \<Rightarrow> code_parked (parkedMessages s) (drawn_code (rand env) 1000 (randCalls s)) \<and>
        (\<forall>n. code_parked (parkedMessages s) (drawn_code (rand env) 10000000 (Suc (randCalls s) + n)))
    | _ \<Rightarrow> False) \<and>
   (\<exists>code. generateTransactionCode env (s\<lparr>parkedMessages := []\<rparr>) =
        Done code (s\<lparr>parkedMessages := [], randCalls := Suc (randCalls s)\<rparr>) \<and>
      1 \<le> unat code \<and> unat code \<le> 1000)"
proof (intro conjI)
  let ?code = "drawn_code (rand env) 1000 (randCalls s)"
  let ?search = "redraw (rand env) (parkedMessages s) (Suc (randCalls s)) ?code"
  have gen: "generateTransactionCode env s =
      (case ?search of None \<Rightarrow> Blocks | Some (code, calls) \<Rightarrow> Done code (s\<lparr>randCalls := calls\<rparr>))"
    by (simp add: generateTransactionCode_def drawn_code_def)
  show "case generateTransactionCode env s of
      Done code s' \<Rightarrow> \<not> code_parked (parkedMessages s) code \<and> 1 \<le> unat code \<and> unat code \<le> 10000000
    | Blocks \<Rightarrow> code_parked (parkedMessages s) ?code \<and>
        (\<forall>n. code_parked (parkedMessages s) (drawn_code (rand env) 10000000 (Suc (randCalls s) + n)))
    | _ \<Rightarrow> False"
  proof (cases ?search)
    case None
    have stuck: "code_parked (parkedMessages s) ?code"
      using None redraw_unfold [of "rand env" "parkedMessages s" "Suc (randCalls s)" ?code] by (auto split: if_splits)
    have "code_parked (parkedMessages s) (drawn_code (rand env) 10000000 (Suc (randCalls s) + n))" for n
    proof (induction n rule: less_induct)
      case (less n)
      with None stuck redraw_first_free [of "parkedMessages s" "rand env" "Suc (randCalls s)" n ?code]
      show ?case by auto
    qed
    with None stuck show ?thesis by (simp add: gen)
  next
    case (Some r)
    then obtain c calls where r: "?search = Some (c, calls)" by (cases r) simp
    from redraw_result [OF this] have "\<not> code_parked (parkedMessages s) c" and "1 \<le> unat c \<and> unat c \<le> 10000000"
      using drawn_code_bounds [of 1000 "rand env" "randCalls s"] drawn_code_bounds [of 10000000 "rand env"]
      by auto
    with r show ?thesis by (simp add: gen)
  qed
  show "\<exists>code. generateTransactionCode env (s\<lparr>parkedMessages := []\<rparr>) =
        Done code (s\<lparr>parkedMessages := [], randCalls := Suc (randCalls s)\<rparr>) \<and>
      1 \<le> unat code \<and> unat code \<le> 1000"
    using drawn_code_bounds [of 1000 "rand env" "randCalls s"]
    by (simp add: generateTransactionCode_none_parked)
qed

text \<open>The codes of n requests in a row.\<close>

fun generate_codes ::
    "('addr, 'any, 'h, 'w) server_env \<Rightarrow> nat \<Rightarrow> ('addr, 'any, 'h, 'w) server \<Rightarrow> ('addr, 'any, 'h, 'w, u32 list) server_result" where
  "generate_codes env 0 s = Done [] s"
| "generate_codes env (Suc n) s =
     andThen (generateTransactionCode env s) (\<lambda>code s.
       andThen (generate_codes env n s) (\<lambda>codes s. Done (code # codes) s))"

lemma generate_codes_none_parked:
  "parkedMessages s = [] \<Longrightarrow>
    \<exists>codes s'. generate_codes env n s = Done codes s' \<and> length codes = n \<and>
      set codes \<subseteq> {c. 1 \<le> unat c \<and> unat c \<le> 1000}"
proof (induction n arbitrary: s)
  case (Suc n)
  let ?s = "s\<lparr>randCalls := Suc (randCalls s)\<rparr>"
  obtain codes s' where "generate_codes env n ?s = Done codes s'" and "length codes = n"
    and "set codes \<subseteq> {c. 1 \<le> unat c \<and> unat c \<le> 1000}"
    using Suc.IH [of ?s] Suc.prems by auto
  then show ?case
    using Suc.prems drawn_code_bounds [of 1000 "rand env" "randCalls s"]
    by (simp add: generateTransactionCode_none_parked)
qed simp

text \<open>
  Because nothing is ever parked, the check against parked messages never rejects a code: among
  any 1001 requests in a row two are given the same transaction code, whatever rand does.
\<close>
lemma transaction_codes_repeat:
  assumes "parkedMessages s = []"
  shows "\<exists>codes s'. generate_codes env 1001 s = Done codes s' \<and> length codes = 1001 \<and> \<not> distinct codes"
proof -
  obtain codes s' where run: "generate_codes env 1001 s = Done codes s'" and len: "length codes = 1001"
    and sub: "set codes \<subseteq> {c. 1 \<le> unat c \<and> unat c \<le> 1000}"
    using generate_codes_none_parked [OF assms, of env 1001] by blast
  have "card (set codes) = card (unat ` set codes)"
    by (intro card_image [symmetric] inj_onI) (simp add: word_unat_eq_iff)
  also have "\<dots> \<le> card {1..1000 :: nat}"
    using sub by (intro card_mono) auto
  finally have "card (set codes) \<noteq> length codes" using len by simp
  then have "\<not> distinct codes" using distinct_card by blast
  with run len show ?thesis by blast
qed

section \<open>Properties of sending\<close>

text \<open>C28:
  sendRequest on a server with nothing parked and a cache with room: if the destination cannot be
  found it answers false and changes nothing, and an exception of the lookup passes through
  with nothing changed; if a message is already being sent the new one waits at the end of the
  queue, untouched otherwise, and the answer is false although it was accepted; if the queue is
  empty the answer is true, exactly one datagram, the serialised request with a code in
  1..1000, goes to the destination, and exactly one timer is added, expiring the configured
  number of seconds from now.
\<close>
theorem send_request_outcome:
  assumes "parkedMessages s = []" and "timers_room s"
  shows "case findDestination env i s of
      Done None s' \<Rightarrow> sendRequest env i any s = Done False s
    | Done (Some d) s' \<Rightarrow>
        (\<exists>code. 1 \<le> unat code \<and> unat code \<le> 1000 \<and>
          (let m = makeRequestMessage (moduleIdentifier env) any code;
               queued = s\<lparr>randCalls := Suc (randCalls s), messageQueue := messageQueue s @ [(d, m)]\<rparr>
           in if messageQueue s \<noteq> [] then sendRequest env i any s = Done False queued
              else \<exists>t c. sendRequest env i any s = Done True (after_send env d m t c queued) \<and> t \<noteq> 0 \<and>
                cache_inv c \<and> lookup_timer (timersCache s) t = None \<and>
                lookup_timer c = (lookup_timer (timersCache s))(t \<mapsto> setTimerID t (resend_timer env (now s) d m)) \<and>
                getExpirationTimestamp (resend_timer env (now s) d m) =
                  now s + seconds (timeBetweenMessageResendsInSeconds (configured env))))
    | Throws e s' \<Rightarrow> sendRequest env i any s = Throws e s
    | Undefined \<Rightarrow> sendRequest env i any s = Undefined
    | Blocks \<Rightarrow> False"
proof (cases "findDestination env i s")
  case (Done d s')
  then have "s' = s" by (rule findDestination_state)
  show ?thesis
  proof (cases d)
    case None
    with Done \<open>s' = s\<close> show ?thesis by (simp add: request_defs)
  next
    case (Some dest)
    let ?code = "drawn_code (rand env) 1000 (randCalls s)"
    let ?m = "makeRequestMessage (moduleIdentifier env) any ?code"
    have run: "sendRequest env i any s = pushAndSend env dest ?m (s\<lparr>randCalls := Suc (randCalls s)\<rparr>)"
      using send_found(1) Done Some \<open>s' = s\<close> assms(1) by blast
    obtain t c where reg: "registerTimer (Some (resend_timer env (now s) dest ?m)) (timersCache s) = Some (t, c)"
      and new: "t \<noteq> 0" "cache_inv c" "lookup_timer (timersCache s) t = None"
      "lookup_timer c = (lookup_timer (timersCache s))(t \<mapsto> setTimerID t (resend_timer env (now s) dest ?m))"
      using registered_in_room [OF assms(2)] by metis
    have expiry: "getExpirationTimestamp (resend_timer env (now s) dest ?m) =
        now s + seconds (timeBetweenMessageResendsInSeconds (configured env))"
      by (simp add: resend_timer_def op_defs)
    have "1 \<le> unat ?code" and "unat ?code \<le> 1000"
      using drawn_code_bounds [of 1000 "rand env" "randCalls s"] by simp_all
    with Done Some run reg new expiry show ?thesis
      by (cases "messageQueue s = []")
        (simp_all add: pushAndSend_result Let_def, rule exI [of _ ?code], auto)
  qed
next
  case (Throws e s')
  then have "s' = s" by (rule findDestination_state)
  with Throws show ?thesis by (simp add: request_defs)
next
  case Blocks
  then show ?thesis using findDestination_state(3) by blast
qed (simp add: request_defs)

theorem send_request_outcome_witness:
  "\<exists>t c code. sendRequest sample_env 872415233 (Some 9) sample_server =
     Done True (after_send sample_env \<lparr>serviceIdentifier = 872415233, endpoint = (1, 7)\<rparr>
       (makeRequestMessage 704643073 (Some 9) code) t c
       (sample_server\<lparr>randCalls := 1, messageQueue :=
          [(\<lparr>serviceIdentifier = 872415233, endpoint = (1, 7)\<rparr>, makeRequestMessage 704643073 (Some 9) code)]\<rparr>))"
proof -
  have "findDestination sample_env 872415233 sample_server =
      Done (Some \<lparr>serviceIdentifier = 872415233, endpoint = (1, 7)\<rparr>) sample_server"
    by (simp add: findDestination_def sample_server_simps)
  with send_request_outcome [OF _ sample_room, of sample_env 872415233 "Some 9"] show ?thesis
    by (auto simp: sample_server_simps Let_def) (auto simp: sample_env_def)
qed

end
