(* ===== verification/Server_Responses.thy ===== *)
theory Server_Responses
  imports Server_Requests
begin

text \<open>
  What a response does to the timers of the server, what it does not when two requests share a
  transaction code, where a destination from the database comes from, and how binding fails.
\<close>

section \<open>Sending one request\<close>

lemma after_send_simps [simp]:
  "timersCache (after_send env d m t c s) = c"
  "transactionAndTimerID (after_send env d m t c s) =
     map_emplace (header_transactioncode m) t (transactionAndTimerID s)"
  "handedOver (after_send env d m t c s) = handedOver s @ [(endpoint d, serialize env m)]"
  "inFlight (after_send env d m t c s) = inFlight s @ [(endpoint d, serialize env m)]"
  "messageQueue (after_send env d m t c s) = messageQueue s"
  "readingStarted (after_send env d m t c s) = readingStarted s"
  "randCalls (after_send env d m t c s) = randCalls s"
  by (simp_all add: after_send_def)

text \<open>The request the next call of sendRequest would build, and the state it leaves.\<close>

definition next_request ::
    "('addr, 'any, 'h, 'w) server_env \<Rightarrow> 'any option \<Rightarrow> ('addr, 'any, 'h, 'w) server \<Rightarrow> 'any message" where
  "next_request env any s = makeRequestMessage (moduleIdentifier env) any (drawn_code (rand env) 1000 (randCalls s))"

lemma next_request_code [simp]:
  "header_transactioncode (next_request env any s) = drawn_code (rand env) 1000 (randCalls s)"
  by (simp add: next_request_def)

lemma sendRequest_alone:
  assumes "findDestination env i s = Done (Some d) s" and "messageQueue s = []" and "parkedMessages s = []"
    and "timers_room s"
  obtains s1 t where "sendRequest env i any s = Done True s1"
    and "transactionAndTimerID s1 = map_emplace (drawn_code (rand env) 1000 (randCalls s)) t (transactionAndTimerID s)"
    and "handedOver s1 = handedOver s @ [(endpoint d, serialize env (next_request env any s))]"
    and "cache_inv (timersCache s1)" and "\<not> timersLock (timersCache s1)"
    and "lookup_timer (timersCache s) t = None"
    and "lookup_timer (timersCache s1) = (lookup_timer (timersCache s))(t \<mapsto> setTimerID t
       (resend_timer env (now s) d (next_request env any s)))"
proof -
  let ?m = "next_request env any s"
  obtain t c where reg: "registerTimer (Some (resend_timer env (now s) d ?m)) (timersCache s) = Some (t, c)"
    and new: "cache_inv c" "\<not> timersLock c" "lookup_timer (timersCache s) t = None"
    "lookup_timer c = (lookup_timer (timersCache s))(t \<mapsto> setTimerID t (resend_timer env (now s) d ?m))"
    using registered_in_room [OF assms(4)] by metis
  let ?s1 = "after_send env d ?m t c (s\<lparr>randCalls := Suc (randCalls s), messageQueue := [(d, ?m)]\<rparr>)"
  have "sendRequest env i any s = Done True ?s1"
    using send_found(1) [OF assms(1,3)] assms(2) reg by (simp add: pushAndSend_result next_request_def)
  then show ?thesis by (rule that [of ?s1 t]) (simp_all add: new)
qed

lemma known_destination:
  "servicesEndpointsMap s i = Some e \<Longrightarrow>
    findDestination env i s = Done (Some \<lparr>serviceIdentifier = i, endpoint = e\<rparr>) s"
  by (simp add: findDestination_def)

section \<open>The code of the sample server\<close>

lemma sample_code: "drawn_code (rand sample_env) 1000 0 = 1"
  by (simp add: drawn_code_def sample_env_def)

section \<open>Properties\<close>

text \<open>
  A success response removes exactly the timer its transaction code is mapped to, and the
  mapping: every other timer and every other code is untouched, and so is the rest of the
  server. A success response with an unknown code, a failure response and a message without a
  response change nothing at all.
\<close>
lemma response_cancels_exactly:
  assumes "cache_inv (timersCache s)" and "\<not> timersLock (timersCache s)"
  shows "\<exists>s'. handleResponse m s = Done () s' \<and>
    (if msgResponse m = Some Success \<and> transactionAndTimerID s (header_transactioncode m) \<noteq> None
     then lookup_timer (timersCache s') =
            (lookup_timer (timersCache s))(the (transactionAndTimerID s (header_transactioncode m)) := None) \<and>
          transactionAndTimerID s' = (transactionAndTimerID s)(header_transactioncode m := None) \<and>
          s' = s\<lparr>timersCache := timersCache s', transactionAndTimerID := transactionAndTimerID s'\<rparr> \<and>
          cache_inv (timersCache s')
     else s' = s)"
proof (cases "msgResponse m = Some Success")
  case True
  then have "has_response m" by (simp add: has_response_def)
  with True assms show ?thesis
    using handleResponse_success [of m s] removed_lookup [of "timersCache s"]
    by (cases "transactionAndTimerID s (header_transactioncode m)") simp_all
next
  case False
  then show ?thesis by (simp add: handleResponse_def)
qed

text \<open>
  When nothing is queued and the code drawn for a request to a known service is not in use, the
  success response with that code takes back what the request added: afterwards the cache
  holds the timers it held before, under their identifiers, and the same codes are in use.
\<close>
lemma request_response_roundtrip:
  assumes "servicesEndpointsMap s i = Some e" and "messageQueue s = []" and "parkedMessages s = []"
    and "timers_room s" and "transactionAndTimerID s (drawn_code (rand env) 1000 (randCalls s)) = None"
  shows "\<exists>s1 s2. sendRequest env i any s = Done True s1 \<and>
    handleResponse (success_response sender (drawn_code (rand env) 1000 (randCalls s))) s1 = Done () s2 \<and>
    lookup_timer (timersCache s1) \<noteq> lookup_timer (timersCache s) \<and>
    lookup_timer (timersCache s2) = lookup_timer (timersCache s) \<and>
    transactionAndTimerID s2 = transactionAndTimerID s"
proof -
  let ?code = "drawn_code (rand env) 1000 (randCalls s)"
  obtain s1 t where run: "sendRequest env i any s = Done True s1"
    and codes: "transactionAndTimerID s1 = map_emplace ?code t (transactionAndTimerID s)"
    and c: "cache_inv (timersCache s1)" "\<not> timersLock (timersCache s1)"
    and old: "lookup_timer (timersCache s) t = None"
    and new: "lookup_timer (timersCache s1) = (lookup_timer (timersCache s))(t \<mapsto> setTimerID t
       (resend_timer env (now s) \<lparr>serviceIdentifier = i, endpoint = e\<rparr> (next_request env any s)))"
    using sendRequest_alone [OF known_destination [OF assms(1)] assms(2-4)] by metis
  from codes assms(5) have mapped: "transactionAndTimerID s1 = (transactionAndTimerID s)(?code \<mapsto> t)"
    by (simp add: map_emplace_def)
  let ?s2 = "s1\<lparr>timersCache := the (removeTimer t (timersCache s1)),
      transactionAndTimerID := (transactionAndTimerID s1)(?code := None)\<rparr>"
  have "handleResponse (success_response sender ?code) s1 = Done () ?s2"
    using handleResponse_success [of "success_response sender ?code" s1] c mapped by simp
  moreover have "lookup_timer (timersCache ?s2) = lookup_timer (timersCache s)"
    using removed_lookup(1) [OF c] new old by (simp add: fun_upd_idem)
  moreover have "transactionAndTimerID ?s2 = transactionAndTimerID s"
    using mapped assms(5) by (simp add: fun_upd_idem)
  moreover have "lookup_timer (timersCache s1) \<noteq> lookup_timer (timersCache s)"
    using new old by (metis fun_upd_same option.distinct(1))
  ultimately show ?thesis using run by blast
qed

text \<open>
  When the code drawn for a request is already mapped to the timer of an earlier request, the
  mapping keeps the earlier timer. The first success response with that code then cancels the
  earlier timer and forgets the code, although two requests are open; the timer of the later
  request stays in the cache, and every further success response with the code changes
  nothing, so no response can ever cancel it.
\<close>
lemma colliding_code_orphans_timer:
  assumes "servicesEndpointsMap s i = Some e" and "messageQueue s = []" and "parkedMessages s = []"
    and "timers_room s"
    and "transactionAndTimerID s (drawn_code (rand env) 1000 (randCalls s)) = Some earlier"
    and "lookup_timer (timersCache s) earlier \<noteq> None"
  shows "\<exists>s1 s2 later. sendRequest env i any s = Done True s1 \<and> later \<noteq> earlier \<and>
    transactionAndTimerID s1 = transactionAndTimerID s \<and>
    handleResponse (success_response sender (drawn_code (rand env) 1000 (randCalls s))) s1 = Done () s2 \<and>
    lookup_timer (timersCache s2) earlier = None \<and>
    lookup_timer (timersCache s2) later = Some (setTimerID later
       (resend_timer env (now s) \<lparr>serviceIdentifier = i, endpoint = e\<rparr> (next_request env any s))) \<and>
    handleResponse (success_response sender (drawn_code (rand env) 1000 (randCalls s))) s2 = Done () s2"
proof -
  let ?code = "drawn_code (rand env) 1000 (randCalls s)"
  obtain s1 t where run: "sendRequest env i any s = Done True s1"
    and codes: "transactionAndTimerID s1 = map_emplace ?code t (transactionAndTimerID s)"
    and c: "cache_inv (timersCache s1)" "\<not> timersLock (timersCache s1)"
    and old: "lookup_timer (timersCache s) t = None"
    and new: "lookup_timer (timersCache s1) = (lookup_timer (timersCache s))(t \<mapsto> setTimerID t
       (resend_timer env (now s) \<lparr>serviceIdentifier = i, endpoint = e\<rparr> (next_request env any s)))"
    using sendRequest_alone [OF known_destination [OF assms(1)] assms(2-4)] by metis
  from codes assms(5) have same: "transactionAndTimerID s1 = transactionAndTimerID s"
    by (simp add: map_emplace_def)
  let ?s2 = "s1\<lparr>timersCache := the (removeTimer earlier (timersCache s1)),
      transactionAndTimerID := (transactionAndTimerID s1)(?code := None)\<rparr>"
  have differ: "t \<noteq> earlier" using old assms(6) by auto
  have "handleResponse (success_response sender ?code) s1 = Done () ?s2"
    using handleResponse_success [of "success_response sender ?code" s1] c same assms(5) by simp
  moreover have "lookup_timer (timersCache ?s2) = (lookup_timer (timersCache s1))(earlier := None)"
    using removed_lookup(1) [OF c] by simp
  moreover have "handleResponse (success_response sender ?code) ?s2 = Done () ?s2"
    by (simp add: handleResponse_def)
  ultimately show ?thesis using run same new differ by (intro exI [of _ s1] exI [of _ ?s2] exI [of _ t]) simp
qed

text \<open>
  A request to a service that is not in the map of endpoints goes to the address and port of its
  record in the Services collection: when the record has the four fields, the address parses
  and nothing is queued, sendRequest answers true and hands exactly one datagram to the socket,
  for the stored address and the stored port modulo 2^16. The map of endpoints is not extended.
\<close>
lemma database_destination:
  assumes "servicesEndpointsMap s i = None" and "databaseInitialised env"
    and "find_one env (ByServiceIdentifier i) = Inr (Some (service_document j ip p n))"
    and "address_from_string env ip = Some a"
    and "messageQueue s = []" and "parkedMessages s = []" and "timers_room s"
  shows "\<exists>s1. sendRequest env i any s = Done True s1 \<and>
    handedOver s1 = handedOver s @ [((a, ucast p), serialize env (next_request env any s))] \<and>
    servicesEndpointsMap s1 i = None"
proof -
  have "findDestination env i s = Done (Some \<lparr>serviceIdentifier = i, endpoint = (a, ucast p)\<rparr>) s"
    using assms(1-4) by (simp add: findDestination_def getService_def viewToServiceRecord_document)
  from sendRequest_alone [OF this assms(5-7), of any] send_found(1) [OF this assms(6), of any]
  show ?thesis using assms(1,5)
    by (auto simp: pushAndSend_result after_send_def next_request_def split: option.splits)
qed

text \<open>
  bindToListeningSocket answers true or throws, never false: its catch clause names error_code,
  which open and bind do not throw. It answers true exactly when both calls succeed, with the
  buffer of the configured size.
\<close>
lemma bind_failure_is_exception:
  "case bindToListeningSocket env s of
     Done b s' \<Rightarrow> b \<and> socket_open_ok env \<and> socket_bind_ok env (listeningPort (configured env)) \<and>
       s' = s\<lparr>socketOpen := True, messageBufferLength := unat (messageBufferSize (configured env))\<rparr>
   | Throws e s' \<Rightarrow> e = System_error \<and> \<not> (socket_open_ok env \<and> socket_bind_ok env (listeningPort (configured env))) \<and>
       messageBufferLength s' = messageBufferLength s
   | _ \<Rightarrow> False"
  by (simp add: bindToListeningSocket_def Let_def)

end
