(* ===== verification/Server_Resend.thy ===== *)
theory Server_Resend
  imports Server_Responses
begin

text \<open>
  The resend timers of the server under the timers thread: triggerExpiredTimers runs the lambda
  of startTimerToResend while it holds timersLock. The lambda sends the parked message again;
  when no other message is on its way this registers a new timer, for which it waits for
  timersLock, which its own caller holds until it returns.
\<close>

section \<open>The callback\<close>

text \<open>
  The callback sees the cache as it is in the loop, and cannot change it there. A callback that
  waits for ever, or is undefined behaviour, gives no round at all.
\<close>

definition runUserCallback ::
    "('addr, 'any, 'h, 'w) server_env \<Rightarrow> nat \<Rightarrow> ('addr, 'any, 'h, 'w, unit) server_result
      \<Rightarrow> ('addr, 'any, 'h, 'w) server cb_outcome" where
  "runUserCallback env n sent =
     (case sent of
        Done u s \<Rightarrow>
          (case user_callback env n (handlersWorld s) of
             Returned w \<Rightarrow> Returned (s\<lparr>handlersWorld := w\<rparr>)
           | Threw w \<Rightarrow> Threw (s\<lparr>handlersWorld := w\<rparr>)
           | NeverReturns \<Rightarrow> NeverReturns)
      | Throws e s \<Rightarrow> Threw s
      | Blocks \<Rightarrow> NeverReturns
      | Undefined \<Rightarrow> NeverReturns)"

definition resend_call ::
    "('addr, 'any, 'h, 'w) server_env \<Rightarrow> server_callback \<Rightarrow> ('addr, 'any) parked_message option
      \<Rightarrow> ('addr, 'any) server_timers \<Rightarrow> ('addr, 'any, 'h, 'w) server \<Rightarrow> ('addr, 'any, 'h, 'w) server cb_outcome" where
  "resend_call env f message seen s =
     (case f of
        ResendMessage \<Rightarrow>
          (case resendMessage env message (s\<lparr>timersCache := seen\<rparr>) of
             Done u s' \<Rightarrow> Returned (s'\<lparr>timersCache := timersCache s\<rparr>)
           | Throws e s' \<Rightarrow> Threw (s'\<lparr>timersCache := timersCache s\<rparr>)
           | Blocks \<Rightarrow> NeverReturns
           | Undefined \<Rightarrow> NeverReturns)
      | UserCallback n \<Rightarrow>
          (case runUserCallback env n (send_all env (user_requests env n) (s\<lparr>timersCache := seen\<rparr>)) of
             Returned s' \<Rightarrow> Returned (s'\<lparr>timersCache := timersCache s\<rparr>)
           | Threw s' \<Rightarrow> Threw (s'\<lparr>timersCache := timersCache s\<rparr>)
           | NeverReturns \<Rightarrow> NeverReturns))"

text \<open>One round of the timers thread on the server's cache.\<close>

definition server_timers_round ::
    "('addr, 'any, 'h, 'w) server_env \<Rightarrow> time_point \<Rightarrow> (nat \<Rightarrow> time_point) \<Rightarrow> ('addr, 'any, 'h, 'w) server
      \<Rightarrow> ('addr, 'any, 'h, 'w) server option" where
  "server_timers_round env tp restarts s =
     map_option (\<lambda>(c, s'). s'\<lparr>timersCache := c\<rparr>)
       (timers_round (resend_call env) tp restarts (timersCache s) s)"

text \<open>What the callback does when the cache it sees is locked.\<close>

definition forget_code :: "u32 \<Rightarrow> ('addr, 'any, 'h, 'w) server \<Rightarrow> ('addr, 'any, 'h, 'w) server" where
  "forget_code code s = s\<lparr>transactionAndTimerID := (transactionAndTimerID s)(code := None)\<rparr>"

definition locked_request ::
    "('addr, 'any, 'h, 'w) server_env \<Rightarrow> i32 \<Rightarrow> 'any option \<Rightarrow> ('addr, 'any, 'h, 'w) server
      \<Rightarrow> ('addr, 'any, 'h, 'w, bool) server_result" where
  "locked_request env i any s =
     (case findDestination env i s of
        Done None u \<Rightarrow> Done False s
      | Done (Some d) u \<Rightarrow>
          andThen (generateTransactionCode env s) (\<lambda>code s.
            if messageQueue s = [] then Blocks
            else Done False (s\<lparr>messageQueue := messageQueue s @
                   [(d, makeRequestMessage (moduleIdentifier env) any code)]\<rparr>))
      | Throws e u \<Rightarrow> Throws e s
      | Blocks \<Rightarrow> Blocks
      | Undefined \<Rightarrow> Undefined)"

fun locked_requests ::
    "('addr, 'any, 'h, 'w) server_env \<Rightarrow> (i32 \<times> 'any option) list \<Rightarrow> ('addr, 'any, 'h, 'w) server
      \<Rightarrow> ('addr, 'any, 'h, 'w, unit) server_result" where
  "locked_requests env [] s = Done () s"
| "locked_requests env ((i, any) # requests) s =
     andThen (locked_request env i any s) (\<lambda>_ s. locked_requests env requests s)"

definition locked_resend ::
    "('addr, 'any, 'h, 'w) server_env \<Rightarrow> ('addr, 'any) parked_message option
      \<Rightarrow> ('addr, 'any, 'h, 'w) server \<Rightarrow> ('addr, 'any, 'h, 'w) server cb_outcome" where
  "locked_resend env message s =
     (case message of None \<Rightarrow> Returned s
      | Some p \<Rightarrow>
          (let s' = forget_code (transactionCode p) s
           in case findDestination env (serviceIdentifier (destination p)) s' of
                Done None u \<Rightarrow> Returned s'
              | Done (Some d) u \<Rightarrow>
                  (if messageQueue s' = [] then NeverReturns
                   else Returned (s'\<lparr>messageQueue := messageQueue s' @ [(d, parkedMessage p)]\<rparr>))
              | Throws e u \<Rightarrow> Threw s'
              | _ \<Rightarrow> NeverReturns))"

definition resend_effect ::
    "('addr, 'any, 'h, 'w) server_env \<Rightarrow> server_callback \<Rightarrow> ('addr, 'any) parked_message option
      \<Rightarrow> ('addr, 'any, 'h, 'w) server \<Rightarrow> ('addr, 'any, 'h, 'w) server cb_outcome" where
  "resend_effect env f message s =
     (case f of
        ResendMessage \<Rightarrow> locked_resend env message s
      | UserCallback n \<Rightarrow> runUserCallback env n (locked_requests env (user_requests env n) s))"

lemma registerTimer_locked: "timersLock c \<Longrightarrow> registerTimer t c = None"
  by (simp add: registerTimer_def internalRegisterTimer_def)

lemma forget_code_if:
  "(if transactionAndTimerID s code \<noteq> None
    then s\<lparr>transactionAndTimerID := (transactionAndTimerID s)(code := None)\<rparr> else s) = forget_code code s"
  by (simp add: forget_code_def fun_upd_idem)

text \<open>The destination does not depend on what sending changes.\<close>

lemma findDestination_frame:
  "findDestination env i (s\<lparr>timersCache := c\<rparr>) =
    (case findDestination env i s of Done d u \<Rightarrow> Done d (u\<lparr>timersCache := c\<rparr>)
     | Throws e u \<Rightarrow> Throws e (u\<lparr>timersCache := c\<rparr>) | Blocks \<Rightarrow> Blocks | Undefined \<Rightarrow> Undefined)"
  by (simp add: findDestination_def split: option.split sum.split)

lemma forget_code_frame:
  "forget_code code (s\<lparr>timersCache := c\<rparr>) = (forget_code code s)\<lparr>timersCache := c\<rparr>"
  "messageQueue (forget_code code s) = messageQueue s"
  "servicesEndpointsMap (forget_code code s) = servicesEndpointsMap s"
  "timersCache (forget_code code s) = timersCache s"
  by (simp_all add: forget_code_def)

lemma resendMessage_Some:
  "resendMessage env (Some p) s =
     andThen (sendRequestMessage env (serviceIdentifier (destination p)) (parkedMessage p) (forget_code (transactionCode p) s))
       (\<lambda>_ s. Done () s)"
  unfolding resendMessage_def option.case forget_code_if Let_def by (rule refl)

text \<open>A user's callback under timersLock.\<close>

definition framed :: "('addr, 'any) server_timers \<Rightarrow> ('addr, 'any, 'h, 'w, 'a) server_result \<Rightarrow> ('addr, 'any, 'h, 'w, 'a) server_result" where
  "framed c r = (case r of Done a s \<Rightarrow> Done a (s\<lparr>timersCache := c\<rparr>) | Throws e s \<Rightarrow> Throws e (s\<lparr>timersCache := c\<rparr>)
     | Blocks \<Rightarrow> Blocks | Undefined \<Rightarrow> Undefined)"

lemma generateTransactionCode_framed:
  "generateTransactionCode env (s\<lparr>timersCache := c\<rparr>) = framed c (generateTransactionCode env s)"
  by (simp add: generateTransactionCode_def framed_def Let_def split: option.split prod.split)

lemma pushAndSend_locked:
  "timersLock (timersCache s) \<Longrightarrow> pushAndSend env d m s =
    (if messageQueue s = [] then Blocks else Done False (s\<lparr>messageQueue := messageQueue s @ [(d, m)]\<rparr>))"
  by (simp add: pushAndSend_result registerTimer_locked Let_def)

lemma sendRequest_locked:
  assumes "timersLock (timersCache s)"
  shows "sendRequest env i any s = locked_request env i any s"
proof -
  have kept: "timersCache u = timersCache s" if "generateTransactionCode env s = Done code u" for code u
    using that by (auto simp: generateTransactionCode_def Let_def split: option.splits)
  have drawn: "andThen (generateTransactionCode env s) (\<lambda>code s. pushAndSend env d (mk code) s) =
      andThen (generateTransactionCode env s) (\<lambda>code s. if messageQueue s = [] then Blocks
        else Done False (s\<lparr>messageQueue := messageQueue s @ [(d, mk code)]\<rparr>))" for d mk
    using kept assms by (cases "generateTransactionCode env s") (simp_all add: pushAndSend_locked)
  show ?thesis
  proof (cases "findDestination env i s")
    case (Done d u)
    then have "u = s" by (rule findDestination_state(1))
    with Done drawn show ?thesis by (cases d) (simp_all add: sendRequest_def locked_request_def)
  next
    case (Throws e u)
    then have "u = s" by (rule findDestination_state(2))
    with Throws show ?thesis by (simp add: sendRequest_def locked_request_def)
  qed (simp_all add: sendRequest_def locked_request_def)
qed

lemma locked_request_framed: "locked_request env i any (s\<lparr>timersCache := c\<rparr>) = framed c (locked_request env i any s)"
  by (cases "findDestination env i s"; cases "generateTransactionCode env s")
    (auto simp: locked_request_def findDestination_frame generateTransactionCode_framed framed_def split: option.split)

lemma locked_requests_framed: "locked_requests env rs (s\<lparr>timersCache := c\<rparr>) = framed c (locked_requests env rs s)"
proof (induction env rs s rule: locked_requests.induct)
  case (1 env s)
  then show ?case by (simp add: framed_def)
next
  case (2 env i any requests s)
  then show ?case
    by (cases "locked_request env i any s") (simp_all add: locked_request_framed, simp_all add: framed_def)
qed

lemma locked_request_cache: "locked_request env i any s = Done b u \<Longrightarrow> timersCache u = timersCache s"
  by (auto simp: locked_request_def generateTransactionCode_def Let_def
      split: option.splits outcome.splits if_splits)

lemma send_all_locked: "timersLock (timersCache s) \<Longrightarrow> send_all env rs s = locked_requests env rs s"
proof (induction env rs s rule: locked_requests.induct)
  case (2 env i any requests s)
  then show ?case
    using locked_request_cache [of env i any s]
    by (cases "locked_request env i any s") (simp_all add: sendRequest_locked)
qed simp

lemma locked_resend_call:
  assumes "timersLock seen"
  shows "resend_call env ResendMessage message seen s = locked_resend env message s"
proof (cases message)
  case None
  then show ?thesis by (simp add: resend_call_def locked_resend_def resendMessage_def)
next
  case (Some p)
  let ?s = "forget_code (transactionCode p) s"
  have call: "resend_call env ResendMessage message seen s =
      (case andThen (sendRequestMessage env (serviceIdentifier (destination p)) (parkedMessage p) (?s\<lparr>timersCache := seen\<rparr>))
         (\<lambda>_ s. Done () s) of
         Done u s' \<Rightarrow> Returned (s'\<lparr>timersCache := timersCache s\<rparr>)
       | Throws e s' \<Rightarrow> Threw (s'\<lparr>timersCache := timersCache s\<rparr>)
       | Blocks \<Rightarrow> NeverReturns | Undefined \<Rightarrow> NeverReturns)"
    by (simp add: resend_call_def Some resendMessage_Some forget_code_frame)
  have same: "?s\<lparr>timersCache := timersCache s\<rparr> = ?s" by (simp add: forget_code_def)
  have id: "findDestination env (serviceIdentifier (destination p)) ?s = Done d u \<Longrightarrow> u = ?s"
    "findDestination env (serviceIdentifier (destination p)) ?s = Throws e u \<Longrightarrow> u = ?s"
    "findDestination env (serviceIdentifier (destination p)) ?s \<noteq> Blocks" for d e u
    by (rule findDestination_state, assumption)+ (rule findDestination_state)
  show ?thesis
    using id assms same unfolding call unfolding Some locked_resend_def Let_def option.case
    by (cases "findDestination env (serviceIdentifier (destination p)) ?s")
      (auto simp: sendRequestMessage_def findDestination_frame pushAndSend_result registerTimer_locked
        forget_code_def split: option.split)
qed

lemma user_call_framed:
  "(case runUserCallback env n (framed c r) of
      Returned s' \<Rightarrow> Returned (s'\<lparr>timersCache := c'\<rparr>) | Threw s' \<Rightarrow> Threw (s'\<lparr>timersCache := c'\<rparr>)
    | NeverReturns \<Rightarrow> NeverReturns) = runUserCallback env n (framed c' r)"
  by (cases r) (auto simp: runUserCallback_def framed_def split: cb_outcome.split)

lemma resend_call_locked:
  assumes "timersLock seen"
  shows "resend_call env f message seen s = resend_effect env f message s"
proof (cases f)
  case ResendMessage
  with assms show ?thesis by (simp add: locked_resend_call resend_effect_def)
next
  case (UserCallback n)
  have "framed (timersCache s) (locked_requests env rs s) = locked_requests env rs s" for rs
    using locked_requests_framed [where s = s and c = "timersCache s" and env = env and rs = rs] by simp
  with UserCallback assms show ?thesis
    by (simp add: resend_call_def resend_effect_def send_all_locked locked_requests_framed user_call_framed)
qed

interpretation resend: locked_callbacks "resend_call env" "resend_effect env" for env
  by unfold_locales (rule resend_call_locked)

section \<open>A due resend timer and an empty queue\<close>

text \<open>Every timer of the list carries a message for a service of the map of endpoints.\<close>

definition resend_entry :: "(i32 \<rightharpoonup> 'addr endpoint) \<Rightarrow> (server_callback, ('addr, 'any) parked_message option) entry \<Rightarrow> bool" where
  "resend_entry endpoints e \<longleftrightarrow> callbackFunction (snd e) = Some ResendMessage \<and>
     (case callbackParameters (snd e) of None \<Rightarrow> False
      | Some p \<Rightarrow> endpoints (serviceIdentifier (destination p)) \<noteq> None)"

definition entry_parked :: "(server_callback, ('addr, 'any) parked_message option) entry \<Rightarrow> ('addr, 'any) parked_message" where
  "entry_parked e = the (callbackParameters (snd e))"

text \<open>Where the message of an entry goes when it is sent again.\<close>

definition resent :: "(i32 \<rightharpoonup> 'addr endpoint) \<Rightarrow> (server_callback, ('addr, 'any) parked_message option) entry
    \<Rightarrow> 'addr destination \<times> 'any message" where
  "resent endpoints e =
     (\<lparr>serviceIdentifier = serviceIdentifier (destination (entry_parked e)),
       endpoint = the (endpoints (serviceIdentifier (destination (entry_parked e))))\<rparr>,
      parkedMessage (entry_parked e))"

lemma resend_effect_entry:
  "resend_entry (servicesEndpointsMap s) e \<Longrightarrow>
    resend_effect env ResendMessage (callbackParameters (snd e)) s =
      (if messageQueue s = [] then NeverReturns
       else Returned ((forget_code (transactionCode (entry_parked e)) s)\<lparr>
              messageQueue := messageQueue s @ [resent (servicesEndpointsMap s) e]\<rparr>))"
  by (auto simp: resend_entry_def resend_effect_def locked_resend_def entry_parked_def resent_def findDestination_def
      forget_code_frame Let_def split: option.splits)

lemma run_resend_entry:
  "resend_entry (servicesEndpointsMap s) e \<Longrightarrow>
    runCallbackFunction (resend_effect env) (snd e) s =
      (if messageQueue s = [] then ((snd e)\<lparr>actionStatus := Running\<rparr>, NeverReturns)
       else ((snd e)\<lparr>actionStatus := Ended\<rparr>,
             Returned ((forget_code (transactionCode (entry_parked e)) s)\<lparr>
               messageQueue := messageQueue s @ [resent (servicesEndpointsMap s) e]\<rparr>)))"
  using resend_effect_entry [of s e env]
  by (auto simp: runCallbackFunction_def Let_def resend_entry_def split: cb_outcome.split)

lemma fire_all_resend_empty:
  "\<forall>e \<in> set es. resend_entry (servicesEndpointsMap s) e \<Longrightarrow> messageQueue s = [] \<Longrightarrow>
    (\<exists>e \<in> set es. due tp (snd e)) \<Longrightarrow> fire_all (resend_effect env) tp es s = None"
proof (induction es)
  case (Cons e es)
  then show ?case
    by (cases "due tp (snd e)") (auto simp: run_resend_entry cb_state_def)
qed simp

lemma fire_all_resend_busy:
  "\<forall>e \<in> set es. resend_entry (servicesEndpointsMap s) e \<Longrightarrow> messageQueue s \<noteq> [] \<Longrightarrow>
    \<exists>codes. fire_all (resend_effect env) tp es s =
      Some (map (mark tp) es, s\<lparr>transactionAndTimerID := codes,
        messageQueue := messageQueue s @ map (resent (servicesEndpointsMap s)) (filter (\<lambda>e. due tp (snd e)) es)\<rparr>) \<and>
      (\<forall>code. codes code = (if \<exists>e \<in> set es. due tp (snd e) \<and> transactionCode (entry_parked e) = code
                            then None else transactionAndTimerID s code))"
proof (induction es arbitrary: s)
  case Nil
  then show ?case by (intro exI [of _ "transactionAndTimerID s"]) simp
next
  case (Cons e es)
  show ?case
  proof (cases "due tp (snd e)")
    case False
    have "\<forall>e \<in> set es. resend_entry (servicesEndpointsMap s) e" using Cons.prems(1) by simp
    from Cons.IH [OF this Cons.prems(2)] False show ?thesis by (auto simp: mark_def)
  next
    case True
    let ?s = "(forget_code (transactionCode (entry_parked e)) s)\<lparr>
        messageQueue := messageQueue s @ [resent (servicesEndpointsMap s) e]\<rparr>"
    have "\<forall>e \<in> set es. resend_entry (servicesEndpointsMap ?s) e" and "messageQueue ?s \<noteq> []"
      using Cons.prems(1) by (simp_all add: forget_code_frame)
    from Cons.IH [OF this] obtain codes where
      fire: "fire_all (resend_effect env) tp es ?s =
        Some (map (mark tp) es, ?s\<lparr>transactionAndTimerID := codes,
          messageQueue := messageQueue ?s @ map (resent (servicesEndpointsMap ?s)) (filter (\<lambda>e. due tp (snd e)) es)\<rparr>)"
      and codes: "\<forall>code. codes code = (if \<exists>e \<in> set es. due tp (snd e) \<and> transactionCode (entry_parked e) = code
                            then None else transactionAndTimerID ?s code)" by blast
    have "runCallbackFunction (resend_effect env) (snd e) s = ((snd e)\<lparr>actionStatus := Ended\<rparr>, Returned ?s)"
      using Cons.prems by (simp add: run_resend_entry)
    with True fire have "fire_all (resend_effect env) tp (e # es) s =
        Some (map (mark tp) (e # es), s\<lparr>transactionAndTimerID := codes,
          messageQueue := messageQueue s @ map (resent (servicesEndpointsMap s)) (filter (\<lambda>e. due tp (snd e)) (e # es))\<rparr>)"
      by (simp add: cb_state_def mark_def forget_code_def)
    moreover from codes True have "\<forall>code. codes code =
        (if \<exists>e' \<in> set (e # es). due tp (snd e') \<and> transactionCode (entry_parked e') = code
         then None else transactionAndTimerID s code)"
      by (auto simp: forget_code_def)
    ultimately show ?thesis by blast
  qed
qed

lemma filter_ended_mark:
  "\<forall>e \<in> set es. \<not> isRepeatable (snd e) \<and> getActionStatus (snd e) = Waiting \<Longrightarrow>
    filter (\<lambda>e. \<not> (\<not> isRepeatable (snd e) \<and> getActionStatus (snd e) = Ended)) (map (mark tp) es) =
      filter (\<lambda>e. \<not> due tp (snd e)) es"
  by (induction es) (auto simp: mark_def op_defs due_def)

lemma resend_deadlocks_core:
  assumes "\<not> timersLock (timersCache s)" and "messageQueue s = []"
    and "\<forall>e \<in> set (timers (timersCache s)). resend_entry (servicesEndpointsMap s) e"
    and "\<exists>e \<in> set (timers (timersCache s)). due tp (snd e)"
  shows "server_timers_round env tp restarts s = None"
  using fire_all_resend_empty [OF assms(3,2,4), of env] assms(1)
  by (simp add: resend.triggerExpiredTimers_fire_all server_timers_round_def timers_round_def)

section \<open>States for the witnesses\<close>

text \<open>One request open, code 1 and timer 1, which expires at 5.\<close>

definition sample_parked :: "(nat, nat) parked_message" where
  "sample_parked = \<lparr>transactionCode = 1, destination = \<lparr>serviceIdentifier = 872415233, endpoint = (1, 7)\<rparr>,
     parkedMessage = makeRequestMessage 704643073 (Some 9) 1\<rparr>"

definition sample_waiting :: "(nat, nat, unit, nat) server" where
  "sample_waiting = sample_server\<lparr>
     timersCache := empty_timers_cache\<lparr>timers := [(5, setTimerID 1 (new_timer 5 (Some ResendMessage) (Some sample_parked)))]\<rparr>,
     transactionAndTimerID := [1 \<mapsto> 1]\<rparr>"

definition sample_queued :: "nat destination \<times> nat message" where
  "sample_queued = (\<lparr>serviceIdentifier = 872415233, endpoint = (1, 7)\<rparr>, makeRequestMessage 704643073 (Some 8) 2)"

lemma sample_waiting_simps:
  "messageQueue sample_waiting = []" "transactionAndTimerID sample_waiting = [1 \<mapsto> 1]"
  "servicesEndpointsMap sample_waiting = [872415233 \<mapsto> (1, 7)]"
  "timers (timersCache sample_waiting) = [(5, setTimerID 1 (new_timer 5 (Some ResendMessage) (Some sample_parked)))]"
  "\<not> timersLock (timersCache sample_waiting)"
  by (simp_all add: sample_waiting_def sample_server_simps empty_timers_cache_def)

lemma sample_waiting_entry:
  "resend_entry [872415233 \<mapsto> (1, 7)] (5, setTimerID 1 (new_timer 5 (Some ResendMessage) (Some sample_parked)))"
  by (simp add: resend_entry_def op_defs sample_parked_def)

section \<open>Properties\<close>

text \<open>
  When the message queue is empty and some resend timer of a known service is due, the round of
  the timers thread never completes: the lambda it runs with timersLock held sends the message
  at once and waits for timersLock. From then on the cache stays locked, and every operation of
  the server that needs it, a new send or the success response to an open request, never
  returns either.
\<close>
lemma resend_deadlocks:
  assumes "\<not> timersLock (timersCache s)" and "messageQueue s = []"
    and "\<forall>e \<in> set (timers (timersCache s)). resend_entry (servicesEndpointsMap s) e"
    and "\<exists>e \<in> set (timers (timersCache s)). due tp (snd e)"
  shows "server_timers_round env tp restarts s = None \<and>
    (let stuck = s\<lparr>timersCache := (timersCache s)\<lparr>timersLock := True\<rparr>\<rparr>
     in pushAndSend env d m stuck = Blocks \<and>
        (case transactionAndTimerID s code of None \<Rightarrow> True
         | Some i \<Rightarrow> handleResponse (success_response sender code) stuck = Blocks))"
  using resend_deadlocks_core [OF assms, of env restarts] assms(2)
  by (simp add: Let_def pushAndSend_result registerTimer_locked handleResponse_def removeTimer_def
      internalRemoveTimer_def split: option.split)

text \<open>C14:
  From a server with no timers and nothing queued: after one request to a known service has been
  sent and its datagram has left, if no response comes, the first round of the timers thread at
  any time later than the configured number of seconds never completes.
\<close>
theorem unanswered_request_deadlocks:
  assumes "servicesEndpointsMap s i = Some e" and "messageQueue s = []" and "parkedMessages s = []"
    and "timersCache s = empty_timers_cache"
    and "now s + seconds (timeBetweenMessageResendsInSeconds (configured env)) < tp"
  shows "\<exists>s1 s2. sendRequest env i any s = Done True s1 \<and> postSendToDestination env False s1 = Done () s2 \<and>
    messageQueue s2 = [] \<and> server_timers_round env tp restarts s2 = None"
proof -
  let ?d = "\<lparr>serviceIdentifier = i, endpoint = e\<rparr>" and ?m = "next_request env any s"
  have room: "timers_room s"
    using assms(4) by (simp add: cache_inv_empty) (simp add: empty_timers_cache_def)
  obtain t c where reg: "registerTimer (Some (resend_timer env (now s) ?d ?m)) (timersCache s) = Some (t, c)"
    using registered_in_room [OF room] by metis
  let ?s1 = "after_send env ?d ?m t c (s\<lparr>randCalls := Suc (randCalls s), messageQueue := [(?d, ?m)]\<rparr>)"
  let ?s2 = "?s1\<lparr>inFlight := tl (inFlight ?s1), messageQueue := []\<rparr>"
  have "sendRequest env i any s = Done True ?s1"
    using send_found(1) [OF known_destination [OF assms(1)] assms(3)] assms(2) reg
    by (simp add: pushAndSend_result next_request_def)
  moreover have "postSendToDestination env False ?s1 = Done () ?s2"
    by (simp add: postSendToDestination_def queue_empty_def)
  moreover have "server_timers_round env tp restarts ?s2 = None"
  proof (rule resend_deadlocks_core)
    show "\<forall>e \<in> set (timers (timersCache ?s2)). resend_entry (servicesEndpointsMap ?s2) e"
      using reg assms(1,4)
      by (simp add: registerTimer_iff empty_timers_cache_def resend_entry_def resend_timer_def op_defs after_send_def)
    show "\<exists>e \<in> set (timers (timersCache ?s2)). due tp (snd e)"
      using reg assms(4,5)
      by (simp add: registerTimer_iff empty_timers_cache_def resend_timer_def due_def op_defs after_send_def)
  qed (use reg in \<open>simp_all add: registerTimer_iff\<close>)
  ultimately show ?thesis by (intro exI [of _ ?s1] exI [of _ ?s2]) simp
qed

theorem unanswered_request_deadlocks_witness:
  "\<exists>s1 s2. sendRequest sample_env 872415233 (Some 9) sample_server = Done True s1 \<and>
     postSendToDestination sample_env False s1 = Done () s2 \<and>
     server_timers_round sample_env 6000000000 (\<lambda>k. 6000000000) s2 = None"
proof -
  have "now sample_server + seconds (timeBetweenMessageResendsInSeconds (configured sample_env)) < 6000000000"
    by (simp add: sample_server_def new_server_def sample_env_def seconds_def)
  from unanswered_request_deadlocks [OF _ _ _ _ this, of 872415233 "(1, 7)" "Some 9" "\<lambda>k. 6000000000"]
  show ?thesis by (auto simp: sample_server_simps)
qed

text \<open>
  While another message is on its way, a round over resend timers of known services completes:
  exactly the due timers are gone, their messages stand at the end of the queue in the order of
  their expirations, addressed to the current endpoints of their services, and their
  transaction codes are forgotten; nothing is handed to the socket by the round itself.
\<close>
lemma round_while_sending:
  assumes "\<not> timersLock (timersCache s)" and "messageQueue s \<noteq> []"
    and "\<forall>e \<in> set (timers (timersCache s)). resend_entry (servicesEndpointsMap s) e \<and>
           \<not> isRepeatable (snd e) \<and> getActionStatus (snd e) = Waiting"
  shows "\<exists>s'. server_timers_round env tp restarts s = Some s' \<and>
    timers (timersCache s') = filter (\<lambda>e. \<not> due tp (snd e)) (timers (timersCache s)) \<and>
    messageQueue s' = messageQueue s @
      map (resent (servicesEndpointsMap s)) (filter (\<lambda>e. due tp (snd e)) (timers (timersCache s))) \<and>
    (\<forall>code. transactionAndTimerID s' code =
       (if \<exists>e \<in> set (timers (timersCache s)). due tp (snd e) \<and> transactionCode (entry_parked e) = code
        then None else transactionAndTimerID s code)) \<and>
    handedOver s' = handedOver s \<and> \<not> timersLock (timersCache s')"
proof -
  let ?es = "timers (timersCache s)"
  have known: "\<forall>e \<in> set ?es. resend_entry (servicesEndpointsMap s) e"
    and plain: "\<forall>e \<in> set ?es. \<not> isRepeatable (snd e) \<and> getActionStatus (snd e) = Waiting"
    using assms(3) by blast+
  obtain codes where fire: "fire_all (resend_effect env) tp ?es s =
      Some (map (mark tp) ?es, s\<lparr>transactionAndTimerID := codes,
        messageQueue := messageQueue s @ map (resent (servicesEndpointsMap s)) (filter (\<lambda>e. due tp (snd e)) ?es)\<rparr>)"
    and codes: "\<forall>code. codes code = (if \<exists>e \<in> set ?es. due tp (snd e) \<and> transactionCode (entry_parked e) = code
                            then None else transactionAndTimerID s code)"
    using fire_all_resend_busy [OF known assms(2)] by blast
  have none: "filter to_restart (map (mark tp) ?es) = []"
    using plain by (auto simp: filter_empty_conv to_restart_def mark_def op_defs)
  have "filter (\<lambda>e. \<not> (\<not> isRepeatable (snd e) \<and> getActionStatus (snd e) = Ended)) (map (mark tp) ?es) =
      filter (\<lambda>e. \<not> due tp (snd e)) ?es"
    using plain by (rule filter_ended_mark)
  moreover have "filter (\<lambda>e. \<not> to_restart e) (map (mark tp) ?es) = map (mark tp) ?es"
    using none by (simp add: filter_empty_conv filter_id_conv)
  ultimately have "server_timers_round env tp restarts s =
      Some (s\<lparr>transactionAndTimerID := codes,
        messageQueue := messageQueue s @ map (resent (servicesEndpointsMap s)) (filter (\<lambda>e. due tp (snd e)) ?es),
        timersCache := (timersCache s)\<lparr>timers := filter (\<lambda>e. \<not> due tp (snd e)) ?es\<rparr>\<rparr>)"
    using fire assms(1) none
    by (simp add: server_timers_round_def timers_round_def resend.triggerExpiredTimers_fire_all
        restartRepeatableTimers_def removeEndedTimers_def)
  with codes assms(1) show ?thesis by simp
qed


end
