(* ===== verification/Server_Steps.thy ===== *)
theory Server_Steps
  imports Server_Resend
begin

text \<open>
  The server as a state machine: users that send, datagrams that leave or fail, datagrams and
  errors that arrive, rounds of the timers thread, in any order. Each operation that returns
  is one step; one that never returns is no step. \<open>accepted\<close> records, in order, what the
  requests put into the message queue.
\<close>

record ('addr, 'any, 'h, 'w) server_system =
  srv :: "('addr, 'any, 'h, 'w) server"
  accepted :: "('addr destination \<times> 'any message) list"

definition advance ::
    "('addr, 'any, 'h, 'w) server_system \<Rightarrow> ('addr, 'any, 'h, 'w) server \<Rightarrow> ('addr, 'any, 'h, 'w) server_system" where
  "advance y s = \<lparr>srv = s, accepted = accepted y @ drop (length (messageQueue (srv y))) (messageQueue s)\<rparr>"

definition settle :: "('addr, 'any, 'h, 'w) server_system \<Rightarrow> ('addr, 'any, 'h, 'w) server \<Rightarrow> ('addr, 'any, 'h, 'w) server_system" where
  "settle y s = \<lparr>srv = s, accepted = accepted y\<rparr>"

text \<open>The outcome of a user's call: the state it leaves, by return or by exception.\<close>

fun leaves :: "('e, 'a, 's) outcome \<Rightarrow> 's option" where
  "leaves (Done a s) = Some s"
| "leaves (Throws e s) = Some s"
| "leaves Blocks = None"
| "leaves Undefined = None"

inductive server_step ::
    "('addr, 'any, 'h, 'w) server_env \<Rightarrow> ('addr, 'any, 'h, 'w) server_system \<Rightarrow> ('addr, 'any, 'h, 'w) server_system \<Rightarrow> bool"
    for env where
  request: "leaves (sendRequest env i any (srv y)) = Some s \<Longrightarrow> server_step env y (advance y s)"
| request_message: "leaves (sendRequestMessage env i m (srv y)) = Some s \<Longrightarrow> server_step env y (advance y s)"
| subscribe: "leaves (sendSubscribeRequest env i ty (srv y)) = Some s \<Longrightarrow> server_step env y (advance y s)"
| sent: "inFlight (srv y) \<noteq> [] \<Longrightarrow> postSendToDestination env False (srv y) = Done () s \<Longrightarrow>
    server_step env y (settle y s)"
| send_failed: "inFlight (srv y) \<noteq> [] \<Longrightarrow> postSendToDestination env True (srv y) = Done () s \<Longrightarrow>
    server_step env y (settle y s)"
| received: "readingStarted (srv y) \<Longrightarrow> postReceive env datagram (srv y) = Done () s \<Longrightarrow>
    server_step env y (settle y s)"
| timers: "server_timers_round env tp restarts (srv y) = Some s \<Longrightarrow> server_step env y (advance y s)"
| time: "now (srv y) \<le> later \<Longrightarrow> server_step env y (settle y ((srv y)\<lparr>now := later\<rparr>))"

text \<open>A server that was bound and reads, as startModuleServer leaves it.\<close>

definition started_server ::
    "('addr, 'any, 'h, 'w) server_env \<Rightarrow> (i32 \<rightharpoonup> 'addr endpoint) \<Rightarrow> 'h events_cache \<Rightarrow> 'w \<Rightarrow> ('addr, 'any, 'h, 'w) server" where
  "started_server env endpoints events w =
     startReading ((new_server endpoints events w)\<lparr>socketOpen := True,
       messageBufferLength := unat (messageBufferSize (configured env))\<rparr>)"

inductive server_reachable :: "('addr, 'any, 'h, 'w) server_env \<Rightarrow> ('addr, 'any, 'h, 'w) server_system \<Rightarrow> bool" for env where
  start: "server_reachable env \<lparr>srv = started_server env endpoints events w, accepted = []\<rparr>"
| step: "server_reachable env y \<Longrightarrow> server_step env y z \<Longrightarrow> server_reachable env z"

inductive server_steps ::
    "('addr, 'any, 'h, 'w) server_env \<Rightarrow> ('addr, 'any, 'h, 'w) server_system \<Rightarrow> ('addr, 'any, 'h, 'w) server_system \<Rightarrow> bool"
    for env where
  refl: "server_steps env y y"
| next_step: "server_steps env y z \<Longrightarrow> server_step env z v \<Longrightarrow> server_steps env y v"

section \<open>What an operation does to the traffic\<close>

text \<open>The datagram of a message.\<close>

definition datagram_of :: "('addr, 'any, 'h, 'w) server_env \<Rightarrow> 'addr destination \<times> 'any message \<Rightarrow> 'addr endpoint \<times> bytes" where
  "datagram_of env dm = (endpoint (fst dm), serialize env (snd dm))"

text \<open>
  Traffic from s to s': messages were appended to the queue, and when it was empty the first
  of them was handed to the socket.
\<close>

definition traffic ::
    "('addr, 'any, 'h, 'w) server_env \<Rightarrow> ('addr, 'any, 'h, 'w) server \<Rightarrow> ('addr, 'any, 'h, 'w) server \<Rightarrow> bool" where
  "traffic env s s' \<longleftrightarrow> (\<exists>ms. messageQueue s' = messageQueue s @ ms \<and>
     (if messageQueue s = [] \<and> ms \<noteq> []
      then inFlight s' = inFlight s @ [datagram_of env (hd ms)] \<and> handedOver s' = handedOver s @ [datagram_of env (hd ms)]
      else inFlight s' = inFlight s \<and> handedOver s' = handedOver s))"

lemma traffic_same:
  "messageQueue s' = messageQueue s \<Longrightarrow> inFlight s' = inFlight s \<Longrightarrow> handedOver s' = handedOver s \<Longrightarrow> traffic env s s'"
  by (simp add: traffic_def)

lemma pushAndSend_traffic:
  "leaves (pushAndSend env d m s) = Some s' \<Longrightarrow> traffic env s s'"
proof (cases "messageQueue s")
  case Nil
  assume "leaves (pushAndSend env d m s) = Some s'"
  with Nil obtain i c where "s' = after_send env d m i c (s\<lparr>messageQueue := [(d, m)]\<rparr>)"
    by (auto simp: pushAndSend_result split: option.splits)
  then have "messageQueue s' = messageQueue s @ [(d, m)]" and "inFlight s' = inFlight s @ [datagram_of env (d, m)]"
    and "handedOver s' = handedOver s @ [datagram_of env (d, m)]"
    using Nil by (simp_all add: after_send_def datagram_of_def)
  with Nil show ?thesis unfolding traffic_def by (intro exI [of _ "[(d, m)]"]) simp
next
  case (Cons a q)
  assume "leaves (pushAndSend env d m s) = Some s'"
  with Cons have "s' = s\<lparr>messageQueue := messageQueue s @ [(d, m)]\<rparr>"
    by (simp add: pushAndSend_result Let_def)
  with Cons show ?thesis unfolding traffic_def by (intro exI [of _ "[(d, m)]"]) simp
qed

lemma generateTransactionCode_frame:
  "leaves (generateTransactionCode env s) = Some s' \<Longrightarrow> \<exists>n. s' = s\<lparr>randCalls := n\<rparr>"
  "generateTransactionCode env s = Done code s' \<Longrightarrow> \<exists>n. s' = s\<lparr>randCalls := n\<rparr>"
  by (auto simp: generateTransactionCode_def Let_def split: option.splits)

lemma leaves_andThen:
  "leaves (andThen r f) = Some s' \<Longrightarrow>
    (\<exists>e. r = Throws e s') \<or> (\<exists>a s. r = Done a s \<and> leaves (f a s) = Some s')"
  by (cases r) auto

text \<open>Every sender leaves the state it was called in, up to the count of rand, or pushes one message into it.\<close>

lemma sendRequestMessage_cases:
  assumes "leaves (sendRequestMessage env i m s) = Some s'"
  obtains "s' = s" | d where "leaves (pushAndSend env d m s) = Some s'"
  using leaves_andThen [OF assms [unfolded sendRequestMessage_def]] findDestination_state
  by (fastforce split: option.splits)

lemma drawn_request_cases:
  assumes "leaves (andThen (findDestination env i s) (\<lambda>d s. case d of None \<Rightarrow> Done False s
       | Some dest \<Rightarrow> andThen (generateTransactionCode env s) (\<lambda>code s. pushAndSend env dest (mk code) s))) = Some s'"
  obtains "s' = s"
  | d m n where "leaves (pushAndSend env d m (s\<lparr>randCalls := n\<rparr>)) = Some s'"
proof -
  from leaves_andThen [OF assms] findDestination_state(1,2) consider "s' = s"
    | d where "leaves (case d of None \<Rightarrow> Done False s
       | Some dest \<Rightarrow> andThen (generateTransactionCode env s) (\<lambda>code s. pushAndSend env dest (mk code) s)) = Some s'"
    by blast
  then show ?thesis
  proof cases
    case (2 d)
    show ?thesis
    proof (cases d)
      case None
      with 2 that(1) show ?thesis by simp
    next
      case (Some dest)
      with 2 have "leaves (andThen (generateTransactionCode env s) (\<lambda>code s. pushAndSend env dest (mk code) s)) = Some s'"
        by simp
      then obtain code u where gen: "generateTransactionCode env s = Done code u"
        and push: "leaves (pushAndSend env dest (mk code) u) = Some s'"
        by (auto simp: generateTransactionCode_def Let_def split: option.splits)
      from generateTransactionCode_frame(2) [OF gen] push that(2) show ?thesis by blast
    qed
  qed (rule that(1))
qed

lemmas sendRequest_cases = drawn_request_cases [folded sendRequest_def]
lemmas sendSubscribeRequest_cases = drawn_request_cases [folded sendSubscribeRequest_def]

lemma request_traffic:
  "leaves (sendRequest env i any s) = Some s' \<Longrightarrow> traffic env s s'"
  "leaves (sendSubscribeRequest env i ty s) = Some s' \<Longrightarrow> traffic env s s'"
  "leaves (sendRequestMessage env i m s) = Some s' \<Longrightarrow> traffic env s s'"
proof -
  have frame: "traffic env (s\<lparr>randCalls := n\<rparr>) s' = traffic env s s'" for n by (simp add: traffic_def)
  show "traffic env s s'" if "leaves (sendRequest env i any s) = Some s'"
    using that [unfolded sendRequest_def]
    by (rule drawn_request_cases) (simp add: traffic_same, metis frame pushAndSend_traffic)
  show "traffic env s s'" if "leaves (sendSubscribeRequest env i ty s) = Some s'"
    using that [unfolded sendSubscribeRequest_def]
    by (rule drawn_request_cases) (simp add: traffic_same, metis frame pushAndSend_traffic)
  show "traffic env s s'" if "leaves (sendRequestMessage env i m s) = Some s'"
    using that by (rule sendRequestMessage_cases) (simp add: traffic_same, rule pushAndSend_traffic)
qed

text \<open>A round hands nothing over, and pushes only where something is queued already.\<close>

definition only_queued :: "('addr, 'any, 'h, 'w) server \<Rightarrow> ('addr, 'any, 'h, 'w) server \<Rightarrow> bool" where
  "only_queued s s' \<longleftrightarrow> inFlight s' = inFlight s \<and> handedOver s' = handedOver s \<and>
     (\<exists>ms. messageQueue s' = messageQueue s @ ms \<and> (messageQueue s = [] \<longrightarrow> ms = []))"

lemma only_queued_refl: "only_queued s s"
  by (simp add: only_queued_def)

lemma only_queued_trans: "only_queued s s' \<Longrightarrow> only_queued s' s'' \<Longrightarrow> only_queued s s''"
  by (auto simp: only_queued_def)

lemma only_queued_traffic: "only_queued s s' \<Longrightarrow> traffic env s s'"
  by (auto simp: only_queued_def traffic_def)

lemma locked_resend_only_queued:
  "cb_state (locked_resend env message s) = Some s' \<Longrightarrow> only_queued s s'"
  by (auto simp: locked_resend_def cb_state_def only_queued_def forget_code_def Let_def
      split: option.splits outcome.splits if_splits)

text \<open>
  What requests under timersLock leave as it is; a relation that each request respects holds over
  all of them, and over the callback that sends them.
\<close>

lemma locked_request_frame:
  assumes "leaves (locked_request env i any s) = Some s'"
  shows "\<exists>n ms. s' = s\<lparr>randCalls := n, messageQueue := messageQueue s @ ms\<rparr> \<and> (messageQueue s = [] \<longrightarrow> ms = [])"
proof -
  have drawn: "\<exists>n ms. s' = s\<lparr>randCalls := n, messageQueue := messageQueue s @ ms\<rparr> \<and> (messageQueue s = [] \<longrightarrow> ms = [])"
    if run: "leaves (andThen (generateTransactionCode env s) (\<lambda>code s. if messageQueue s = [] then Blocks
        else Done False (s\<lparr>messageQueue := messageQueue s @ [(d, mk code)]\<rparr>))) = Some s'" for d mk
  proof (cases "generateTransactionCode env s")
    case (Done code u)
    with generateTransactionCode_frame(2) [OF this] obtain n where "u = s\<lparr>randCalls := n\<rparr>" by blast
    with run Done show ?thesis by (intro exI [of _ n]) (auto split: if_splits)
  next
    case (Throws e u)
    then show ?thesis by (auto simp: generateTransactionCode_def Let_def split: option.splits)
  qed (use run in simp_all)
  have same: "\<exists>n ms. s = s\<lparr>randCalls := n, messageQueue := messageQueue s @ ms\<rparr> \<and> (messageQueue s = [] \<longrightarrow> ms = [])"
    by (intro exI [of _ "randCalls s"] exI [of _ "[]"]) simp
  show ?thesis
  proof (cases "findDestination env i s")
    case (Done d u)
    with assms drawn same show ?thesis by (cases d) (auto simp: locked_request_def)
  qed (use assms same in \<open>auto simp: locked_request_def\<close>)
qed

lemma locked_requests_frame:
  "leaves (locked_requests env rs s) = Some s' \<Longrightarrow>
    \<exists>n ms. s' = s\<lparr>randCalls := n, messageQueue := messageQueue s @ ms\<rparr> \<and> (messageQueue s = [] \<longrightarrow> ms = [])"
proof (induction env rs s rule: locked_requests.induct)
  case (1 env s)
  then show ?case by (intro exI [of _ "randCalls s"] exI [of _ "[]"]) simp
next
  case (2 env i any requests s)
  from leaves_andThen [OF "2.prems" [unfolded locked_requests.simps]]
  consider "leaves (locked_request env i any s) = Some s'"
    | u b where "locked_request env i any s = Done b u" and "leaves (locked_requests env requests u) = Some s'" by force
  then show ?case
  proof cases
    case 1
    then show ?thesis by (rule locked_request_frame)
  next
    case (2 u b)
    then obtain n ms where u: "u = s\<lparr>randCalls := n, messageQueue := messageQueue s @ ms\<rparr>" "messageQueue s = [] \<longrightarrow> ms = []"
      using locked_request_frame [of env i any s u] by auto
    from "2.IH" [OF 2(2)] obtain n' ms' where "s' = u\<lparr>randCalls := n', messageQueue := messageQueue u @ ms'\<rparr>"
      "messageQueue u = [] \<longrightarrow> ms' = []" by blast
    with u show ?thesis by (intro exI [of _ n'] exI [of _ "ms @ ms'"]) auto
  qed
qed

lemma user_callback_frame:
  assumes "cb_state (runUserCallback env k (locked_requests env rs s)) = Some s'"
  shows "\<exists>n ms w. s' = s\<lparr>randCalls := n, messageQueue := messageQueue s @ ms, handlersWorld := w\<rparr> \<and>
    (messageQueue s = [] \<longrightarrow> ms = [])"
proof -
  obtain u w where "leaves (locked_requests env rs s) = Some u" and s': "s' = u\<lparr>handlersWorld := w\<rparr>"
  proof (cases "locked_requests env rs s")
    case (Done x u)
    with assms have "\<exists>w. s' = u\<lparr>handlersWorld := w\<rparr>"
      by (cases "user_callback env k (handlersWorld u)") (auto simp: runUserCallback_def cb_state_def)
    with Done that [of u] show ?thesis by auto
  next
    case (Throws e u)
    with assms have "s' = u" by (simp add: runUserCallback_def cb_state_def)
    with Throws that [of u "handlersWorld u"] show ?thesis by simp
  qed (use assms in \<open>simp_all add: runUserCallback_def cb_state_def\<close>)
  from locked_requests_frame [OF this(1)] s' show ?thesis by auto
qed

lemma resend_effect_only_queued:
  assumes "cb_state (resend_effect env f message s) = Some s'"
  shows "only_queued s s'"
proof (cases f)
  case ResendMessage
  with assms show ?thesis by (simp add: resend_effect_def locked_resend_only_queued)
next
  case (UserCallback k)
  with assms user_callback_frame [of env k "user_requests env k" s s'] show ?thesis
    by (auto simp: resend_effect_def only_queued_def)
qed

lemma fire_all_only_queued:
  "fire_all (resend_effect env) tp es s = Some (es', s') \<Longrightarrow> only_queued s s'"
  using only_queued_refl only_queued_trans resend_effect_only_queued by (rule fire_all_rel [where R = only_queued])

lemma timers_round_fire_all:
  assumes "server_timers_round env tp restarts s = Some s'"
  obtains es u c1 c2 c3 where "\<not> timersLock (timersCache s)"
    and "fire_all (resend_effect env) tp (timers (timersCache s)) s = Some (es, u)"
    and "triggerExpiredTimers (resend_call env) tp (timersCache s) s = Some (c1, u)"
    and "c1 = (timersCache s)\<lparr>timers := es\<rparr>" and "restartRepeatableTimers restarts c1 = Some c2"
    and "removeEndedTimers c2 = Some c3" and "s' = u\<lparr>timersCache := c3\<rparr>"
proof -
  from assms obtain c3 u where round: "timers_round (resend_call env) tp restarts (timersCache s) s = Some (c3, u)"
    and s': "s' = u\<lparr>timersCache := c3\<rparr>"
    by (auto simp: server_timers_round_def)
  from round obtain c1 c2 where trig: "triggerExpiredTimers (resend_call env) tp (timersCache s) s = Some (c1, u)"
    and rest: "restartRepeatableTimers restarts c1 = Some c2" "removeEndedTimers c2 = Some c3"
    by (auto simp: timers_round_split)
  from trig have unlocked: "\<not> timersLock (timersCache s)"
    by (auto simp: triggerExpiredTimers_def split: if_splits)
  with trig obtain es where "fire_all (resend_effect env) tp (timers (timersCache s)) s = Some (es, u)"
    and "c1 = (timersCache s)\<lparr>timers := es\<rparr>"
    by (auto simp: resend.triggerExpiredTimers_fire_all)
  with unlocked trig rest s' that show ?thesis by blast
qed

lemma round_only_queued:
  assumes "server_timers_round env tp restarts s = Some s'"
  shows "only_queued s s'"
  using assms
proof (rule timers_round_fire_all)
  fix es u c1 c2 c3
  assume "fire_all (resend_effect env) tp (timers (timersCache s)) s = Some (es, u)"
    and s': "s' = u\<lparr>timersCache := c3\<rparr>"
  then have "only_queued s u" by (simp add: fire_all_only_queued)
  with s' show ?thesis by (simp add: only_queued_def)
qed

end
