(* ===== verification/Server_Traffic.thy ===== *)
theory Server_Traffic
  imports Server_Steps
begin

text \<open>
  What leaves the server over any run: the datagrams are the accepted messages, in order, at
  most one on its way at a time; an error of one send ends all sending, and an error of one
  receive ends all receiving.
\<close>

section \<open>The abstract sender\<close>

text \<open>
  What the queue and the socket promise together: of the accepted messages a prefix has left, the
  next one may be on its way, and the rest waits. \<open>n\<close> messages are done.
\<close>

definition traffic_ok ::
    "('addr, 'any, 'h, 'w) server_env \<Rightarrow> ('addr destination \<times> 'any message) list \<Rightarrow> ('addr, 'any, 'h, 'w) server \<Rightarrow> bool" where
  "traffic_ok env sent s \<longleftrightarrow>
     (case messageQueue s of
        [] \<Rightarrow> inFlight s = [] \<and> handedOver s = map (datagram_of env) sent
      | dm # q \<Rightarrow> (inFlight s = [datagram_of env dm] \<or> inFlight s = []) \<and>
          handedOver s = map (datagram_of env) (sent @ [dm]))"

definition sending_inv :: "('addr, 'any, 'h, 'w) server_env \<Rightarrow> ('addr, 'any, 'h, 'w) server_system \<Rightarrow> bool" where
  "sending_inv env y \<longleftrightarrow> (\<exists>sent. accepted y = sent @ messageQueue (srv y) \<and> traffic_ok env sent (srv y))"

lemma sending_inv_start:
  "sending_inv env \<lparr>srv = started_server env endpoints events w, accepted = []\<rparr>"
  by (simp add: sending_inv_def traffic_ok_def started_server_def new_server_def startReading_def)

lemma sending_inv_traffic:
  assumes inv: "sending_inv env y" and traffic: "traffic env (srv y) s"
  shows "sending_inv env (advance y s)"
proof -
  from inv obtain sent where acc: "accepted y = sent @ messageQueue (srv y)"
    and view: "traffic_ok env sent (srv y)"
    unfolding sending_inv_def by blast
  from traffic obtain ms where q: "messageQueue s = messageQueue (srv y) @ ms"
    and out: "if messageQueue (srv y) = [] \<and> ms \<noteq> []
      then inFlight s = inFlight (srv y) @ [datagram_of env (hd ms)] \<and>
           handedOver s = handedOver (srv y) @ [datagram_of env (hd ms)]
      else inFlight s = inFlight (srv y) \<and> handedOver s = handedOver (srv y)"
    unfolding traffic_def by blast
  have "accepted (advance y s) = sent @ messageQueue s"
    using acc q by (simp add: advance_def)
  moreover have "traffic_ok env sent s"
    using view q out unfolding traffic_ok_def by (cases "messageQueue (srv y)"; cases ms) auto
  ultimately show ?thesis unfolding sending_inv_def by (intro exI [of _ sent]) (simp add: advance_def)
qed

text \<open>A completed send: the front is done, the next one, if there is one, is handed over.\<close>

lemma postSend_ok:
  assumes "postSendToDestination env False s = Done () s'"
  obtains dm q where "messageQueue s = dm # q" and "messageQueue s' = q"
    and "if q = [] then inFlight s' = tl (inFlight s) \<and> handedOver s' = handedOver s
         else inFlight s' = tl (inFlight s) @ [datagram_of env (hd q)] \<and>
              handedOver s' = handedOver s @ [datagram_of env (hd q)]"
proof (cases "messageQueue s")
  case Nil
  with assms show ?thesis by (simp add: postSendToDestination_def Let_def)
next
  case (Cons dm q)
  show ?thesis
  proof (cases q)
    case Nil
    with Cons assms have "s' = s\<lparr>inFlight := tl (inFlight s), messageQueue := []\<rparr>"
      by (simp add: postSendToDestination_def queue_empty_def Let_def)
    with Cons Nil show ?thesis by (intro that [of dm q]) simp_all
  next
    case q: (Cons dm2 q2)
    obtain d2 m2 where dm2: "dm2 = (d2, m2)" by fastforce
    let ?u = "s\<lparr>inFlight := tl (inFlight s), messageQueue := q\<rparr>"
    from Cons q assms have "send env ?u = Done () s'"
      by (simp add: postSendToDestination_def queue_empty_def Let_def)
    then obtain i c where "s' = after_send env d2 m2 i c ?u"
      using send_result [of ?u d2 m2 q2 env] q dm2 by (auto split: option.splits)
    with Cons q dm2 show ?thesis by (intro that [of dm q]) (simp_all add: datagram_of_def)
  qed
qed

lemma sending_inv_sent:
  assumes inv: "sending_inv env y" and "inFlight (srv y) \<noteq> []"
    and run: "postSendToDestination env False (srv y) = Done () s"
  shows "sending_inv env (settle y s)"
  using run
proof (rule postSend_ok)
  fix dm q
  assume q: "messageQueue (srv y) = dm # q" "messageQueue s = q"
    and out: "if q = [] then inFlight s = tl (inFlight (srv y)) \<and> handedOver s = handedOver (srv y)
         else inFlight s = tl (inFlight (srv y)) @ [datagram_of env (hd q)] \<and>
              handedOver s = handedOver (srv y) @ [datagram_of env (hd q)]"
  from inv q obtain sent where "accepted y = (sent @ [dm]) @ q"
    and "inFlight (srv y) = [datagram_of env dm] \<or> inFlight (srv y) = []"
    and "handedOver (srv y) = map (datagram_of env) (sent @ [dm])"
    unfolding sending_inv_def traffic_ok_def by auto
  with assms(2) q out show ?thesis
    unfolding sending_inv_def traffic_ok_def
    by (intro exI [of _ "sent @ [dm]"]) (cases q; auto simp: settle_def)
qed

lemma postSend_failed:
  "postSendToDestination env True s = Done () s' \<Longrightarrow> s' = s\<lparr>inFlight := tl (inFlight s)\<rparr>"
  by (simp add: postSendToDestination_def processSendError_def Let_def)

lemma sending_inv_failed:
  assumes inv: "sending_inv env y" and "inFlight (srv y) \<noteq> []"
    and run: "postSendToDestination env True (srv y) = Done () s"
  shows "sending_inv env (settle y s)"
  using inv assms(2) postSend_failed [OF run]
  unfolding sending_inv_def traffic_ok_def settle_def by (cases "messageQueue (srv y)") auto

text \<open>Receiving touches no traffic.\<close>

lemma postReceive_traffic:
  "postReceive env datagram s = Done () s' \<Longrightarrow>
    messageQueue s' = messageQueue s \<and> inFlight s' = inFlight s \<and> handedOver s' = handedOver s"
  by (auto simp: postReceive_def processHandleReceiveError_def startReading_def handleRequest_def
      handleResponse_def Let_def split: option.splits if_splits)

lemma traffic_ok_same:
  "messageQueue s = messageQueue s' \<Longrightarrow> inFlight s = inFlight s' \<Longrightarrow> handedOver s = handedOver s' \<Longrightarrow>
    traffic_ok env sent s = traffic_ok env sent s'"
  by (cases "messageQueue s'") (simp_all add: traffic_ok_def)

lemma sending_inv_same:
  "sending_inv env y \<Longrightarrow> messageQueue s = messageQueue (srv y) \<Longrightarrow> inFlight s = inFlight (srv y) \<Longrightarrow>
    handedOver s = handedOver (srv y) \<Longrightarrow> sending_inv env (settle y s)"
  by (simp add: sending_inv_def settle_def traffic_ok_same [of s "srv y"])

lemma server_step_sending: "server_step env y z \<Longrightarrow> sending_inv env y \<Longrightarrow> sending_inv env z"
proof (induction rule: server_step.induct)
  case (request i any y s)
  then show ?case using request_traffic(1) sending_inv_traffic by blast
next
  case (request_message i m y s)
  then show ?case using request_traffic(3) sending_inv_traffic by blast
next
  case (subscribe i ty y s)
  then show ?case using request_traffic(2) sending_inv_traffic by blast
next
  case (sent y s)
  then show ?case using sending_inv_sent by blast
next
  case (send_failed y s)
  then show ?case using sending_inv_failed by blast
next
  case (received y datagram s)
  then show ?case using postReceive_traffic sending_inv_same by blast
next
  case (timers tp restarts y s)
  then show ?case using round_only_queued only_queued_traffic sending_inv_traffic by blast
next
  case (time y later)
  then show ?case by (intro sending_inv_same) simp_all
qed

lemma server_reachable_sending: "server_reachable env y \<Longrightarrow> sending_inv env y"
  by (induction rule: server_reachable.induct) (auto simp: sending_inv_start server_step_sending)

lemma sending_inv_fifo:
  assumes "sending_inv env y"
  shows "handedOver (srv y) = map (datagram_of env) (take (length (handedOver (srv y))) (accepted y)) \<and>
    messageQueue (srv y) = drop (length (handedOver (srv y)) - (if messageQueue (srv y) = [] then 0 else 1)) (accepted y) \<and>
    (inFlight (srv y) = [] \<or> inFlight (srv y) = [last (handedOver (srv y))] \<and> messageQueue (srv y) \<noteq> [])"
proof -
  obtain sent where acc: "accepted y = sent @ messageQueue (srv y)" and ok: "traffic_ok env sent (srv y)"
    using assms unfolding sending_inv_def by blast
  show ?thesis
  proof (cases "messageQueue (srv y)")
    case Nil
    with acc ok show ?thesis by (simp add: traffic_ok_def)
  next
    case (Cons dm q)
    with ok have "handedOver (srv y) = map (datagram_of env) (sent @ [dm])"
      and "inFlight (srv y) = [datagram_of env dm] \<or> inFlight (srv y) = []"
      by (simp_all add: traffic_ok_def)
    with acc Cons show ?thesis by auto
  qed
qed

section \<open>Wedged\<close>

definition wedged :: "('addr, 'any, 'h, 'w) server \<Rightarrow> bool" where
  "wedged s \<longleftrightarrow> messageQueue s \<noteq> [] \<and> inFlight s = []"

lemma traffic_wedged:
  "traffic env s s' \<Longrightarrow> wedged s \<Longrightarrow> wedged s' \<and> handedOver s' = handedOver s"
  by (auto simp: traffic_def wedged_def)

lemma server_step_wedged:
  "server_step env y z \<Longrightarrow> wedged (srv y) \<Longrightarrow> wedged (srv z) \<and> handedOver (srv z) = handedOver (srv y)"
proof (induction rule: server_step.induct)
  case (request i any y s)
  then show ?case using request_traffic(1) traffic_wedged by (fastforce simp: advance_def)
next
  case (request_message i m y s)
  then show ?case using request_traffic(3) traffic_wedged by (fastforce simp: advance_def)
next
  case (subscribe i ty y s)
  then show ?case using request_traffic(2) traffic_wedged by (fastforce simp: advance_def)
next
  case (received y datagram s)
  then show ?case using postReceive_traffic by (fastforce simp: settle_def wedged_def)
next
  case (timers tp restarts y s)
  then show ?case using round_only_queued only_queued_traffic traffic_wedged by (fastforce simp: advance_def)
qed (simp_all add: wedged_def settle_def)

lemma server_steps_wedged:
  "server_steps env y z \<Longrightarrow> wedged (srv y) \<Longrightarrow> wedged (srv z) \<and> handedOver (srv z) = handedOver (srv y)"
  by (induction rule: server_steps.induct) (use server_step_wedged in fastforce)+

lemma busy_sender_answers_false:
  "messageQueue s \<noteq> [] \<Longrightarrow> sendRequest env i any s = Done b s' \<Longrightarrow> \<not> b"
  by (auto simp: sendRequest_def findDestination_def generateTransactionCode_def pushAndSend_result Let_def
      split: option.splits sum.splits if_splits)

section \<open>Deaf\<close>

text \<open>Nothing but a completed receive runs a handler, and a completed receive needs one pending.\<close>

lemma pushAndSend_hears:
  "leaves (pushAndSend env d m s) = Some s' \<Longrightarrow>
    readingStarted s' = readingStarted s"
  by (cases "messageQueue s") (auto simp: pushAndSend_result after_send_def Let_def split: option.splits)

lemma request_hears:
  "leaves (sendRequest env i any s) = Some s' \<Longrightarrow> readingStarted s' = readingStarted s"
  "leaves (sendSubscribeRequest env i ty s) = Some s' \<Longrightarrow> readingStarted s' = readingStarted s"
  "leaves (sendRequestMessage env i m s) = Some s' \<Longrightarrow> readingStarted s' = readingStarted s"
  unfolding sendRequest_def sendSubscribeRequest_def
  by (erule drawn_request_cases; force dest: pushAndSend_hears)+
    (erule sendRequestMessage_cases; force dest: pushAndSend_hears)

lemma resend_effect_hears:
  assumes "cb_state (resend_effect env f message s) = Some s'"
  shows "readingStarted s' = readingStarted s"
proof (cases f)
  case ResendMessage
  with assms show ?thesis
    by (auto simp: resend_effect_def locked_resend_def cb_state_def forget_code_def Let_def
        split: option.splits outcome.splits if_splits)
next
  case (UserCallback k)
  with assms user_callback_frame [of env k "user_requests env k" s s'] show ?thesis
    by (auto simp: resend_effect_def)
qed

text \<open>A request leaves what the server receives with as it is.\<close>

lemma pushAndSend_receiver:
  "leaves (pushAndSend env d m s) = Some s' \<Longrightarrow>
    messageBufferLength s' = messageBufferLength s \<and> eventsCache s' = eventsCache s"
  by (cases "messageQueue s") (auto simp: pushAndSend_result after_send_def Let_def split: option.splits)

lemma request_receiver:
  "leaves (sendRequest env i any s) = Some s' \<Longrightarrow>
    messageBufferLength s' = messageBufferLength s \<and> eventsCache s' = eventsCache s"
  unfolding sendRequest_def by (erule drawn_request_cases; force dest: pushAndSend_receiver)

definition hears_same :: "('addr, 'any, 'h, 'w) server \<Rightarrow> ('addr, 'any, 'h, 'w) server \<Rightarrow> bool" where
  "hears_same s s' \<longleftrightarrow> readingStarted s' = readingStarted s"

lemma round_hears:
  assumes "server_timers_round env tp restarts s = Some s'"
  shows "hears_same s s'"
  using assms
proof (rule timers_round_fire_all)
  fix es u c1 c2 c3
  assume fire: "fire_all (resend_effect env) tp (timers (timersCache s)) s = Some (es, u)"
    and s': "s' = u\<lparr>timersCache := c3\<rparr>"
  from fire have "hears_same s u"
    by (rule fire_all_rel [where R = hears_same, rotated 3])
      (auto simp: hears_same_def dest: resend_effect_hears)
  with s' show ?thesis by (simp add: hears_same_def)
qed

lemma postSend_hears:
  "postSendToDestination env error s = Done () s' \<Longrightarrow> hears_same s s'"
proof (cases error)
  case True
  moreover assume "postSendToDestination env error s = Done () s'"
  ultimately show ?thesis using postSend_failed [of env s s'] by (simp add: hears_same_def)
next
  case False
  moreover assume "postSendToDestination env error s = Done () s'"
  ultimately show ?thesis
    by (auto simp: postSendToDestination_def hears_same_def send_def startTimerToResend_def sendToDestination_def Let_def
        split: option.splits if_splits)
qed

lemma server_step_deaf:
  "server_step env y z \<Longrightarrow> \<not> readingStarted (srv y) \<Longrightarrow>
    \<not> readingStarted (srv z)"
proof (induction rule: server_step.induct)
  case (request i any y s)
  then show ?case using request_hears(1) by (fastforce simp: advance_def)
next
  case (request_message i m y s)
  then show ?case using request_hears(3) by (fastforce simp: advance_def)
next
  case (subscribe i ty y s)
  then show ?case using request_hears(2) by (fastforce simp: advance_def)
next
  case (sent y s)
  then show ?case using postSend_hears by (fastforce simp: settle_def hears_same_def)
next
  case (send_failed y s)
  then show ?case using postSend_hears by (fastforce simp: settle_def hears_same_def)
next
  case (timers tp restarts y s)
  then show ?case using round_hears by (fastforce simp: advance_def hears_same_def)
qed (simp_all add: settle_def)

lemma server_steps_deaf:
  "server_steps env y z \<Longrightarrow> \<not> readingStarted (srv y) \<Longrightarrow>
    \<not> readingStarted (srv z)"
  by (induction rule: server_steps.induct) (use server_step_deaf in fastforce)+

section \<open>A run for the witnesses\<close>

definition sample_start :: "(nat, nat, unit, nat) server_system" where
  "sample_start = \<lparr>srv = started_server sample_env [872415233 \<mapsto> (1, 7)] [] 0, accepted = []\<rparr>"

lemma sample_start_reachable: "server_reachable sample_env sample_start"
  unfolding sample_start_def by (rule server_reachable.start)

lemma sample_sent:
  obtains y where "server_reachable sample_env y" and "handedOver (srv y) = [((1, 7), [1])]"
    and "inFlight (srv y) \<noteq> []" and "messageQueue (srv y) \<noteq> []" and "transactionAndTimerID (srv y) 1 \<noteq> None"
    and "messageBufferLength (srv y) = 64" and "eventsCache (srv y) = []"
proof -
  let ?s = "srv sample_start"
  have s: "servicesEndpointsMap ?s 872415233 = Some (1, 7)" "messageQueue ?s = []" "parkedMessages ?s = []"
    "timersCache ?s = empty_timers_cache" "handedOver ?s = []" "randCalls ?s = 0" "inFlight ?s = []"
    "transactionAndTimerID ?s = Map.empty"
    by (simp_all add: sample_start_def started_server_def new_server_def startReading_def)
  have room: "timers_room ?s" using s(4) by (simp add: cache_inv_empty) (simp add: empty_timers_cache_def)
  let ?d = "\<lparr>serviceIdentifier = 872415233, endpoint = (1 :: nat, 7 :: u16)\<rparr>"
  obtain s1 t where run: "sendRequest sample_env 872415233 (Some 9) ?s = Done True s1"
    and codes: "transactionAndTimerID s1 =
      map_emplace (drawn_code (rand sample_env) 1000 (randCalls ?s)) t (transactionAndTimerID ?s)"
    and "handedOver s1 = handedOver ?s @ [(endpoint ?d, serialize sample_env (next_request sample_env (Some 9) ?s))]"
    using sendRequest_alone [OF known_destination [OF s(1)] s(2,3) room, of sample_env "Some 9"] by metis
  moreover have "serialize sample_env (next_request sample_env (Some 9) ?s) = [1]"
    using s(6) by (simp add: sample_env_def next_request_def drawn_code_def)
  ultimately have sent: "handedOver s1 = [((1, 7), [1])]" using s(5) by simp
  have traffic: "traffic sample_env ?s s1" 
    using request_traffic(1) [of sample_env 872415233 "Some 9" ?s s1] run by simp
  have "messageBufferLength s1 = 64 \<and> eventsCache s1 = []"
    using request_receiver [of sample_env 872415233 "Some 9" ?s s1] run
    by (simp add: sample_start_def started_server_def new_server_def startReading_def sample_env_def)
  moreover from traffic sent s(2,5,7) have "inFlight s1 \<noteq> []" and "messageQueue s1 \<noteq> []"
    by (auto simp: traffic_def split: if_splits)
  moreover have "server_step sample_env sample_start (advance sample_start s1)"
    using run by (intro server_step.request [where i = 872415233 and any = "Some 9"]) simp
  with sample_start_reachable have "server_reachable sample_env (advance sample_start s1)"
    by (rule server_reachable.step)
  moreover have "transactionAndTimerID s1 1 \<noteq> None"
    using codes s(6,8) sample_code by (simp add: map_emplace_def)
  ultimately show ?thesis using sent by (intro that [of "advance sample_start s1"]) (simp_all add: advance_def)
qed

section \<open>Properties\<close>

text \<open>C1:
  In every reachable state the datagrams handed to the socket so far are the serialised messages
  of a prefix of the accepted requests, each to its own endpoint, in the order of acceptance,
  none twice and none left out; the rest waits in the queue, except that the last datagram
  handed over stays at its head until its send completes; and at most that one datagram is on
  its way.
\<close>
theorem server_sends_fifo:
  assumes "server_reachable env y"
  shows "handedOver (srv y) = map (datagram_of env) (take (length (handedOver (srv y))) (accepted y)) \<and>
    messageQueue (srv y) = drop (length (handedOver (srv y)) - (if messageQueue (srv y) = [] then 0 else 1)) (accepted y) \<and>
    (inFlight (srv y) = [] \<or> inFlight (srv y) = [last (handedOver (srv y))] \<and> messageQueue (srv y) \<noteq> [])"
  using server_reachable_sending [OF assms] by (rule sending_inv_fifo)

theorem server_sends_fifo_witness:
  "\<exists>y. server_reachable sample_env y \<and> handedOver (srv y) = [((1, 7), [1])] \<and>
     handedOver (srv y) = map (datagram_of sample_env) (take 1 (accepted y)) \<and> messageQueue (srv y) = accepted y"
proof (rule sample_sent)
  fix y
  assume y: "server_reachable sample_env y" "handedOver (srv y) = [((1, 7), [1])]" "messageQueue (srv y) \<noteq> []"
  from server_sends_fifo [OF y(1)] y show ?thesis by (intro exI [of _ y]) simp
qed

text \<open>C39:
  When a send fails, the message stays at the head of the queue with nothing on its way, and that
  is final: whatever happens afterwards, requests, responses, resends, no datagram is ever
  handed to the socket again, and every further sendRequest that returns answers false.
\<close>
theorem send_error_wedges:
  assumes "server_reachable env y" and "inFlight (srv y) \<noteq> []"
    and "postSendToDestination env True (srv y) = Done () s" and "server_steps env (settle y s) z"
  shows "handedOver (srv z) = handedOver (srv y) \<and> messageQueue (srv z) \<noteq> [] \<and> inFlight (srv z) = [] \<and>
    (\<forall>i any b s'. sendRequest env i any (srv z) = Done b s' \<longrightarrow> b = False)"
proof -
  obtain sent where "traffic_ok env sent (srv y)"
    using server_reachable_sending [OF assms(1)] unfolding sending_inv_def by blast
  with assms(2) postSend_failed [OF assms(3)] have "wedged (srv (settle y s))"
    and "handedOver s = handedOver (srv y)"
    by (cases "messageQueue (srv y)"; auto simp: traffic_ok_def wedged_def settle_def)+
  with server_steps_wedged [OF assms(4)] have "wedged (srv z)" and "handedOver (srv z) = handedOver (srv y)"
    by (simp_all add: settle_def)
  then show ?thesis using busy_sender_answers_false by (fastforce simp: wedged_def)
qed

theorem send_error_wedges_witness:
  "\<exists>y s. server_reachable sample_env y \<and> postSendToDestination sample_env True (srv y) = Done () s \<and>
     handedOver s = [((1, 7), [1])] \<and> messageQueue s \<noteq> [] \<and> inFlight s = []"
proof (rule sample_sent)
  fix y
  assume y: "server_reachable sample_env y" "handedOver (srv y) = [((1, 7), [1])]" "inFlight (srv y) \<noteq> []"
  let ?s = "(srv y)\<lparr>inFlight := tl (inFlight (srv y))\<rparr>"
  have run: "postSendToDestination sample_env True (srv y) = Done () ?s"
    by (simp add: postSendToDestination_def processSendError_def)
  from send_error_wedges [OF y(1,3) run server_steps.refl] y(1,2) run show ?thesis
    by (intro exI [of _ y] exI [of _ ?s]) (simp add: settle_def)
qed

text \<open>
  A receive that completes with an error is the last one: no further receive is started, so no
  datagram can be received in any later state.
\<close>
lemma receive_error_deafens:
  assumes "postReceive env None (srv y) = Done () s" and "server_steps env (settle y s) z"
  shows "\<not> readingStarted (srv z)"
proof -
  from assms(1) have "s = (srv y)\<lparr>readingStarted := False\<rparr>"
    by (simp add: postReceive_def processHandleReceiveError_def Let_def)
  with server_steps_deaf [OF assms(2)] show ?thesis by (simp add: settle_def)
qed

end
