(* ===== verification/Server_Codes.thy ===== *)
theory Server_Codes
  imports Server_Traffic
begin

text \<open>
  The bookkeeping of open requests over any run: every transaction code on record belongs to a
  timer of the cache that waits with that code's message, so a success response always cancels
  a timer of its own code. And what a received datagram does.
\<close>

section \<open>The invariant\<close>

type_synonym ('addr, 'any) server_timer = "(server_callback, ('addr, 'any) parked_message option) timer"

definition resend_like :: "('addr, 'any) server_timer \<Rightarrow> bool" where
  "resend_like t \<longleftrightarrow> callbackFunction t = Some ResendMessage \<and> callbackParameters t \<noteq> None \<and> \<not> repeatable t"

definition waits_for :: "u32 \<Rightarrow> ('addr, 'any) server_timer \<Rightarrow> bool" where
  "waits_for code t \<longleftrightarrow> actionStatus t = Waiting \<and> (\<exists>p. callbackParameters t = Some p \<and>
     transactionCode p = code \<and> header_transactioncode (parkedMessage p) = code)"

definition codes_ok :: "('addr, 'any) server_timers \<Rightarrow> (u32 \<rightharpoonup> u32) \<Rightarrow> bool" where
  "codes_ok c codes \<longleftrightarrow> (\<forall>code i. codes code = Some i \<longrightarrow> (\<exists>t. lookup_timer c i = Some t \<and> waits_for code t))"

definition user_like :: "('addr, 'any) server_timer \<Rightarrow> bool" where
  "user_like t \<longleftrightarrow> (\<exists>n. callbackFunction t = Some (UserCallback n)) \<and> callbackParameters t = None"

text \<open>
  The state of the server, whose cache holds timers of an admissible kind: the server's own, or
  those of the user's program as well.
\<close>

definition server_consistent :: "(('addr, 'any) server_timer \<Rightarrow> bool) \<Rightarrow> ('addr, 'any, 'h, 'w) server \<Rightarrow> bool" where
  "server_consistent admissible s \<longleftrightarrow> parkedMessages s = [] \<and> cache_inv (timersCache s) \<and> \<not> timersLock (timersCache s) \<and>
     (\<forall>i t. lookup_timer (timersCache s) i = Some t \<longrightarrow> admissible t) \<and>
     codes_ok (timersCache s) (transactionAndTimerID s)"

abbreviation server_ok :: "('addr, 'any, 'h, 'w) server \<Rightarrow> bool" where
  "server_ok \<equiv> server_consistent resend_like"

lemma server_okD:
  assumes "server_consistent L s"
  shows "parkedMessages s = []" and "cache_inv (timersCache s)" and "\<not> timersLock (timersCache s)"
    and "\<And>i t. lookup_timer (timersCache s) i = Some t \<Longrightarrow> L t"
    and "codes_ok (timersCache s) (transactionAndTimerID s)"
  using assms unfolding server_consistent_def by blast+

lemma server_ok_start: "server_consistent L (started_server env endpoints events w)"
  by (simp add: server_consistent_def started_server_def new_server_def startReading_def cache_inv_empty codes_ok_def)
    (simp add: empty_timers_cache_def lookup_timer_def)

lemma server_ok_frame:
  "server_consistent L s \<Longrightarrow> parkedMessages s' = parkedMessages s \<Longrightarrow> timersCache s' = timersCache s \<Longrightarrow>
    transactionAndTimerID s' = transactionAndTimerID s \<Longrightarrow> server_consistent L s'"
  by (simp add: server_consistent_def)

lemma server_ok_entries:
  "server_consistent L s \<Longrightarrow> e \<in> set (timers (timersCache s)) \<Longrightarrow> L (snd e)"
  using lookup_timer_iff [OF server_okD(2), of L s "entry_id e" "snd e"] server_okD(4) [of L s] by blast

text \<open>What the operations need of the admissible kinds.\<close>

locale timer_kinds =
  fixes admissible :: "('addr, 'any) server_timer \<Rightarrow> bool"
  assumes own_timers: "resend_like t \<Longrightarrow> admissible t"
    and only_kinds: "admissible t \<Longrightarrow> resend_like t \<or> user_like t"
    and any_status: "admissible t \<Longrightarrow> admissible (t\<lparr>actionStatus := a\<rparr>)"
    and any_start: "admissible t \<Longrightarrow> admissible (t\<lparr>startTimestamp := k\<rparr>)"

section \<open>Sending and receiving keep it\<close>

lemma resend_timer_like: "resend_like (setTimerID i (resend_timer env start d m))"
  by (simp add: resend_like_def resend_timer_def op_defs)

lemma resend_timer_waits: "waits_for (header_transactioncode m) (setTimerID i (resend_timer env start d m))"
  by (simp add: waits_for_def resend_timer_def op_defs)

lemma codes_ok_register:
  assumes "codes_ok c codes" and "lookup_timer c i = None" and "lookup_timer c' = (lookup_timer c)(i \<mapsto> t)"
    and "waits_for code t"
  shows "codes_ok c' (map_emplace code i codes)"
proof -
  have kept: "\<exists>t. lookup_timer c' j = Some t \<and> waits_for k t" if "codes k = Some j" for k j
  proof -
    from assms(1) that obtain u where "lookup_timer c j = Some u" and "waits_for k u"
      unfolding codes_ok_def by blast
    with assms(2,3) show ?thesis by auto
  qed
  show ?thesis
    unfolding codes_ok_def
  proof (intro allI impI)
    fix k j
    assume "map_emplace code i codes k = Some j"
    then consider "codes k = Some j" | "k = code" and "j = i"
      by (auto simp: map_emplace_def split: if_splits)
    then show "\<exists>t. lookup_timer c' j = Some t \<and> waits_for k t"
      using kept assms(3,4) by cases auto
  qed
qed

context timer_kinds
begin

lemma after_send_kept:
  assumes ok: "server_consistent admissible s" and reg: "registerTimer (Some (resend_timer env start d m)) (timersCache s) = Some (i, c)"
    and same: "parkedMessages u = parkedMessages s" "transactionAndTimerID u = transactionAndTimerID s"
  shows "server_consistent admissible (after_send env d m i c u)"
proof -
  let ?t = "setTimerID i (resend_timer env start d m)"
  have law: "cache_inv c" "lookup_timer (timersCache s) i = None" "lookup_timer c = (lookup_timer (timersCache s))(i \<mapsto> ?t)"
    using tc.register_law [OF server_okD(2) [OF ok] reg] by simp_all
  moreover have "\<not> timersLock c" using reg server_okD(3) [OF ok] by (simp add: registerTimer_iff)
  moreover have "admissible t" if "lookup_timer c j = Some t" for j t
    using that law(3) server_okD(4) [OF ok] own_timers [OF resend_timer_like] by (auto split: if_splits)
  moreover have "codes_ok c (map_emplace (header_transactioncode m) i (transactionAndTimerID s))"
    using server_okD(5) [OF ok] law(2,3) resend_timer_waits by (rule codes_ok_register)
  ultimately show ?thesis using server_okD(1) [OF ok] same by (simp add: server_consistent_def after_send_def)
qed

lemma pushAndSend_kept:
  assumes ok: "server_consistent admissible s" and run: "leaves (pushAndSend env d m s) = Some s'"
  shows "server_consistent admissible s'"
proof (cases "messageQueue s")
  case Nil
  with run obtain i c where "registerTimer (Some (resend_timer env (now s) d m)) (timersCache s) = Some (i, c)"
    and "s' = after_send env d m i c (s\<lparr>messageQueue := [(d, m)]\<rparr>)"
    by (auto simp: pushAndSend_result split: option.splits)
  with after_send_kept [OF ok this(1), of "s\<lparr>messageQueue := [(d, m)]\<rparr>"] show ?thesis by simp
next
  case (Cons dm q)
  with run have "s' = s\<lparr>messageQueue := messageQueue s @ [(d, m)]\<rparr>"
    by (simp add: pushAndSend_result Let_def)
  with ok show ?thesis by (intro server_ok_frame [OF ok]) simp_all
qed

lemma request_kept:
  "server_consistent admissible s \<Longrightarrow> leaves (sendRequest env i any s) = Some s' \<Longrightarrow> server_consistent admissible s'"
  "server_consistent admissible s \<Longrightarrow> leaves (sendSubscribeRequest env i ty s) = Some s' \<Longrightarrow> server_consistent admissible s'"
  "server_consistent admissible s \<Longrightarrow> leaves (sendRequestMessage env i m s) = Some s' \<Longrightarrow> server_consistent admissible s'"
proof -
  assume ok: "server_consistent admissible s"
  have drawn: "server_consistent admissible (s\<lparr>randCalls := n\<rparr>)" for n by (rule server_ok_frame [OF ok]) simp_all
  show "server_consistent admissible s'" if "leaves (sendRequest env i any s) = Some s'"
    using that [unfolded sendRequest_def]
    by (rule drawn_request_cases) (use ok drawn pushAndSend_kept in blast)+
  show "server_consistent admissible s'" if "leaves (sendSubscribeRequest env i ty s) = Some s'"
    using that [unfolded sendSubscribeRequest_def]
    by (rule drawn_request_cases) (use ok drawn pushAndSend_kept in blast)+
  show "server_consistent admissible s'" if "leaves (sendRequestMessage env i m s) = Some s'"
    using that by (rule sendRequestMessage_cases) (use ok pushAndSend_kept in blast)+
qed

lemma send_kept:
  assumes ok: "server_consistent admissible s" and run: "send env s = Done () s'"
  shows "server_consistent admissible s'"
proof (cases "messageQueue s")
  case Nil
  with run show ?thesis by (simp add: send_def)
next
  case (Cons dm q)
  obtain d m where "dm = (d, m)" by fastforce
  with Cons run send_result [of s d m q env] obtain i c
    where "registerTimer (Some (resend_timer env (now s) d m)) (timersCache s) = Some (i, c)"
      and "s' = after_send env d m i c s"
    by (auto split: option.splits)
  with after_send_kept [OF ok this(1), of s] show ?thesis by simp
qed

lemma postSend_kept:
  assumes ok: "server_consistent admissible s" and run: "postSendToDestination env error s = Done () s'"
  shows "server_consistent admissible s'"
proof -
  have framed: "server_consistent admissible (s\<lparr>inFlight := x, messageQueue := q\<rparr>)" "server_consistent admissible (s\<lparr>inFlight := x\<rparr>)" for x q
    by (rule server_ok_frame [OF ok]; simp)+
  show ?thesis
  proof (cases error)
    case True
    with run framed(2) show ?thesis by (auto simp: postSendToDestination_def processSendError_def Let_def)
  next
    case False
    with run obtain q where "s' = s\<lparr>inFlight := tl (inFlight s), messageQueue := q\<rparr> \<or>
        send env (s\<lparr>inFlight := tl (inFlight s), messageQueue := q\<rparr>) = Done () s'"
      by (auto simp: postSendToDestination_def Let_def split: option.splits if_splits)
    with framed(1) send_kept [OF framed(1)] show ?thesis by blast
  qed
qed

lemma handleResponse_kept:
  assumes ok: "server_consistent admissible s" and run: "handleResponse m s = Done () s'"
  shows "server_consistent admissible s'"
proof (cases "s' = s")
  case False
  let ?code = "header_transactioncode m"
  from False run have "has_response m" and "msgResponse m = Some Success" and "transactionAndTimerID s ?code \<noteq> None"
    by (auto simp: handleResponse_def Let_def split: if_splits option.splits)
  then obtain i where i: "transactionAndTimerID s ?code = Some i"
    and s': "s' = s\<lparr>timersCache := the (removeTimer i (timersCache s)),
         transactionAndTimerID := (transactionAndTimerID s)(?code := None)\<rparr>"
    using run handleResponse_success [of m s] server_okD(3) [OF ok] by auto
  note look = removed_lookup [OF server_okD(2,3) [OF ok], of i]
  have "codes_ok (the (removeTimer i (timersCache s))) ((transactionAndTimerID s)(?code := None))"
    unfolding codes_ok_def
  proof (intro allI impI)
    fix code j
    assume j: "((transactionAndTimerID s)(?code := None)) code = Some j"
    then have neq: "code \<noteq> ?code" and j': "transactionAndTimerID s code = Some j" by (auto split: if_splits)
    from j' obtain t where t: "lookup_timer (timersCache s) j = Some t" "waits_for code t"
      using server_okD(5) [OF ok] unfolding codes_ok_def by blast
    from i obtain u where "lookup_timer (timersCache s) i = Some u" "waits_for ?code u"
      using server_okD(5) [OF ok] unfolding codes_ok_def by blast
    with t neq have "j \<noteq> i" by (auto simp: waits_for_def)
    with t look(1) show "\<exists>t. lookup_timer (the (removeTimer i (timersCache s))) j = Some t \<and> waits_for code t" by simp
  qed
  with look server_okD(1,4) [OF ok] s' show ?thesis
    by (auto simp: server_consistent_def split: if_splits)
qed (use ok in simp)

lemma postReceive_kept:
  assumes ok: "server_consistent admissible s" and run: "postReceive env datagram s = Done () s'"
  shows "server_consistent admissible s'"
proof -
  have framed: "server_consistent admissible (s\<lparr>readingStarted := b\<rparr>)" "server_consistent admissible (s\<lparr>readingStarted := b, handlersWorld := w\<rparr>)" for b w
    by (rule server_ok_frame [OF ok]; simp)+
  show ?thesis
    using run framed handleResponse_kept [of "s\<lparr>readingStarted := True\<rparr>" _ s']
    by (auto simp: postReceive_def processHandleReceiveError_def startReading_def handleRequest_def Let_def
        split: option.splits if_splits)
qed

end

section \<open>A round keeps it\<close>

lemma locked_resend_codes:
  "cb_state (locked_resend env (Some p) s) = Some s' \<Longrightarrow>
    transactionAndTimerID s' = (transactionAndTimerID s)(transactionCode p := None) \<and>
    timersCache s' = timersCache s \<and> parkedMessages s' = parkedMessages s"
  by (auto simp: locked_resend_def cb_state_def forget_code_def Let_def
      split: option.splits outcome.splits if_splits)

text \<open>A resend timer forgets its code; a callback of the user leaves the codes alone.\<close>

lemma run_callback_codes:
  assumes "resend_like (snd e) \<or> user_like (snd e)"
    and "runCallbackFunction (resend_effect env) (snd e) s = (t, r)" and "cb_state r = Some v"
  shows "timersCache v = timersCache s \<and> parkedMessages v = parkedMessages s \<and>
    transactionAndTimerID v = (if resend_like (snd e)
      then (transactionAndTimerID s)(transactionCode (entry_parked e) := None) else transactionAndTimerID s)"
proof (cases "resend_like (snd e)")
  case True
  then have e: "callbackFunction (snd e) = Some ResendMessage" "callbackParameters (snd e) = Some (entry_parked e)"
    by (auto simp: resend_like_def entry_parked_def)
  with assms(2) have "r = locked_resend env (Some (entry_parked e)) s"
    by (auto simp: runCallbackFunction_def resend_effect_def Let_def split: cb_outcome.splits)
  with assms(3) locked_resend_codes True show ?thesis by auto
next
  case False
  with assms(1) obtain n where e: "callbackFunction (snd e) = Some (UserCallback n)" by (auto simp: user_like_def)
  with assms(2) have "r = runUserCallback env n (locked_requests env (user_requests env n) s)"
    by (auto simp: runCallbackFunction_def resend_effect_def Let_def split: cb_outcome.splits)
  with assms(3) user_callback_frame [of env n "user_requests env n" s v] False show ?thesis by auto
qed

lemma fire_all_codes:
  "fire_all (resend_effect env) tp es s = Some (es', u) \<Longrightarrow>
    \<forall>e \<in> set es. resend_like (snd e) \<or> user_like (snd e) \<Longrightarrow>
    timersCache u = timersCache s \<and> parkedMessages u = parkedMessages s \<and>
    (\<forall>code. transactionAndTimerID u code =
       (if \<exists>e \<in> set es. resend_like (snd e) \<and> due tp (snd e) \<and> transactionCode (entry_parked e) = code
        then None else transactionAndTimerID s code))"
proof (induction es arbitrary: es' s)
  case (Cons e es)
  show ?case
  proof (cases "due tp (snd e)")
    case False
    with Cons.prems obtain es2 where rest: "fire_all (resend_effect env) tp es s = Some (es2, u)"
      by (auto split: option.splits)
    have "\<forall>e \<in> set es. resend_like (snd e) \<or> user_like (snd e)" using Cons.prems(2) by simp
    from Cons.IH [OF rest this] False show ?thesis by simp
  next
    case True
    obtain t r where run: "runCallbackFunction (resend_effect env) (snd e) s = (t, r)" by fastforce
    with True Cons.prems obtain v es2 where v: "cb_state r = Some v"
      and rest: "fire_all (resend_effect env) tp es v = Some (es2, u)"
      by (auto split: option.splits)
    from Cons.prems(2) have kinds: "resend_like (snd e) \<or> user_like (snd e)"
      and "\<forall>e \<in> set es. resend_like (snd e) \<or> user_like (snd e)" by simp_all
    from Cons.IH [OF rest this(2)] run_callback_codes [OF kinds run v] True show ?thesis by auto
  qed
qed simp

lemma fired_origin:
  assumes "triggerExpiredTimers call tp c w = Some (c1, u)" and "e1 \<in> set (timers c1)"
  shows "\<exists>e \<in> set (timers c). fired call tp e e1"
proof -
  obtain zs where zs: "c1 = c\<lparr>timers := zs\<rparr>" and all: "list_all2 (fired call tp) (timers c) zs"
    using triggerExpiredTimers_fired [OF assms(1)] by blast
  from assms(2) zs obtain n where "n < length zs" and "e1 = zs ! n"
    by (auto simp: in_set_conv_nth)
  with all show ?thesis by (intro bexI [of _ "timers c ! n"]) (auto simp: list_all2_conv_all_nth)
qed

context timer_kinds
begin

lemma fired_kind: "fired call tp e e1 \<Longrightarrow> admissible (snd e) \<Longrightarrow> admissible (snd e1)"
  using any_status by (auto simp: fired_def split: if_splits)

lemma restarted_kind: "admissible t \<Longrightarrow> admissible (restarted k t)"
  using any_start [OF any_status, of t k Waiting] by (simp add: restarted_def)

lemma round_kept:
  assumes ok: "server_consistent admissible s" and run: "server_timers_round env tp restarts s = Some s'"
  shows "server_consistent admissible s'"
  using run
proof (rule timers_round_fire_all)
  fix es u c1 c2 c3
  assume fire: "fire_all (resend_effect env) tp (timers (timersCache s)) s = Some (es, u)"
    and trig: "triggerExpiredTimers (resend_call env) tp (timersCache s) s = Some (c1, u)"
    and r: "restartRepeatableTimers restarts c1 = Some c2" and e: "removeEndedTimers c2 = Some c3"
    and s': "s' = u\<lparr>timersCache := c3\<rparr>"
  let ?c = "timersCache s"
  have kinds: "\<forall>e \<in> set (timers ?c). admissible (snd e)" using server_ok_entries [OF ok] by blast
  then have like: "\<forall>e \<in> set (timers ?c). resend_like (snd e) \<or> user_like (snd e)" using only_kinds by blast
  note inv = server_okD(2) [OF ok]
  have inv1: "cache_inv c1" using inv trig by (rule triggerExpiredTimers_inv)
  have inv3: "cache_inv c3" using inv1 r e restartRepeatableTimers_inv removeEndedTimers_inv by blast
  have unlocked: "\<not> timersLock c3" using r e by (auto simp: restartRepeatableTimers_def removeEndedTimers_def split: if_splits)
  note c3 = restart_then_remove [OF r e]
  have kinds1: "admissible (snd e1)" if "e1 \<in> set (timers c1)" for e1
    using fired_origin [OF trig that] kinds fired_kind by blast
  have kinds3: "admissible t" if "lookup_timer c3 i = Some t" for i t
  proof -
    from that obtain k3 where k3: "(k3, t) \<in> set (timers c3)" using lookup_timer_iff [OF inv3] by auto
    then consider "(k3, t) \<in> set (timers c1)"
      | k v where "(k, v) \<in> set (enumerate 0 (map snd (filter to_restart (timers c1))))" and "t = restarted (restarts k) v"
      unfolding c3 by auto
    then show ?thesis
    proof cases
      case 1
      then show ?thesis using kinds1 by fastforce
    next
      case (2 k v)
      then obtain d where "d \<in> set (timers c1)" and "v = snd d" using enumerate_memD [OF 2(1)] by auto
      with kinds1 restarted_kind 2(2) show ?thesis by blast
    qed
  qed
  note codes = fire_all_codes [OF fire like]
  have "codes_ok c3 (transactionAndTimerID u)"
    unfolding codes_ok_def
  proof (intro allI impI)
    fix code j
    assume "transactionAndTimerID u code = Some j"
    with codes have j: "transactionAndTimerID s code = Some j"
      and alive: "\<forall>e \<in> set (timers ?c). resend_like (snd e) \<and> due tp (snd e) \<longrightarrow> transactionCode (entry_parked e) \<noteq> code"
      by (auto split: if_splits)
    from j obtain t where t: "lookup_timer ?c j = Some t" "waits_for code t"
      using server_okD(5) [OF ok] unfolding codes_ok_def by blast
    then obtain k where k: "(k, t) \<in> set (timers ?c)" using lookup_timer_iff [OF inv] by auto
    with like t(2) have "resend_like t" by (fastforce simp: user_like_def waits_for_def)
    with alive t(2) k have idle: "\<not> due tp t" by (auto simp: waits_for_def entry_parked_def)
    from triggerExpiredTimers_lookup [OF inv trig t(1)] idle have "lookup_timer c1 j = Some t"
      by (auto simp: fired_def)
    then obtain k1 where "(k1, t) \<in> set (timers c1)" and id: "timerID t = j"
      using lookup_timer_iff [OF inv1] by auto
    moreover have "actionStatus t \<noteq> Ended" using t(2) by (simp add: waits_for_def)
    ultimately have "(k1, t) \<in> set (timers c3)" unfolding c3 by simp
    with id have "t \<in> snd ` set (timers c3) \<and> timerID t = j" by force
    with t(2) show "\<exists>t. lookup_timer c3 j = Some t \<and> waits_for code t"
      using lookup_timer_iff [OF inv3] by blast
  qed
  then show ?thesis
    using codes server_okD(1) [OF ok] inv3 unlocked kinds3 s' by (simp add: server_consistent_def)
qed

lemma server_step_kept:
  "server_step env y z \<Longrightarrow> server_consistent admissible (srv y) \<Longrightarrow> server_consistent admissible (srv z)"
proof (induction rule: server_step.induct)
  case (request i any y s)
  then show ?case using request_kept(1) by (simp add: advance_def)
next
  case (request_message i m y s)
  then show ?case using request_kept(3) by (simp add: advance_def)
next
  case (subscribe i ty y s)
  then show ?case using request_kept(2) by (simp add: advance_def)
next
  case (sent y s)
  then show ?case using postSend_kept by (simp add: settle_def)
next
  case (send_failed y s)
  then show ?case using postSend_kept by (simp add: settle_def)
next
  case (received y datagram s)
  then show ?case using postReceive_kept by (simp add: settle_def)
next
  case (timers tp restarts y s)
  then show ?case using round_kept by (simp add: advance_def)
next
  case (time y later)
  then show ?case using server_ok_frame [of admissible "srv y" "(srv y)\<lparr>now := later\<rparr>"] by (simp add: settle_def)
qed

end

text \<open>The server alone, and the server with the user's timers in the same cache.\<close>

interpretation own: timer_kinds resend_like
  by unfold_locales (auto simp: resend_like_def)

interpretation shared: timer_kinds "\<lambda>t. resend_like t \<or> user_like t"
  by unfold_locales (auto simp: resend_like_def user_like_def)

lemma server_reachable_ok: "server_reachable env y \<Longrightarrow> server_ok (srv y)"
  by (induction rule: server_reachable.induct) (auto simp: server_ok_start own.server_step_kept)

section \<open>Properties\<close>

text \<open>C9:
  In every reachable state nothing is parked, the cache is consistent and unlocked, and every
  transaction code on record maps to a timer of the cache that is waiting and carries the
  message of that very code: the header of the message it would send again has the code, and so
  has the copy of the code beside it. So a success response with a code on record always returns, and
  takes out of the cache a timer of its own code.
\<close>
theorem open_codes_have_timers:
  assumes "server_reachable env y" and "transactionAndTimerID (srv y) code = Some i"
  shows "parkedMessages (srv y) = [] \<and> cache_inv (timersCache (srv y)) \<and>
    (\<exists>t p s'. lookup_timer (timersCache (srv y)) i = Some t \<and> getActionStatus t = Waiting \<and>
       getCallbackParameters t = Some p \<and> transactionCode p = code \<and>
       header_transactioncode (parkedMessage p) = code \<and>
       handleResponse (success_response sender code) (srv y) = Done () s' \<and>
       lookup_timer (timersCache s') i = None \<and> transactionAndTimerID s' code = None)"
proof -
  have ok: "server_ok (srv y)" using assms(1) by (rule server_reachable_ok)
  then obtain t where "lookup_timer (timersCache (srv y)) i = Some t" and "waits_for code t"
    using assms(2) server_okD(5) unfolding codes_ok_def by blast
  then show ?thesis
    using server_okD(1,2) [OF ok] handleResponse_success [of "success_response sender code" "srv y"]
      server_okD(3) [OF ok] assms(2) removed_lookup(1) [OF server_okD(2,3) [OF ok], of i]
    by (auto simp: waits_for_def op_defs)
qed

theorem open_codes_have_timers_witness:
  "\<exists>y i t p s'. server_reachable sample_env y \<and> transactionAndTimerID (srv y) 1 = Some i \<and>
     lookup_timer (timersCache (srv y)) i = Some t \<and> getCallbackParameters t = Some p \<and>
     header_transactioncode (parkedMessage p) = 1 \<and> parkedMessage p \<noteq> empty_message \<and>
     handleResponse (success_response 872415233 1) (srv y) = Done () s' \<and>
     lookup_timer (timersCache s') i = None"
proof (rule sample_sent)
  fix y
  assume reach: "server_reachable sample_env y" and "transactionAndTimerID (srv y) 1 \<noteq> None"
  then obtain i where code: "transactionAndTimerID (srv y) 1 = Some i" by blast
  have "parkedMessage p \<noteq> empty_message" if "header_transactioncode (parkedMessage p) = 1" for p :: "(nat, nat) parked_message"
    using that by (auto simp: message_defs)
  with open_codes_have_timers [OF reach code, of 872415233] reach code show ?thesis by blast
qed

text \<open>What a response that arrives leaves of the server.\<close>

definition response_effect :: "'any message \<Rightarrow> ('addr, 'any, 'h, 'w) server \<Rightarrow> ('addr, 'any, 'h, 'w) server \<Rightarrow> bool" where
  "response_effect m s s' \<longleftrightarrow>
     (if msgResponse m = Some Success \<and> transactionAndTimerID s (header_transactioncode m) \<noteq> None then
        (\<exists>c. cache_inv c \<and>
          lookup_timer c = (lookup_timer (timersCache s))(the (transactionAndTimerID s (header_transactioncode m)) := None) \<and>
          s' = s\<lparr>readingStarted := True, timersCache := c,
            transactionAndTimerID := (transactionAndTimerID s)(header_transactioncode m := None)\<rparr>)
      else s' = s\<lparr>readingStarted := True\<rparr>)"

lemma response_effect:
  assumes "cache_inv (timersCache s)" and "\<not> timersLock (timersCache s)"
  shows "\<exists>s'. handleResponse m (s\<lparr>readingStarted := True\<rparr>) = Done () s' \<and> response_effect m s s'"
proof (cases "msgResponse m = Some Success")
  case True
  let ?s = "s\<lparr>readingStarted := True\<rparr>"
  from True have "has_response m" by (simp add: has_response_def)
  with True assms show ?thesis
    using handleResponse_success [of m ?s] removed_lookup [of "timersCache s"]
    by (cases "transactionAndTimerID s (header_transactioncode m)") (auto simp: response_effect_def)
next
  case False
  then show ?thesis by (simp add: handleResponse_def response_effect_def)
qed

lemma response_effectD:
  "response_effect m s s' \<Longrightarrow> readingStarted s' \<and> messageQueue s' = messageQueue s \<and>
    inFlight s' = inFlight s \<and> handedOver s' = handedOver s"
  by (auto simp: response_effect_def split: if_splits)

text \<open>C29:
  A datagram that arrives at a server with a consistent, unlocked cache and no null events is
  always handled to the end, and the next receive is pending; the send queue and the socket
  are untouched. What the parser makes of the bytes that fit the buffer decides: a request runs
  exactly the accepting handlers of its sender, in order of registration, and leaves timers and
  codes alone; a success response whose code is on record takes the timer of that code out of the
  cache, no other, forgets the code, and changes nothing else; any other response, anything else, and bytes that do not parse or have no
  header, changes nothing but the pending receive.
\<close>
theorem receive_dispatch:
  assumes "cache_inv (timersCache s)" and "\<not> timersLock (timersCache s)" and "events_ok (eventsCache s)"
  shows "\<exists>s'. postReceive env (Some d) s = Done () s' \<and> readingStarted s' \<and>
    messageQueue s' = messageQueue s \<and> inFlight s' = inFlight s \<and> handedOver s' = handedOver s \<and>
    (case parse env (take (messageBufferLength s) d) of
       None \<Rightarrow> s' = s\<lparr>readingStarted := True\<rparr>
     | Some m \<Rightarrow>
        (let any = request_payload (default_any env) m
         in if has_header m \<and> has_request m then
              s' = s\<lparr>readingStarted := True, handlersWorld :=
                fold (\<lambda>h. handler_run env h any)
                  (filter (\<lambda>h. handler_validate env h any) (handlers_of (header_senderidentifier m) (eventsCache s)))
                  (handlersWorld s)\<rparr>
            else if has_header m \<and> has_response m then
              response_effect m s s'
            else s' = s\<lparr>readingStarted := True\<rparr>))"
proof (cases "parse env (take (messageBufferLength s) d)")
  case None
  then show ?thesis by (simp add: postReceive_def startReading_def Let_def)
next
  case (Some m)
  let ?s = "s\<lparr>readingStarted := True\<rparr>"
  have run: "postReceive env (Some d) s =
      (if has_header m then (if has_request m then handleRequest env m ?s
         else if has_response m then handleResponse m ?s else Done () ?s) else Done () ?s)"
    using Some by (simp add: postReceive_def startReading_def Let_def)
  have "handleRequest env m ?s = Done () (?s\<lparr>handlersWorld :=
      fold (\<lambda>h. handler_run env h (request_payload (default_any env) m))
        (filter (\<lambda>h. handler_validate env h (request_payload (default_any env) m))
          (handlers_of (header_senderidentifier m) (eventsCache s))) (handlersWorld s)\<rparr>)"
    by (simp add: handleRequest_def ec.dispatch_law [OF assms(3)])
  moreover obtain s' where "handleResponse m ?s = Done () s'" and "response_effect m s s'"
    using response_effect [OF assms(1,2)] by blast
  ultimately show ?thesis using run Some response_effectD [of m s s']
    by (auto simp: Let_def response_effect_def)
qed

text \<open>
  The answer to the one open request cancels its timer; a request runs the handler that accepts it
  and not the other; bytes that do not parse change nothing.
\<close>

definition picky_env :: "(nat, nat, nat, nat) server_env" where
  "picky_env = \<lparr>moduleIdentifier = 1, configured = configured sample_env, rand = (\<lambda>k. k), databaseInitialised = False,
     find_one = (\<lambda>_. Inr None), address_from_string = (\<lambda>_. None), serialize = (\<lambda>m. []),
     parse = (\<lambda>b. Some (makeRequestMessage 7 (Some 9) 1)), default_any = 0, socket_open_ok = True,
     socket_bind_ok = (\<lambda>port. True), handler_validate = (\<lambda>h a. h \<noteq> 3), handler_run = (\<lambda>h a w. w * 10 + h),
     user_requests = (\<lambda>n. []), user_callback = (\<lambda>n w. Returned w)\<rparr>"

definition picky_server :: "(nat, nat, nat, nat) server" where
  "picky_server = started_server picky_env Map.empty
     (map (\<lambda>(i, h). (i, Some (MessageReceiveEvent (Some h)))) [(7, 3), (7, 4), (7, 6), (8, 5)]) 1"

theorem receive_dispatch_witness:
  "(\<exists>s'. postReceive sample_env (Some [1, 2]) (srv sample_start) = Done () s' \<and>
     s' = (srv sample_start)\<lparr>readingStarted := True\<rparr>) \<and>
   (\<exists>y i t s'. server_reachable sample_env y \<and> transactionAndTimerID (srv y) 1 = Some i \<and>
     lookup_timer (timersCache (srv y)) i = Some t \<and> postReceive sample_env (Some [1]) (srv y) = Done () s' \<and>
     lookup_timer (timersCache s') i = None \<and> transactionAndTimerID s' 1 = None) \<and>
   (\<exists>s'. postReceive picky_env (Some [1]) picky_server = Done () s' \<and> handlersWorld s' = 146)"
proof (intro conjI)
  have pre: "cache_inv (timersCache (srv sample_start))" "\<not> timersLock (timersCache (srv sample_start))"
    "events_ok (eventsCache (srv sample_start))"
    by (simp_all add: sample_start_def started_server_def new_server_def startReading_def cache_inv_empty events_ok_def)
      (simp add: empty_timers_cache_def)
  have "parse sample_env (take (messageBufferLength (srv sample_start)) [1, 2]) = None"
    by (simp add: sample_start_def started_server_def startReading_def sample_env_def)
  with receive_dispatch [OF pre, of sample_env "[1, 2]"]
  show "\<exists>s'. postReceive sample_env (Some [1, 2]) (srv sample_start) = Done () s' \<and>
     s' = (srv sample_start)\<lparr>readingStarted := True\<rparr>" by auto
next
  show "\<exists>y i t s'. server_reachable sample_env y \<and> transactionAndTimerID (srv y) 1 = Some i \<and>
     lookup_timer (timersCache (srv y)) i = Some t \<and> postReceive sample_env (Some [1]) (srv y) = Done () s' \<and>
     lookup_timer (timersCache s') i = None \<and> transactionAndTimerID s' 1 = None"
  proof (rule sample_sent)
    fix y
    assume reach: "server_reachable sample_env y" and "transactionAndTimerID (srv y) 1 \<noteq> None"
      and buffer: "messageBufferLength (srv y) = 64" and "eventsCache (srv y) = []"
    then obtain i where code: "transactionAndTimerID (srv y) 1 = Some i" and events: "events_ok (eventsCache (srv y))"
      by (auto simp: events_ok_def)
    note ok = server_reachable_ok [OF reach]
    from code server_okD(5) [OF ok] obtain t where t: "lookup_timer (timersCache (srv y)) i = Some t"
      unfolding codes_ok_def by blast
    have parsed: "parse sample_env (take (messageBufferLength (srv y)) [1]) = Some (success_response 0 1)"
      by (simp add: buffer sample_env_def)
    have kind: "has_header (success_response 0 1 :: nat message)" "\<not> has_request (success_response 0 1 :: nat message)"
      by (simp_all add: success_response_def message_defs)
    from receive_dispatch [OF server_okD(2,3) [OF ok] events, of sample_env "[1]"] parsed code kind
    obtain s' where "postReceive sample_env (Some [1]) (srv y) = Done () s'"
      and "lookup_timer (timersCache s') i = None" and "transactionAndTimerID s' 1 = None"
      by (auto simp: Let_def response_effect_def)
    then show ?thesis using reach code t by (intro exI [of _ y] exI [of _ i] exI [of _ t] exI [of _ s']) simp
  qed
next
  have pre: "cache_inv (timersCache picky_server)" "\<not> timersLock (timersCache picky_server)"
    "events_ok (eventsCache picky_server)"
    by (simp_all add: picky_server_def started_server_def new_server_def startReading_def cache_inv_empty events_ok_def)
      (simp add: empty_timers_cache_def)
  have m: "parse picky_env b = Some (makeRequestMessage 7 (Some 9) 1)" for b by (simp add: picky_env_def)
  from receive_dispatch [OF pre, of picky_env "[1]"]
  show "\<exists>s'. postReceive picky_env (Some [1]) picky_server = Done () s' \<and> handlersWorld s' = 146"
    by (auto simp: m message_defs)
      (simp add: picky_env_def picky_server_def started_server_def startReading_def new_server_def handlers_of_def)
qed

end
