(* ===== verification/Managers.thy ===== *)
theory Managers
  imports Server_Codes
begin

text \<open>
  The static managers through which the user's program reaches the module: Module::Manager,
  ModuleTimersManager and ModuleConnectionManager. Each is a static pointer that is null until
  initialize; using the object of a null pointer is undefined behaviour.
\<close>

section \<open>Module::Manager\<close>

text \<open>The instance: null, or a manager whose shared pointer to the server is set or null.\<close>

type_synonym manager_instance = "bool option"

definition manager_initialize :: "bool \<Rightarrow> bool \<Rightarrow> manager_instance \<Rightarrow> bool \<times> manager_instance" where
  "manager_initialize allocated server_set inst =
     (case inst of
        None \<Rightarrow> (if allocated then (True, Some server_set) else (False, None))
      | Some m \<Rightarrow> (True, Some m))"

definition manager_sendRequest ::
    "('addr, 'any, 'h, 'w) server_env \<Rightarrow> manager_instance \<Rightarrow> i32 \<Rightarrow> 'any option \<Rightarrow> ('addr, 'any, 'h, 'w) server
      \<Rightarrow> ('addr, 'any, 'h, 'w, bool) server_result" where
  "manager_sendRequest env inst i request s =
     (case inst of
        None \<Rightarrow> Done False s
      | Some server_set \<Rightarrow> if \<not> server_set then Done False s else sendRequest env i request s)"

definition manager_sendSubscribeRequest ::
    "('addr, 'any, 'h, 'w) server_env \<Rightarrow> manager_instance \<Rightarrow> i32 \<Rightarrow> string \<Rightarrow> ('addr, 'any, 'h, 'w) server
      \<Rightarrow> ('addr, 'any, 'h, 'w, bool) server_result" where
  "manager_sendSubscribeRequest env inst i messageType s =
     (case inst of
        None \<Rightarrow> Done False s
      | Some server_set \<Rightarrow> if \<not> server_set then Done False s else sendSubscribeRequest env i messageType s)"

section \<open>ModuleTimersManager\<close>

datatype timers_manager_error = Invalid_argument

definition timers_manager_initialize :: "bool \<Rightarrow> bool \<times> bool" where
  "timers_manager_initialize inst = (if \<not> inst then (True, True) else (False, inst))"

text \<open>
  Registering dereferences the timer before anything else, and the instance, of which \<open>inst\<close>
  says whether it is there, only after the check of the callback.
\<close>

definition timers_manager_registerTimer ::
    "bool \<Rightarrow> ('f, 'p) timer option \<Rightarrow> ('f, 'p) timers_cache \<Rightarrow> (timers_manager_error, u32, ('f, 'p) timers_cache) outcome" where
  "timers_manager_registerTimer inst newTimer c =
     (case newTimer of
        None \<Rightarrow> Undefined
      | Some t \<Rightarrow>
          if \<not> isCallbackFunctionSet t then Throws Invalid_argument c
          else if \<not> inst then Undefined
          else (case registerTimer (Some t) c of None \<Rightarrow> Blocks | Some (i, c') \<Rightarrow> Done i c'))"

definition timers_manager_removeTimer ::
    "bool \<Rightarrow> u32 \<Rightarrow> ('f, 'p) timers_cache \<Rightarrow> (timers_manager_error, unit, ('f, 'p) timers_cache) outcome" where
  "timers_manager_removeTimer inst i c =
     (if \<not> inst then Undefined
      else case removeTimer i c of None \<Rightarrow> Blocks | Some c' \<Rightarrow> Done () c')"

section \<open>ModuleConnectionManager\<close>

definition connection_manager_initialize :: "bool \<Rightarrow> bool \<Rightarrow> bool \<times> bool" where
  "connection_manager_initialize allocated inst =
     (if \<not> inst then (if allocated then (True, True) else (False, False)) else (False, inst))"

section \<open>Properties\<close>

text \<open>
  Registering through the timers manager on a consistent cache: a timer without callback is
  refused with an exception and the cache is unchanged; otherwise, when the manager was
  initialised and the cache is unlocked and has room, the timer is registered under a fresh
  identifier, and if every timer of the cache had a callback before, every one has after it:
  the round of the timers thread never calls an empty function. Without initialize, which
  nothing in the program calls, a valid timer is undefined behaviour.
\<close>
lemma timers_manager_outcome:
  assumes "cache_inv c" and "\<not> timersLock c" and "length (timers c) < 2 ^ 32 - 1" and "callbacks_set c"
  shows "if \<not> isCallbackFunctionSet t then timers_manager_registerTimer inst (Some t) c = Throws Invalid_argument c
    else if inst then \<exists>i c'. timers_manager_registerTimer inst (Some t) c = Done i c' \<and> i \<noteq> 0 \<and>
      lookup_timer c i = None \<and> lookup_timer c' = (lookup_timer c)(i \<mapsto> setTimerID i t) \<and>
      cache_inv c' \<and> callbacks_set c'
    else timers_manager_registerTimer inst (Some t) c = Undefined"
proof (cases "isCallbackFunctionSet t \<and> inst")
  case True
  obtain i c' where reg: "registerTimer (Some t) c = Some (i, c')" and "i \<noteq> 0"
    using registerTimer_returns [OF assms(2,3)] by blast
  moreover from tc.register_law [OF assms(1) reg]
  have "cache_inv c'" and "lookup_timer c i = None" and "lookup_timer c' = (lookup_timer c)(i \<mapsto> setTimerID i t)"
    by simp_all
  moreover from reg True assms(4) have "callbacks_set c'"
    by (auto simp: registerTimer_iff callbacks_set_def isCallbackFunctionSet_def setTimerID_def)
  ultimately show ?thesis using True by (simp add: timers_manager_registerTimer_def)
next
  case False
  then show ?thesis by (auto simp: timers_manager_registerTimer_def)
qed

end
