(* ===== verification/Tcp_Connection.thy ===== *)
theory Tcp_Connection
  imports Message_Queue
begin

text \<open>
  Connection.hpp and Communication.hpp: TcpConnection, the framed message connection. The
  virtual functions are a record of functions that the subclass fills in; the asynchronous reads
  and writes of the socket only record that they were started, and their completion handlers
  are operations, given what the socket reports. \<^const>\<open>None\<close> is undefined behaviour (a null
  message buffer, the front of an empty queue).
\<close>

section \<open>Messages\<close>

type_synonym octets = "u8 list"

record 'op message_header =
  operationCode :: 'op
  bodySize :: u32

record 'op framed_message =
  msgHead :: "'op message_header"
  msgBody :: octets

text \<open>sizeof of the header: an operation code and a size of four bytes each.\<close>

definition header_bytes :: nat where
  "header_bytes = 8"

section \<open>The state\<close>

datatype read_operation = ReadHeader | ReadBody nat

datatype write_operation = WriteHeader | WriteBody

text \<open>
  \<open>socketPresent\<close>: the unique_ptr holds a socket. \<open>pendingReads\<close> and \<open>pendingWrites\<close>: the
  asynchronous operations without a completion yet. \<open>timerWaits\<close>: the waits on the timer whose
  handler has not run; an expired and a cancelled wait run the same handler. \<open>wire\<close>: what the
  completed writes put on the connection. \<open>owner\<close>: the fields of the subclass.
\<close>

datatype 'op wire_part = WireHeader "'op message_header" | WireBody octets

record ('op, 's) tcp_connection =
  socketPresent :: bool
  socketIsOpen :: bool
  messagesQueue :: "'op framed_message list"
  incomingMessage :: "'op framed_message option"
  sendingInProgress :: bool
  pendingReads :: "read_operation list"
  pendingWrites :: "write_operation list"
  timerWaits :: nat
  lastPing :: int
  wire :: "'op wire_part list"
  owner :: 's

record ('op, 's) tcp_virtuals =
  v_disconnect :: "('op, 's) tcp_connection \<Rightarrow> ('op, 's) tcp_connection"
  v_handleReceivedMessage :: "'op framed_message option \<Rightarrow> ('op, 's) tcp_connection \<Rightarrow> ('op, 's) tcp_connection option"
  v_onTimerExpiration :: "('op, 's) tcp_connection \<Rightarrow> ('op, 's) tcp_connection option"

definition new_connection :: "'s \<Rightarrow> ('op, 's) tcp_connection" where
  "new_connection s =
     \<lparr>socketPresent = True, socketIsOpen = False, messagesQueue = [], incomingMessage = None,
      sendingInProgress = False, pendingReads = [], pendingWrites = [], timerWaits = 0, lastPing = 0, wire = [], owner = s\<rparr>"

definition isConnected :: "('op, 's) tcp_connection \<Rightarrow> bool" where
  "isConnected c = socketIsOpen c"

section \<open>Reading\<close>

definition readMessageHeader :: "('op, 's) tcp_connection \<Rightarrow> ('op, 's) tcp_connection option" where
  "readMessageHeader c =
     (case incomingMessage c of None \<Rightarrow> None
      | Some m \<Rightarrow> Some (c\<lparr>pendingReads := pendingReads c @ [ReadHeader]\<rparr>))"

text \<open>\<open>allocated\<close>: make_unique gave a message, value-initialised, of operation code \<open>op0\<close>.\<close>

definition startReadingSequence ::
    "bool \<Rightarrow> 'op \<Rightarrow> ('op, 's) tcp_connection \<Rightarrow> ('op, 's) tcp_connection option" where
  "startReadingSequence allocated op0 c =
     (let c1 = c\<lparr>incomingMessage := None\<rparr>;
          c2 = (if allocated
                then c1\<lparr>incomingMessage := Some \<lparr>msgHead = \<lparr>operationCode = op0, bodySize = 0\<rparr>, msgBody = []\<rparr>\<rparr>
                else c1)
      in readMessageHeader c2)"

definition tcp_startReading :: "int \<Rightarrow> bool \<Rightarrow> 'op \<Rightarrow> ('op, 's) tcp_connection \<Rightarrow> ('op, 's) tcp_connection option" where
  "tcp_startReading local_time allocated op0 c = startReadingSequence allocated op0 (c\<lparr>lastPing := local_time\<rparr>)"

definition readMessageBody :: "('op, 's) tcp_connection \<Rightarrow> ('op, 's) tcp_connection option" where
  "readMessageBody c =
     (case incomingMessage c of None \<Rightarrow> None
      | Some m \<Rightarrow> Some (c\<lparr>pendingReads := pendingReads c @ [ReadBody (length (msgBody m))]\<rparr>))"

text \<open>
  The completion of a header read: an error, or the number of bytes and the header the socket
  stored in the message buffer.
\<close>

definition postReadMessageHeader ::
    "('op, 's) tcp_virtuals \<Rightarrow> (nat \<times> 'op message_header) option \<Rightarrow> ('op, 's) tcp_connection \<Rightarrow> ('op, 's) tcp_connection option" where
  "postReadMessageHeader v result c0 =
     (let c = c0\<lparr>pendingReads := tl (pendingReads c0)\<rparr>
      in case result of
           None \<Rightarrow> Some (v_disconnect v c)
         | Some (bytes_transferred, h) \<Rightarrow>
             (case incomingMessage c of None \<Rightarrow> None
              | Some m \<Rightarrow>
                 (let c = c\<lparr>incomingMessage := Some (m\<lparr>msgHead := h\<rparr>)\<rparr>
                  in if bytes_transferred \<noteq> header_bytes then Some c
                     else if bodySize h = 0 then Some c
                     else readMessageBody (c\<lparr>incomingMessage :=
                            Some (m\<lparr>msgHead := h, msgBody := replicate (unat (bodySize h)) 0\<rparr>)\<rparr>))))"

definition postReadMessageBody ::
    "('op, 's) tcp_virtuals \<Rightarrow> bool \<Rightarrow> 'op \<Rightarrow> octets option \<Rightarrow> ('op, 's) tcp_connection \<Rightarrow> ('op, 's) tcp_connection option" where
  "postReadMessageBody v allocated op0 result c0 =
     (let c = c0\<lparr>pendingReads := tl (pendingReads c0)\<rparr>
      in case result of
           None \<Rightarrow> Some (v_disconnect v c)
         | Some body \<Rightarrow>
             (let localMessage = map_option (\<lambda>m. m\<lparr>msgBody := body\<rparr>) (incomingMessage c);
                  c1 = c\<lparr>incomingMessage := None\<rparr>
              in case v_handleReceivedMessage v localMessage c1 of None \<Rightarrow> None
                 | Some c2 \<Rightarrow> startReadingSequence allocated op0 c2))"

section \<open>Writing\<close>

definition writeMessageHeader :: "('op, 's) tcp_connection \<Rightarrow> ('op, 's) tcp_connection option" where
  "writeMessageHeader c =
     (if socketPresent c then
        (case front (messagesQueue c) of None \<Rightarrow> None
         | Some m \<Rightarrow> Some (c\<lparr>pendingWrites := pendingWrites c @ [WriteHeader]\<rparr>))
      else Some c)"

text \<open>The blocking write throws when the socket reports an error.\<close>

definition blockingWriteMessageHeader ::
    "bool \<Rightarrow> ('op, 's) tcp_connection \<Rightarrow> (unit, unit, ('op, 's) tcp_connection) outcome" where
  "blockingWriteMessageHeader ok c =
     (if socketPresent c then
        (case front (messagesQueue c) of None \<Rightarrow> Undefined
         | Some m \<Rightarrow> if ok then Done () (c\<lparr>wire := wire c @ [WireHeader (msgHead m)]\<rparr>) else Throws () c)
      else Done () c)"

definition writeMessageBody :: "('op, 's) tcp_connection \<Rightarrow> ('op, 's) tcp_connection option" where
  "writeMessageBody c =
     (case front (messagesQueue c) of None \<Rightarrow> None
      | Some m \<Rightarrow> Some (c\<lparr>pendingWrites := pendingWrites c @ [WriteBody]\<rparr>))"

text \<open>
  The completion of a write: an error, or the number of bytes that left. A complete write puts
  its part of the front message on the wire.
\<close>

definition postWriteMessageHeader ::
    "('op, 's) tcp_virtuals \<Rightarrow> nat option \<Rightarrow> ('op, 's) tcp_connection \<Rightarrow> ('op, 's) tcp_connection option" where
  "postWriteMessageHeader v result c0 =
     (let c = c0\<lparr>pendingWrites := tl (pendingWrites c0)\<rparr>
      in case result of
           None \<Rightarrow> Some ((v_disconnect v c)\<lparr>sendingInProgress := False\<rparr>)
         | Some bytes_transferred \<Rightarrow>
             if bytes_transferred \<noteq> header_bytes then writeMessageHeader c
             else (case front (messagesQueue c) of None \<Rightarrow> None
                   | Some m \<Rightarrow>
                      (let c = c\<lparr>wire := wire c @ [WireHeader (msgHead m)]\<rparr>
                       in if length (msgBody m) > 0 then writeMessageBody c
                          else (case pop (messagesQueue c) of None \<Rightarrow> None
                                | Some q \<Rightarrow>
                                   (let c = c\<lparr>messagesQueue := q\<rparr>
                                    in if \<not> queue_empty (messagesQueue c) then writeMessageHeader c
                                       else Some c)))))"

definition postWriteMessageBody ::
    "('op, 's) tcp_virtuals \<Rightarrow> bool \<Rightarrow> ('op, 's) tcp_connection \<Rightarrow> ('op, 's) tcp_connection option" where
  "postWriteMessageBody v error c0 =
     (let c = c0\<lparr>pendingWrites := tl (pendingWrites c0)\<rparr>
      in if error then Some ((v_disconnect v c)\<lparr>sendingInProgress := False\<rparr>)
         else (case front (messagesQueue c) of None \<Rightarrow> None
               | Some m \<Rightarrow>
                  (case pop (messagesQueue c) of None \<Rightarrow> None
                   | Some q \<Rightarrow>
                      (let c = c\<lparr>wire := wire c @ [WireBody (msgBody m)], messagesQueue := q\<rparr>
                       in if \<not> queue_empty (messagesQueue c) then writeMessageHeader c
                          else Some (c\<lparr>sendingInProgress := False\<rparr>)))))"

definition sendMessage :: "'op framed_message \<Rightarrow> ('op, 's) tcp_connection \<Rightarrow> ('op, 's) tcp_connection option" where
  "sendMessage message c0 =
     (let c = c0\<lparr>messagesQueue := snd (push message (messagesQueue c0))\<rparr>
      in if \<not> socketPresent c then Some c
         else if \<not> socketIsOpen c then Some c
         else if sendingInProgress c then Some c
         else writeMessageHeader (c\<lparr>sendingInProgress := True\<rparr>))"

section \<open>The socket and the timer\<close>

definition closeSocket :: "('op, 's) tcp_connection \<Rightarrow> ('op, 's) tcp_connection" where
  "closeSocket c = (if socketIsOpen c then c\<lparr>socketIsOpen := False\<rparr> else c)"

definition tcp_disconnect :: "('op, 's) tcp_connection \<Rightarrow> ('op, 's) tcp_connection" where
  "tcp_disconnect c = (if socketIsOpen c then c\<lparr>socketIsOpen := False\<rparr> else c)"

text \<open>
  connect opens the socket in any case; \<open>succeeds\<close> says whether it throws. A connection that is
  established begins with an empty wire.
\<close>

definition connect :: "bool \<Rightarrow> ('op, 's) tcp_connection \<Rightarrow> bool \<times> ('op, 's) tcp_connection" where
  "connect succeeds c =
     (if socketPresent c then
        (let c = c\<lparr>socketIsOpen := True\<rparr>
         in if succeeds then (True, c\<lparr>wire := []\<rparr>) else (False, c))
      else (False, c))"

definition makeNewSocket :: "('op, 's) tcp_connection \<Rightarrow> ('op, 's) tcp_connection" where
  "makeNewSocket c = c\<lparr>socketPresent := True, socketIsOpen := False\<rparr>"

text \<open>expires_from_now cancels the waits there are; their handler still runs.\<close>

definition setTimerExpiration :: "nat \<Rightarrow> ('op, 's) tcp_connection \<Rightarrow> ('op, 's) tcp_connection" where
  "setTimerExpiration millisec c = c\<lparr>timerWaits := Suc (timerWaits c)\<rparr>"

definition timerExpired :: "('op, 's) tcp_virtuals \<Rightarrow> ('op, 's) tcp_connection \<Rightarrow> ('op, 's) tcp_connection option" where
  "timerExpired v c = v_onTimerExpiration v (c\<lparr>timerWaits := timerWaits c - 1\<rparr>)"

lemmas read_defs = readMessageHeader_def startReadingSequence_def readMessageBody_def
  postReadMessageHeader_def postReadMessageBody_def
lemmas write_defs = writeMessageHeader_def writeMessageBody_def postWriteMessageHeader_def
  postWriteMessageBody_def sendMessage_def

end
