(* ===== verification/Tcp_Frames.thy ===== *)
theory Tcp_Frames
  imports Tcp_Connection
begin

text \<open>
  What the message connection does over a run: the writer puts the frames of the queued
  messages on the wire, in order; the reader hands the messages of the frames on, in order;
  and the two ways in which one message ends all writing or all reading.
\<close>

section \<open>The writer\<close>

text \<open>Messages are sent at any time; a completion runs the handler of the oldest write.\<close>

datatype 'op writer_event = SendMessage "'op framed_message" | WriteCompleted

fun do_writer :: "('op, 's) tcp_virtuals \<Rightarrow> 'op writer_event \<Rightarrow> ('op, 's) tcp_connection \<Rightarrow> ('op, 's) tcp_connection option" where
  "do_writer v (SendMessage m) c = sendMessage m c"
| "do_writer v WriteCompleted c =
     (case pendingWrites c of
        [] \<Rightarrow> Some c
      | WriteHeader # _ \<Rightarrow> postWriteMessageHeader v (Some header_bytes) c
      | WriteBody # _ \<Rightarrow> postWriteMessageBody v False c)"

fun run_writer :: "('op, 's) tcp_virtuals \<Rightarrow> 'op writer_event list \<Rightarrow> ('op, 's) tcp_connection \<Rightarrow> ('op, 's) tcp_connection option" where
  "run_writer v [] c = Some c"
| "run_writer v (ev # evs) c = (case do_writer v ev c of None \<Rightarrow> None | Some c' \<Rightarrow> run_writer v evs c')"

fun messages_of :: "'op writer_event list \<Rightarrow> 'op framed_message list" where
  "messages_of [] = []"
| "messages_of (SendMessage m # evs) = m # messages_of evs"
| "messages_of (WriteCompleted # evs) = messages_of evs"

definition frame :: "'op framed_message \<Rightarrow> 'op wire_part list" where
  "frame m = (if msgBody m = [] then [WireHeader (msgHead m)] else [WireHeader (msgHead m), WireBody (msgBody m)])"

definition frames :: "'op framed_message list \<Rightarrow> 'op wire_part list" where
  "frames ms = concat (map frame ms)"

lemma frames_simps [simp]:
  "frames [] = []" "frames (m # ms) = frame m @ frames ms" "frames (ms @ ms') = frames ms @ frames ms'"
  by (simp_all add: frames_def)

lemma run_writer_append:
  "run_writer v (evs @ evs') c = (case run_writer v evs c of None \<Rightarrow> None | Some c' \<Rightarrow> run_writer v evs' c')"
  by (induction v evs c rule: run_writer.induct) (auto split: option.splits)

text \<open>
  The writer over an open socket: it rests, or the header or the body of the first queued
  message is on its way. \<open>done_\<close> are the messages whose frames are complete.
\<close>

definition bodies_ok :: "'op framed_message list \<Rightarrow> bool" where
  "bodies_ok ms \<longleftrightarrow> (\<forall>m \<in> set ms. msgBody m \<noteq> [])"

definition writer_rests :: "'op framed_message list \<Rightarrow> ('op, 's) tcp_connection \<Rightarrow> bool" where
  "writer_rests written c \<longleftrightarrow> pendingWrites c = [] \<and> \<not> sendingInProgress c \<and> wire c = frames written"

definition writer_works :: "'op framed_message list \<Rightarrow> ('op, 's) tcp_connection \<Rightarrow> bool" where
  "writer_works written c \<longleftrightarrow> sendingInProgress c \<and> messagesQueue c \<noteq> [] \<and>
     (pendingWrites c = [WriteHeader] \<and> wire c = frames written \<or>
      pendingWrites c = [WriteBody] \<and> wire c = frames written @ [WireHeader (msgHead (hd (messagesQueue c)))])"

definition writer_open :: "('op, 's) tcp_connection \<Rightarrow> bool" where
  "writer_open c \<longleftrightarrow> socketPresent c \<and> socketIsOpen c"

lemma sendMessage_works:
  assumes "writer_open c" and "writer_rests written c \<or> writer_works written c"
  shows "\<exists>c'. sendMessage m c = Some c' \<and> writer_open c' \<and> messagesQueue c' = messagesQueue c @ [m] \<and> writer_works written c'"
proof (cases "sendingInProgress c")
  case True
  with assms show ?thesis
    by (auto simp: sendMessage_def writer_open_def writer_rests_def writer_works_def Let_def)
next
  case False
  with assms show ?thesis
    by (cases "messagesQueue c")
      (auto simp: sendMessage_def writeMessageHeader_def writer_open_def writer_rests_def writer_works_def Let_def)
qed

text \<open>A completion while the writer works: the body follows the header, the next header the body.\<close>

lemma WriteCompleted_works:
  assumes "writer_open c" and "writer_works written c" and "messagesQueue c = m # q" and "msgBody m \<noteq> []"
  shows "\<exists>c'. do_writer v WriteCompleted c = Some c' \<and> writer_open c' \<and>
    (if pendingWrites c = [WriteHeader]
     then messagesQueue c' = m # q \<and> writer_works written c' \<and> pendingWrites c' = [WriteBody]
     else messagesQueue c' = q \<and> (if q = [] then writer_rests (written @ [m]) c'
       else writer_works (written @ [m]) c' \<and> pendingWrites c' = [WriteHeader]))"
proof (cases "pendingWrites c = [WriteHeader]")
  case True
  with assms show ?thesis
    by (simp add: postWriteMessageHeader_def writeMessageBody_def writer_works_def writer_open_def Let_def)
next
  case False
  with assms have pend: "pendingWrites c = [WriteBody]" and wire: "wire c = frames written @ [WireHeader (msgHead m)]"
    by (auto simp: writer_works_def)
  show ?thesis
  proof (cases q)
    case Nil
    with pend wire assms show ?thesis
      by (simp add: postWriteMessageBody_def queue_empty_def writer_rests_def writer_open_def frame_def Let_def)
  next
    case (Cons m' q')
    with pend wire assms show ?thesis
      by (simp add: postWriteMessageBody_def writeMessageHeader_def queue_empty_def writer_works_def writer_open_def
          frame_def Let_def)
  qed
qed

lemma WriteCompleted_rests: "writer_rests written c \<Longrightarrow> do_writer v WriteCompleted c = Some c"
  by (simp add: writer_rests_def)

text \<open>The invariant over a run: the messages split into those written and those still queued.\<close>

definition writer_healthy :: "'op framed_message list \<Rightarrow> ('op, 's) tcp_connection \<Rightarrow> bool" where
  "writer_healthy written c \<longleftrightarrow> writer_rests written c \<and> messagesQueue c = [] \<or> writer_works written c"

lemma run_writer_split:
  assumes "writer_open c" and "writer_healthy written c"
    and "bodies_ok (messagesQueue c @ messages_of evs)"
  shows "\<exists>c' more. run_writer v evs c = Some c' \<and> writer_open c' \<and>
    messagesQueue c @ messages_of evs = more @ messagesQueue c' \<and>
    writer_healthy (written @ more) c'"
  using assms
proof (induction evs arbitrary: c written)
  case Nil
  then show ?case by (intro exI [of _ c] exI [of _ "[]"]) simp
next
  case (Cons ev evs)
  show ?case
  proof (cases ev)
    case (SendMessage m)
    obtain c1 where c1: "sendMessage m c = Some c1" "writer_open c1" "messagesQueue c1 = messagesQueue c @ [m]"
      "writer_works written c1"
      using sendMessage_works [OF Cons.prems(1), of written m] Cons.prems(2) by (auto simp: writer_healthy_def)
    then have "writer_healthy written c1" by (simp add: writer_healthy_def)
    with c1 Cons.IH [of c1 written] Cons.prems(3) SendMessage show ?thesis by auto
  next
    case WriteCompleted
    show ?thesis
    proof (cases "writer_rests written c")
      case True
      with Cons.IH [OF Cons.prems(1,2)] Cons.prems(3) WriteCompleted show ?thesis
        by (simp add: WriteCompleted_rests del: do_writer.simps)
    next
      case False
      with Cons.prems(2) have works: "writer_works written c" by (simp add: writer_healthy_def)
      then obtain m q where q: "messagesQueue c = m # q" by (auto simp: writer_works_def neq_Nil_conv)
      with Cons.prems(3) have "msgBody m \<noteq> []" by (simp add: bodies_ok_def)
      with WriteCompleted_works [OF Cons.prems(1) works q, of v] obtain c1 where
        c1: "do_writer v WriteCompleted c = Some c1" "writer_open c1" and
        step: "messagesQueue c1 = m # q \<and> writer_works written c1 \<or>
          messagesQueue c1 = q \<and> writer_healthy (written @ [m]) c1"
        by (auto simp: writer_healthy_def split: if_splits simp del: do_writer.simps)
      have ok: "bodies_ok (m # q @ messages_of evs)" using Cons.prems(3) q WriteCompleted by simp
      from step show ?thesis
      proof
        assume same: "messagesQueue c1 = m # q \<and> writer_works written c1"
        then have "writer_healthy written c1" by (simp add: writer_healthy_def)
        with same Cons.IH [OF c1(2), of written] ok c1(1) q WriteCompleted show ?thesis
          by (simp del: do_writer.simps)
      next
        assume next_: "messagesQueue c1 = q \<and> writer_healthy (written @ [m]) c1"
        with ok have "bodies_ok (messagesQueue c1 @ messages_of evs)" by (simp add: bodies_ok_def)
        with Cons.IH [OF c1(2), of "written @ [m]"] next_ obtain c' more where
          "run_writer v evs c1 = Some c'" "writer_open c'" "q @ messages_of evs = more @ messagesQueue c'"
          "writer_healthy (written @ [m] @ more) c'" by auto
        with c1(1) q WriteCompleted show ?thesis
          by (intro exI [of _ c'] exI [of _ "m # more"]) (simp del: do_writer.simps)
      qed
    qed
  qed
qed

text \<open>Two completions per queued message drain the queue.\<close>

lemma drain:
  assumes "writer_open c" and "writer_works written c" and "bodies_ok (messagesQueue c)"
    and "2 * length (messagesQueue c) \<le> n + (if pendingWrites c = [WriteHeader] then 0 else 1)"
  shows "\<exists>c'. run_writer v (replicate n WriteCompleted) c = Some c' \<and> writer_open c' \<and>
    messagesQueue c' = [] \<and> writer_rests (written @ messagesQueue c) c'"
  using assms
proof (induction n arbitrary: c written)
  case 0
  then show ?case by (cases "messagesQueue c") (auto simp: writer_works_def split: if_splits)
next
  case (Suc n)
  obtain m q where q: "messagesQueue c = m # q" using Suc.prems(2) by (auto simp: writer_works_def neq_Nil_conv)
  with Suc.prems(3) have body: "msgBody m \<noteq> []" and ok: "bodies_ok (m # q)" "bodies_ok q"
    by (simp_all add: bodies_ok_def)
  from WriteCompleted_works [OF Suc.prems(1,2) q body, of v] obtain c1 where
    c1: "do_writer v WriteCompleted c = Some c1" "writer_open c1" and
    step: "if pendingWrites c = [WriteHeader]
     then messagesQueue c1 = m # q \<and> writer_works written c1 \<and> pendingWrites c1 = [WriteBody]
     else messagesQueue c1 = q \<and> (if q = [] then writer_rests (written @ [m]) c1
       else writer_works (written @ [m]) c1 \<and> pendingWrites c1 = [WriteHeader])" by blast
  have run: "run_writer v (replicate (Suc n) WriteCompleted) c = run_writer v (replicate n WriteCompleted) c1"
    using c1(1) by (simp del: do_writer.simps)
  show ?case
  proof (cases "pendingWrites c = [WriteHeader]")
    case True
    with step Suc.IH [OF c1(2), of written] ok(1) Suc.prems(4) q show ?thesis
      by (simp add: run del: replicate.simps run_writer.simps)
  next
    case body_pending: False
    show ?thesis
    proof (cases "q = []")
      case True
      with step body_pending have rests: "writer_rests (written @ [m]) c1" and "messagesQueue c1 = []" by simp_all
      have "run_writer v (replicate n WriteCompleted) c1 = Some c1"
        by (induction n) (simp_all add: WriteCompleted_rests [OF rests] del: do_writer.simps)
      with rests \<open>messagesQueue c1 = []\<close> c1(2) True q show ?thesis
        by (simp add: run del: replicate.simps run_writer.simps)
    next
      case False
      with step body_pending Suc.IH [OF c1(2), of "written @ [m]"] ok(2) Suc.prems(4) q show ?thesis
        by (simp add: run del: replicate.simps run_writer.simps)
    qed
  qed
qed

lemma healthy_drain:
  assumes "writer_open c" and "writer_healthy written c" and "bodies_ok (messagesQueue c)"
    and "2 * length (messagesQueue c) \<le> n"
  shows "\<exists>c'. run_writer v (replicate n WriteCompleted) c = Some c' \<and> messagesQueue c' = [] \<and>
    writer_rests (written @ messagesQueue c) c'"
proof (cases "writer_works written c")
  case True
  from assms(4) have "2 * length (messagesQueue c) \<le> n + (if pendingWrites c = [WriteHeader] then 0 else 1)" by simp
  from drain [OF assms(1) True assms(3) this, of v] show ?thesis by blast
next
  case False
  with assms(2) have rests: "writer_rests written c" and "messagesQueue c = []" by (simp_all add: writer_healthy_def)
  moreover have "run_writer v (replicate n WriteCompleted) c = Some c"
    by (induction n) (simp_all add: WriteCompleted_rests [OF rests] del: do_writer.simps)
  ultimately show ?thesis by simp
qed

section \<open>The reader\<close>

text \<open>
  The other end of the wire: each part completes the read that is pending, in full; a part that
  comes when its kind of read is not pending stays unread.
\<close>

fun do_reader :: "('op, 's) tcp_virtuals \<Rightarrow> 'op \<Rightarrow> 'op wire_part \<Rightarrow> ('op, 's) tcp_connection \<Rightarrow> ('op, 's) tcp_connection option" where
  "do_reader v op0 (WireHeader h) c =
     (case pendingReads c of ReadHeader # _ \<Rightarrow> postReadMessageHeader v (Some (header_bytes, h)) c | _ \<Rightarrow> Some c)"
| "do_reader v op0 (WireBody b) c =
     (case pendingReads c of ReadBody n # _ \<Rightarrow> (if n = length b then postReadMessageBody v True op0 (Some b) c else Some c)
      | _ \<Rightarrow> Some c)"

fun run_reader :: "('op, 's) tcp_virtuals \<Rightarrow> 'op \<Rightarrow> 'op wire_part list \<Rightarrow> ('op, 's) tcp_connection \<Rightarrow> ('op, 's) tcp_connection option" where
  "run_reader v op0 [] c = Some c"
| "run_reader v op0 (p # ps) c = (case do_reader v op0 p c of None \<Rightarrow> None | Some c' \<Rightarrow> run_reader v op0 ps c')"

lemma run_reader_append:
  "run_reader v op0 (ps @ ps') c = (case run_reader v op0 ps c of None \<Rightarrow> None | Some c' \<Rightarrow> run_reader v op0 ps' c')"
  by (induction v op0 ps c rule: run_reader.induct) (auto split: option.splits)

text \<open>A subclass that records what it is handed.\<close>

definition recorder :: "('op, 'op framed_message list) tcp_virtuals" where
  "recorder =
     \<lparr>v_disconnect = tcp_disconnect,
      v_handleReceivedMessage = (\<lambda>m c. case m of None \<Rightarrow> None | Some m \<Rightarrow> Some (c\<lparr>owner := owner c @ [m]\<rparr>)),
      v_onTimerExpiration = Some\<rparr>"

definition reader_waits :: "('op, 's) tcp_connection \<Rightarrow> bool" where
  "reader_waits c \<longleftrightarrow> pendingReads c = [ReadHeader] \<and> incomingMessage c \<noteq> None"

text \<open>The size field of the header is the length of the body, which is not empty.\<close>

definition well_sized :: "'op framed_message \<Rightarrow> bool" where
  "well_sized m \<longleftrightarrow> unat (bodySize (msgHead m)) = length (msgBody m) \<and> msgBody m \<noteq> []"

lemma read_frame:
  assumes "reader_waits c" and "well_sized m"
  shows "\<exists>c'. run_reader recorder op0 (frame m) c = Some c' \<and> reader_waits c' \<and> owner c' = owner c @ [m]"
proof -
  from assms(2) have nz: "bodySize (msgHead m) \<noteq> 0"
    by (auto simp: well_sized_def)
  have m: "\<lparr>msgHead = msgHead m, msgBody = msgBody m\<rparr> = m" by simp
  from assms nz show ?thesis
    by (auto simp: frame_def reader_waits_def well_sized_def read_defs recorder_def header_bytes_def Let_def m)
qed

lemma read_frames:
  "reader_waits c \<Longrightarrow> \<forall>m \<in> set ms. well_sized m \<Longrightarrow>
    \<exists>c'. run_reader recorder op0 (frames ms) c = Some c' \<and> reader_waits c' \<and> owner c' = owner c @ ms"
proof (induction ms arbitrary: c)
  case (Cons m ms)
  then obtain c1 where "run_reader recorder op0 (frame m) c = Some c1" and "reader_waits c1" and "owner c1 = owner c @ [m]"
    using read_frame [of c m op0] by auto
  with Cons.IH [of c1] Cons.prems(2) show ?case by (auto simp: run_reader_append)
qed simp

section \<open>Connections for the witnesses\<close>

definition sample_frame :: "nat \<Rightarrow> u8 \<Rightarrow> nat framed_message" where
  "sample_frame op b = \<lparr>msgHead = \<lparr>operationCode = op, bodySize = 1\<rparr>, msgBody = [b]\<rparr>"

definition sample_connection :: "(nat, nat framed_message list) tcp_connection" where
  "sample_connection = (new_connection [])\<lparr>socketIsOpen := True\<rparr>"

definition sample_peer :: "(nat, nat framed_message list) tcp_connection" where
  "sample_peer = sample_connection\<lparr>pendingReads := [ReadHeader],
     incomingMessage := Some \<lparr>msgHead = \<lparr>operationCode = 0, bodySize = 0\<rparr>, msgBody = []\<rparr>\<rparr>"

section \<open>Stopped for good\<close>

lemma stalled_writer:
  "writer_open c \<Longrightarrow> sendingInProgress c \<Longrightarrow> pendingWrites c = [] \<Longrightarrow>
    run_writer v evs c = Some (c\<lparr>messagesQueue := messagesQueue c @ messages_of evs\<rparr>)"
proof (induction evs arbitrary: c)
  case (Cons ev evs)
  show ?case
  proof (cases ev)
    case (SendMessage m)
    have "do_writer v ev c = Some (c\<lparr>messagesQueue := messagesQueue c @ [m]\<rparr>)"
      using Cons.prems SendMessage by (simp add: sendMessage_def writer_open_def Let_def)
    with Cons.IH [of "c\<lparr>messagesQueue := messagesQueue c @ [m]\<rparr>"] Cons.prems SendMessage show ?thesis
      by (simp add: writer_open_def del: do_writer.simps)
  next
    case WriteCompleted
    with Cons show ?thesis by simp
  qed
qed simp

lemma stopped_reader: "pendingReads c = [] \<Longrightarrow> run_reader v op0 parts c = Some c"
proof (induction parts)
  case (Cons p parts)
  then show ?case by (cases p) simp_all
qed simp

section \<open>Properties\<close>

text \<open>C20:
  Over an open socket with the writer at rest, from the moment a message is sent and whatever
  way further messages are sent and writes complete: the run is defined, and the wire holds the
  complete frames of a prefix of the messages, those queued before and those sent, in order,
  and at most the header of the next one; two completions per message later everything is on
  the wire, the queue is empty and the writer at rest. Messages left in the queue by an earlier
  connection go first. All bodies are assumed non-empty.
\<close>
theorem tcp_writes_in_order:
  assumes "writer_open c" and "writer_rests [] c" and "all = messagesQueue c @ m # messages_of evs" and "bodies_ok all"
  shows "\<exists>c1 c2 more. run_writer v (SendMessage m # evs) c = Some c1 \<and> all = more @ messagesQueue c1 \<and>
    (wire c1 = frames more \<or> wire c1 = frames more @ [WireHeader (msgHead (hd (messagesQueue c1)))]) \<and>
    run_writer v (SendMessage m # evs @ replicate (2 * length all) WriteCompleted) c = Some c2 \<and>
    wire c2 = frames all \<and> messagesQueue c2 = [] \<and> pendingWrites c2 = [] \<and> \<not> sendingInProgress c2"
proof -
  obtain c0 where c0: "sendMessage m c = Some c0" "writer_open c0" "messagesQueue c0 = messagesQueue c @ [m]"
    "writer_works [] c0"
    using sendMessage_works [OF assms(1), of "[]" m] assms(2) by blast
  then have "writer_healthy [] c0" and "bodies_ok (messagesQueue c0 @ messages_of evs)"
    using assms(3,4) by (simp_all add: writer_healthy_def)
  from run_writer_split [OF c0(2) this, of v] obtain c1 more where c1: "run_writer v evs c0 = Some c1" "writer_open c1"
    and split: "all = more @ messagesQueue c1" and state: "writer_healthy more c1"
    using c0(3) assms(3) by auto
  let ?n = "2 * length all"
  have "bodies_ok (messagesQueue c1)" and "2 * length (messagesQueue c1) \<le> ?n"
    using assms(4) split arg_cong [OF split, of length] by (simp_all add: bodies_ok_def)
  from healthy_drain [OF c1(2) state this, of v]
  have "\<exists>c2. run_writer v (replicate ?n WriteCompleted) c1 = Some c2 \<and> messagesQueue c2 = [] \<and> writer_rests all c2"
    unfolding split .
  then obtain c2 where "run_writer v (replicate ?n WriteCompleted) c1 = Some c2" and "messagesQueue c2 = []"
    and "writer_rests all c2" by blast
  moreover have "wire c1 = frames more \<or> wire c1 = frames more @ [WireHeader (msgHead (hd (messagesQueue c1)))]"
    using state by (auto simp: writer_healthy_def writer_rests_def writer_works_def)
  ultimately show ?thesis using c0(1) c1(1) split
    by (intro exI [of _ c1] exI [of _ c2] exI [of _ more]) (simp add: run_writer_append writer_rests_def)
qed

theorem tcp_writes_in_order_witness:
  "\<exists>c2. run_writer recorder (SendMessage (sample_frame 1 7) # [WriteCompleted, SendMessage (sample_frame 2 8)] @
       replicate 4 WriteCompleted) sample_connection = Some c2 \<and>
     wire c2 = frames [sample_frame 1 7, sample_frame 2 8] \<and> messagesQueue c2 = []"
proof -
  have pre: "writer_open sample_connection" "writer_rests [] sample_connection"
    "[sample_frame 1 7, sample_frame 2 8] =
       messagesQueue sample_connection @ sample_frame 1 7 # messages_of [WriteCompleted, SendMessage (sample_frame 2 8)]"
    "bodies_ok [sample_frame 1 7, sample_frame 2 8]"
    by (simp_all add: writer_open_def writer_rests_def sample_connection_def new_connection_def bodies_ok_def sample_frame_def)
  have len: "2 * length [sample_frame 1 7, sample_frame 2 8] = 4" by simp
  from tcp_writes_in_order [OF pre, of recorder, unfolded len] show ?thesis by blast
qed

text \<open>C21:
  What one end writes the other end is handed: when messages whose size fields fit their
  non-empty bodies are sent over a fresh open connection and all writes complete, a peer that
  waits for a header and reads the resulting wire hands on exactly those messages, in order,
  and waits for the next header.
\<close>
theorem tcp_roundtrip:
  assumes "writer_open c" and "writer_rests [] c" and "messagesQueue c = []"
    and "\<forall>m \<in> set ms. well_sized m" and "reader_waits peer"
  shows "\<exists>c2 peer'. run_writer v (map SendMessage ms @ replicate (2 * length ms) WriteCompleted) c = Some c2 \<and>
    run_reader recorder op0 (wire c2) peer = Some peer' \<and> owner peer' = owner peer @ ms \<and> reader_waits peer'"
proof -
  obtain peer' where read: "run_reader recorder op0 (frames ms) peer = Some peer'" "owner peer' = owner peer @ ms"
    "reader_waits peer'"
    using read_frames [OF assms(5,4), of op0] by blast
  have msgs: "messages_of (map SendMessage ms) = ms" by (induction ms) simp_all
  have healthy: "writer_healthy [] c" using assms(2,3) by (simp add: writer_healthy_def)
  have ok: "bodies_ok (messagesQueue c @ messages_of (map SendMessage ms))"
    using assms(3,4) msgs by (simp add: bodies_ok_def well_sized_def)
  obtain c1 more where c1: "run_writer v (map SendMessage ms) c = Some c1" "writer_open c1"
    and split: "ms = more @ messagesQueue c1" and state: "writer_healthy more c1"
    using run_writer_split [OF assms(1) healthy ok, of v] assms(3) msgs by auto
  have "bodies_ok (messagesQueue c1)" and "2 * length (messagesQueue c1) \<le> 2 * length ms"
    using ok msgs split arg_cong [OF split, of length] by (simp_all add: bodies_ok_def)
  from healthy_drain [OF c1(2) state this, of v] split
  have "\<exists>c2. run_writer v (replicate (2 * length ms) WriteCompleted) c1 = Some c2 \<and> writer_rests ms c2" by auto
  then obtain c2 where c2: "run_writer v (replicate (2 * length ms) WriteCompleted) c1 = Some c2" "wire c2 = frames ms"
    by (auto simp: writer_rests_def)
  with c1(1) read show ?thesis
    by (intro exI [of _ c2] exI [of _ peer']) (simp add: run_writer_append)
qed

theorem tcp_roundtrip_witness:
  "\<exists>c2 peer'. run_writer recorder (map SendMessage [sample_frame 1 7, sample_frame 2 8] @
       replicate 4 WriteCompleted) sample_connection = Some c2 \<and>
     run_reader recorder 0 (wire c2) sample_peer = Some peer' \<and> owner peer' = [sample_frame 1 7, sample_frame 2 8]"
proof -
  have pre: "writer_open sample_connection" "writer_rests [] sample_connection" "messagesQueue sample_connection = []"
    "\<forall>m \<in> set [sample_frame 1 7, sample_frame 2 8]. well_sized m" "reader_waits sample_peer"
    by (simp_all add: writer_open_def writer_rests_def sample_connection_def new_connection_def well_sized_def
        sample_frame_def reader_waits_def sample_peer_def)
  have len: "2 * length [sample_frame 1 7, sample_frame 2 8] = 4" and "owner sample_peer = []"
    by (simp_all add: sample_peer_def sample_connection_def new_connection_def)
  with tcp_roundtrip [OF pre, of recorder 0, unfolded len] show ?thesis by (metis append_Nil)
qed

text \<open>
  A message with an empty body ends all writing: after its header has been written and the queue
  is empty, sendingInProgress stays set with no write pending, so whatever is sent later only
  piles up in the queue and nothing more ever reaches the wire.
\<close>
lemma empty_body_stalls_writer:
  assumes "writer_open c" and "writer_rests [] c" and "messagesQueue c = []" and "msgBody m = []"
  shows "\<exists>c'. run_writer v (SendMessage m # WriteCompleted # evs) c = Some c' \<and>
    wire c' = [WireHeader (msgHead m)] \<and> messagesQueue c' = messages_of evs \<and>
    pendingWrites c' = [] \<and> sendingInProgress c'"
proof -
  let ?c1 = "c\<lparr>messagesQueue := [], sendingInProgress := True, pendingWrites := [], wire := [WireHeader (msgHead m)]\<rparr>"
  have "run_writer v [SendMessage m, WriteCompleted] c = Some ?c1"
    using assms by (simp add: sendMessage_def writeMessageHeader_def postWriteMessageHeader_def queue_empty_def
        writer_open_def writer_rests_def Let_def)
  then have "run_writer v ([SendMessage m, WriteCompleted] @ evs) c = run_writer v evs ?c1"
    by (simp only: run_writer_append option.case)
  moreover have "run_writer v evs ?c1 = Some (?c1\<lparr>messagesQueue := messages_of evs\<rparr>)"
    using stalled_writer [of ?c1 v evs] assms(1) by (simp add: writer_open_def)
  ultimately show ?thesis by simp
qed

text \<open>
  A header with size 0 ends all reading: no read is started after it, nothing is handed on, and
  every later part of the wire stays unread, although the connection stays open.
\<close>
lemma zero_size_stops_reader:
  assumes "reader_waits c" and "bodySize h = 0"
  shows "\<exists>c'. run_reader v op0 (WireHeader h # parts) c = Some c' \<and>
    owner c' = owner c \<and> pendingReads c' = [] \<and> socketIsOpen c' = socketIsOpen c"
proof -
  obtain m where m: "incomingMessage c = Some m" and p: "pendingReads c = [ReadHeader]"
    using assms(1) by (auto simp: reader_waits_def)
  let ?c1 = "c\<lparr>pendingReads := [], incomingMessage := Some (m\<lparr>msgHead := h\<rparr>)\<rparr>"
  have "do_reader v op0 (WireHeader h) c = Some ?c1"
    using m p assms(2) by (simp add: postReadMessageHeader_def Let_def)
  moreover have "run_reader v op0 parts ?c1 = Some ?c1" by (rule stopped_reader) simp
  ultimately show ?thesis by (simp del: do_reader.simps)
qed

end
