(* ===== verification/Watchdog_Connection.thy ===== *)
theory Watchdog_Connection
  imports Tcp_Frames
begin

text \<open>
  The connection of the module to its watchdog: WatchdogConnectionState, the handlers of the
  watchdog's responses, and ModuleWatchdogConnection, the subclass of TcpConnection. The
  generated protobuf classes are parameters: what serialising a request gives, and what the
  getters answer after parsing a body (a parse that fails is not noticed by the code).
\<close>

section \<open>The shared state\<close>

datatype ConnectionState = NotConnected | Connected | Shutdown

text \<open>
  The state behind its mutex, the numbers of notify_all and of notify_one calls so far, and the
  sequence code of the connection object.
\<close>

record watchdog =
  connectionState :: ConnectionState
  notifications :: nat
  singleNotifications :: nat
  sequenceCode :: u32

definition setConnectionState :: "ConnectionState \<Rightarrow> watchdog \<Rightarrow> watchdog" where
  "setConnectionState st w = w\<lparr>connectionState := st\<rparr>"

definition setConnectionStateAndNotifyAll :: "ConnectionState \<Rightarrow> watchdog \<Rightarrow> watchdog" where
  "setConnectionStateAndNotifyAll st w =
     (let w' = setConnectionState st w in w'\<lparr>notifications := Suc (notifications w')\<rparr>)"

text \<open>Nothing calls this one.\<close>

definition setConnectionStateAndNotifyOne :: "ConnectionState \<Rightarrow> watchdog \<Rightarrow> watchdog" where
  "setConnectionStateAndNotifyOne st w =
     (let w' = setConnectionState st w in w'\<lparr>singleNotifications := Suc (singleNotifications w')\<rparr>)"

definition getConnectionState :: "watchdog \<Rightarrow> ConnectionState" where
  "getConnectionState w = connectionState w"

section \<open>Operations and responses\<close>

datatype operation = ConnectRequest | ConnectResponse | PingRequest | PingResponse
  | ReconnectResponse | ShutdownRequest | OtherOperationCode u32

datatype connect_response_code = ConnectSuccess | InvalidConnectionState | NotModuleIdentifier
  | ModuleNotExists | OtherResponseCode u32

record connect_response_data =
  responsecode :: connect_response_code
  sequencecode :: "u32 option"

record watchdog_protocol =
  parse_connect_response :: "octets \<Rightarrow> connect_response_data"
  parse_ping_response :: "octets \<Rightarrow> u32"
  serialize_connect_request :: "i32 \<Rightarrow> octets"
  serialize_ping_request :: "u32 \<Rightarrow> octets"
  serialize_shutdown_request :: "i32 \<Rightarrow> octets"

type_synonym watchdog_message = "operation framed_message"
type_synonym watchdog_connection = "(operation, watchdog) tcp_connection"

text \<open>ResponseConnectHandler\<close>

definition onResponseCodeSuccess :: "connect_response_data \<Rightarrow> watchdog \<Rightarrow> ConnectionState \<times> watchdog" where
  "onResponseCodeSuccess d w =
     (case sequencecode d of
        Some code \<Rightarrow> (Connected, w\<lparr>sequenceCode := code\<rparr>)
      | None \<Rightarrow> (NotConnected, w))"

definition connect_handleReceivedMessage :: "connect_response_data \<Rightarrow> watchdog \<Rightarrow> watchdog" where
  "connect_handleReceivedMessage d w =
     (let (newConnectionState, w') =
        (case responsecode d of
           ConnectSuccess \<Rightarrow> onResponseCodeSuccess d w
         | InvalidConnectionState \<Rightarrow> (NotConnected, w)
         | NotModuleIdentifier \<Rightarrow> (NotConnected, w)
         | ModuleNotExists \<Rightarrow> (NotConnected, w)
         | OtherResponseCode _ \<Rightarrow> (NotConnected, w))
      in setConnectionStateAndNotifyAll newConnectionState w')"

definition connect_handleResponse ::
    "watchdog_protocol \<Rightarrow> watchdog_message option \<Rightarrow> watchdog_connection \<Rightarrow> watchdog_connection" where
  "connect_handleResponse P message c =
     (case message of
        None \<Rightarrow> c
      | Some m \<Rightarrow>
          if getConnectionState (owner c) = Connected then c
          else c\<lparr>owner := connect_handleReceivedMessage (parse_connect_response P (msgBody m)) (owner c)\<rparr>)"

text \<open>ResponsePingHandler, whose callback sets the timer of the connection.\<close>

definition ping_handleResponse ::
    "watchdog_protocol \<Rightarrow> watchdog_message option \<Rightarrow> watchdog_connection \<Rightarrow> watchdog_connection" where
  "ping_handleResponse P message c =
     (case message of
        None \<Rightarrow> c
      | Some m \<Rightarrow>
          if parse_ping_response P (msgBody m) = sequenceCode (owner c) then setTimerExpiration 3000 c else c)"

text \<open>ResponseReconnectHandler parses the body and does nothing with it.\<close>

definition reconnect_handleResponse ::
    "watchdog_protocol \<Rightarrow> watchdog_message option \<Rightarrow> watchdog_connection \<Rightarrow> watchdog_connection" where
  "reconnect_handleResponse P message c =
     (case message of
        None \<Rightarrow> c
      | Some m \<Rightarrow> if getConnectionState (owner c) \<noteq> NotConnected then c else c)"

section \<open>The connection\<close>

definition new_watchdog_connection :: "u32 \<Rightarrow> watchdog_connection" where
  "new_watchdog_connection code =
     new_connection \<lparr>connectionState = NotConnected, notifications = 0, singleNotifications = 0, sequenceCode = code\<rparr>"

definition wd_disconnect :: "watchdog_connection \<Rightarrow> watchdog_connection" where
  "wd_disconnect c0 =
     (let c = (if socketIsOpen c0 then c0\<lparr>socketIsOpen := False\<rparr> else c0)
      in if getConnectionState (owner c) = Connected
         then c\<lparr>owner := setConnectionStateAndNotifyAll NotConnected (owner c)\<rparr> else c)"

text \<open>getResponseHandler: the handler of an operation code, or null.\<close>

definition getResponseHandler ::
    "watchdog_protocol \<Rightarrow> operation \<Rightarrow> (watchdog_message option \<Rightarrow> watchdog_connection \<Rightarrow> watchdog_connection) option" where
  "getResponseHandler P op =
     (case op of
        ConnectResponse \<Rightarrow> Some (connect_handleResponse P)
      | PingResponse \<Rightarrow> Some (ping_handleResponse P)
      | ReconnectResponse \<Rightarrow> Some (reconnect_handleResponse P)
      | _ \<Rightarrow> None)"

definition wd_handleReceivedMessage ::
    "watchdog_protocol \<Rightarrow> watchdog_message option \<Rightarrow> watchdog_connection \<Rightarrow> watchdog_connection" where
  "wd_handleReceivedMessage P receivedMessage c =
     (case receivedMessage of
        None \<Rightarrow> c
      | Some m \<Rightarrow>
          (case getResponseHandler P (operationCode (msgHead m)) of
             None \<Rightarrow> c
           | Some handleResponse \<Rightarrow> handleResponse (Some m) c))"

text \<open>A message of the connection: its size field is the length of the body, in 32 bits.\<close>

definition make_message :: "operation \<Rightarrow> octets \<Rightarrow> watchdog_message" where
  "make_message op body = \<lparr>msgHead = \<lparr>operationCode = op, bodySize = of_nat (length body)\<rparr>, msgBody = body\<rparr>"

definition sendConnectRequest :: "watchdog_protocol \<Rightarrow> i32 \<Rightarrow> watchdog_connection \<Rightarrow> watchdog_connection option" where
  "sendConnectRequest P moduleIdentifier = sendMessage (make_message ConnectRequest (serialize_connect_request P moduleIdentifier))"

definition sendPing :: "watchdog_protocol \<Rightarrow> watchdog_connection \<Rightarrow> watchdog_connection option" where
  "sendPing P c = sendMessage (make_message PingRequest (serialize_ping_request P (sequenceCode (owner c)))) c"

definition wd_onTimerExpiration :: "watchdog_protocol \<Rightarrow> watchdog_connection \<Rightarrow> watchdog_connection option" where
  "wd_onTimerExpiration P c = sendPing P c"

definition sendShutdownRequest :: "watchdog_protocol \<Rightarrow> i32 \<Rightarrow> watchdog_connection \<Rightarrow> watchdog_connection option" where
  "sendShutdownRequest P moduleIdentifier = sendMessage (make_message ShutdownRequest (serialize_shutdown_request P moduleIdentifier))"

definition watchdog_virtuals :: "watchdog_protocol \<Rightarrow> (operation, watchdog) tcp_virtuals" where
  "watchdog_virtuals P =
     \<lparr>v_disconnect = wd_disconnect,
      v_handleReceivedMessage = (\<lambda>m c. Some (wd_handleReceivedMessage P m c)),
      v_onTimerExpiration = wd_onTimerExpiration P\<rparr>"

lemmas watchdog_defs = setConnectionState_def setConnectionStateAndNotifyAll_def getConnectionState_def
  onResponseCodeSuccess_def connect_handleReceivedMessage_def connect_handleResponse_def
  ping_handleResponse_def reconnect_handleResponse_def wd_disconnect_def getResponseHandler_def
  wd_handleReceivedMessage_def

section \<open>Any run of a connection\<close>

text \<open>
  What can happen to the connection object after it has been set up: the timer, the completions
  of its reads and writes with any result, the watcher thread's new socket, connect, connect
  request, timer and close, and the shutdown request. Reading is started by the set-up alone.
\<close>

inductive connection_step :: "watchdog_protocol \<Rightarrow> watchdog_connection \<Rightarrow> watchdog_connection \<Rightarrow> bool" for P where
  timer: "0 < timerWaits c \<Longrightarrow> timerExpired (watchdog_virtuals P) c = Some c' \<Longrightarrow> connection_step P c c'"
| header_read: "pendingReads c = ReadHeader # rs \<Longrightarrow>
    postReadMessageHeader (watchdog_virtuals P) hresult c = Some c' \<Longrightarrow> connection_step P c c'"
| body_read: "pendingReads c = ReadBody n # rs \<Longrightarrow>
    postReadMessageBody (watchdog_virtuals P) allocated op0 bresult c = Some c' \<Longrightarrow> connection_step P c c'"
| header_written: "pendingWrites c = WriteHeader # ws \<Longrightarrow>
    postWriteMessageHeader (watchdog_virtuals P) wresult c = Some c' \<Longrightarrow> connection_step P c c'"
| body_written: "pendingWrites c = WriteBody # ws \<Longrightarrow>
    postWriteMessageBody (watchdog_virtuals P) error c = Some c' \<Longrightarrow> connection_step P c c'"
| new_socket: "connection_step P c (makeNewSocket c)"
| connecting: "connect succeeds c = (b, c') \<Longrightarrow> connection_step P c c'"
| connect_request: "sendConnectRequest P i c = Some c' \<Longrightarrow> connection_step P c c'"
| shutdown_request: "sendShutdownRequest P i c = Some c' \<Longrightarrow> connection_step P c c'"
| set_timer: "connection_step P c (setTimerExpiration ms c)"
| close: "connection_step P c (closeSocket c)"

inductive connection_steps :: "watchdog_protocol \<Rightarrow> watchdog_connection \<Rightarrow> watchdog_connection \<Rightarrow> bool" for P where
  refl: "connection_steps P c c"
| step: "connection_steps P c c' \<Longrightarrow> connection_step P c' c'' \<Longrightarrow> connection_steps P c c''"

text \<open>Not connected and with no read pending: what such a connection can never leave.\<close>

definition cut_off :: "watchdog_connection \<Rightarrow> bool" where
  "cut_off c \<longleftrightarrow> connectionState (owner c) = NotConnected \<and> pendingReads c = []"

definition same_reads :: "watchdog_connection \<Rightarrow> watchdog_connection \<Rightarrow> bool" where
  "same_reads c c' \<longleftrightarrow> pendingReads c' = pendingReads c \<and> owner c' = owner c"

lemma same_reads_writing:
  "writeMessageHeader c = Some c' \<Longrightarrow> same_reads c c'"
  "writeMessageBody c = Some c' \<Longrightarrow> same_reads c c'"
  by (auto simp: write_defs same_reads_def split: if_splits option.splits)

lemma same_reads_sendMessage: "sendMessage m c = Some c' \<Longrightarrow> same_reads c c'"
  by (auto simp: write_defs same_reads_def Let_def split: if_splits option.splits)

lemma cut_off_same: "cut_off c \<Longrightarrow> same_reads c c' \<Longrightarrow> cut_off c'"
  by (simp add: cut_off_def same_reads_def)

lemma cut_off_disconnect: "cut_off c \<Longrightarrow> cut_off (wd_disconnect c)"
  by (simp add: cut_off_def wd_disconnect_def getConnectionState_def Let_def)

lemma cut_off_written:
  assumes "cut_off c" and "postWriteMessageHeader (watchdog_virtuals P) r c = Some c'"
  shows "cut_off c'"
  using assms cut_off_disconnect [of "c\<lparr>pendingWrites := tl (pendingWrites c)\<rparr>"]
  by (auto simp: write_defs watchdog_virtuals_def cut_off_def Let_def split: if_splits option.splits)

lemma cut_off_body_written:
  assumes "cut_off c" and "postWriteMessageBody (watchdog_virtuals P) e c = Some c'"
  shows "cut_off c'"
  using assms cut_off_disconnect [of "c\<lparr>pendingWrites := tl (pendingWrites c)\<rparr>"]
  by (auto simp: write_defs watchdog_virtuals_def cut_off_def Let_def split: if_splits option.splits)

lemma connection_step_cut_off: "connection_step P c c' \<Longrightarrow> cut_off c \<Longrightarrow> cut_off c'"
proof (induction rule: connection_step.induct)
  case (timer c c')
  then have "sendPing P (c\<lparr>timerWaits := timerWaits c - 1\<rparr>) = Some c'"
    by (simp add: timerExpired_def watchdog_virtuals_def wd_onTimerExpiration_def)
  then have "same_reads (c\<lparr>timerWaits := timerWaits c - 1\<rparr>) c'"
    unfolding sendPing_def by (rule same_reads_sendMessage)
  with timer.prems show ?case by (simp add: cut_off_def same_reads_def)
next
  case (header_written c ws r c')
  then show ?case using cut_off_written by blast
next
  case (body_written c ws e c')
  then show ?case using cut_off_body_written by blast
next
  case (connecting succeeds c b c')
  then show ?case by (auto simp: connect_def cut_off_def Let_def split: if_splits)
next
  case (connect_request i c c')
  then show ?case using cut_off_same same_reads_sendMessage by (simp add: sendConnectRequest_def)
next
  case (shutdown_request i c c')
  then show ?case using cut_off_same same_reads_sendMessage by (simp add: sendShutdownRequest_def)
qed (simp_all add: cut_off_def makeNewSocket_def setTimerExpiration_def closeSocket_def)

lemma connection_steps_cut_off: "connection_steps P c c' \<Longrightarrow> cut_off c \<Longrightarrow> cut_off c'"
  by (induction rule: connection_steps.induct) (auto dest: connection_step_cut_off)

section \<open>A protocol for the witnesses\<close>

definition sample_protocol :: watchdog_protocol where
  "sample_protocol =
     \<lparr>parse_connect_response = (\<lambda>b. case b of [] \<Rightarrow> \<lparr>responsecode = ModuleNotExists, sequencecode = None\<rparr>
        | x # _ \<Rightarrow> \<lparr>responsecode = ConnectSuccess, sequencecode = Some (ucast x)\<rparr>),
      parse_ping_response = (\<lambda>b. case b of [] \<Rightarrow> 0 | x # _ \<Rightarrow> ucast x),
      serialize_connect_request = (\<lambda>i. [ucast i]),
      serialize_ping_request = (\<lambda>code. [ucast code]),
      serialize_shutdown_request = (\<lambda>i. [ucast i])\<rparr>"

text \<open>Connected with sequence code 3, waiting for a header.\<close>

definition sample_watchdog :: watchdog_connection where
  "sample_watchdog = (new_watchdog_connection 3)\<lparr>socketIsOpen := True, pendingReads := [ReadHeader],
     incomingMessage := Some \<lparr>msgHead = \<lparr>operationCode = ConnectRequest, bodySize = 0\<rparr>, msgBody = []\<rparr>,
     owner := \<lparr>connectionState = Connected, notifications = 1, singleNotifications = 0, sequenceCode = 3\<rparr>\<rparr>"

section \<open>Properties\<close>

text \<open>
  Once the read that is pending fails, the connection is given up for good: whatever the timer,
  the writes and the watcher thread do afterwards, new sockets, successful connects and connect
  requests included, no read is ever started again, no response is ever handled, and the state
  stays NotConnected.
\<close>
lemma lost_connection_never_returns:
  assumes "pendingReads c = [ReadHeader]" and "connectionState (owner c) \<noteq> Shutdown"
    and "postReadMessageHeader (watchdog_virtuals P) None c = Some c1" and "connection_steps P c1 c2"
  shows "getConnectionState (owner c2) = NotConnected \<and> pendingReads c2 = [] \<and> \<not> socketIsOpen c1"
proof -
  from assms(3) have c1: "c1 = wd_disconnect (c\<lparr>pendingReads := tl (pendingReads c)\<rparr>)"
    by (simp add: postReadMessageHeader_def watchdog_virtuals_def Let_def)
  with assms(1,2) have "cut_off c1" and "\<not> socketIsOpen c1"
    by (cases "connectionState (owner c)"; simp add: cut_off_def watchdog_defs Let_def)+
  with connection_steps_cut_off [OF assms(4)] show ?thesis
    by (simp add: cut_off_def getConnectionState_def)
qed

text \<open>C35:
  What a message from the watchdog does, by operation code. A connect response is dropped while
  connected; in every other state, Shutdown included, it sets the state, to Connected exactly
  when it reports success and carries a sequence code, which is stored, and to NotConnected
  otherwise, and notifies the waiting threads once. A ping response sets the timer exactly when
  its sequence code is the stored one. Every other message changes nothing.
\<close>
theorem watchdog_response_exact:
  "wd_handleReceivedMessage P (Some m) c =
    (let d = parse_connect_response P (msgBody m);
         accepted = (responsecode d = ConnectSuccess \<and> sequencecode d \<noteq> None)
     in case operationCode (msgHead m) of
          ConnectResponse \<Rightarrow>
            (if connectionState (owner c) = Connected then c
             else c\<lparr>owner := \<lparr>connectionState = (if accepted then Connected else NotConnected),
                    notifications = notifications (owner c) + 1, singleNotifications = singleNotifications (owner c),
                    sequenceCode = (if accepted then the (sequencecode d) else sequenceCode (owner c))\<rparr>\<rparr>)
        | PingResponse \<Rightarrow>
            c\<lparr>timerWaits := timerWaits c +
              (if parse_ping_response P (msgBody m) = sequenceCode (owner c) then 1 else 0)\<rparr>
        | _ \<Rightarrow> c)"
  by (cases "operationCode (msgHead m)"; cases "responsecode (parse_connect_response P (msgBody m))";
      cases "sequencecode (parse_connect_response P (msgBody m))"; cases "owner c")
    (simp_all add: watchdog_defs setTimerExpiration_def Let_def)

text \<open>
  Messages sent while the connection is closed stay in the queue and go out first after a
  reconnect: the connect request of the new connection, which the watchdog needs first, is
  written after all of them. In particular every ping of the running timer precedes it.
\<close>
lemma stale_messages_first:
  assumes "socketPresent c" and "\<not> socketIsOpen c" and "pendingWrites c = []" and "\<not> sendingInProgress c"
    and "stale = messagesQueue c @ replicate k (make_message PingRequest (serialize_ping_request P (sequenceCode (owner c))))"
    and "request = make_message ConnectRequest (serialize_connect_request P i)" and "bodies_ok (stale @ [request])"
  shows "\<exists>c1 c2 c3. ((\<lambda>r. Option.bind r (sendPing P)) ^^ k) (Some c) = Some c1 \<and>
    sendConnectRequest P i (snd (connect True (makeNewSocket c1))) = Some c2 \<and>
    run_writer (watchdog_virtuals P) (replicate (2 * length (stale @ [request])) WriteCompleted) c2 = Some c3 \<and>
    wire c3 = frames (stale @ [request])"
proof -
  let ?ping = "make_message PingRequest (serialize_ping_request P (sequenceCode (owner c)))"
  have pings: "((\<lambda>r. Option.bind r (sendPing P)) ^^ n) (Some c) =
      Some (c\<lparr>messagesQueue := messagesQueue c @ replicate n ?ping\<rparr>)" for n
  proof (induction n)
    case (Suc n)
    with assms(1,2) show ?case
      by (simp add: sendPing_def sendMessage_def Let_def replicate_append_same)
  qed simp
  let ?c1 = "c\<lparr>messagesQueue := stale\<rparr>"
  let ?up = "snd (connect True (makeNewSocket ?c1))"
  have up: "writer_open ?up" "writer_rests [] ?up" "messagesQueue ?up = stale"
    using assms(3,4) by (simp_all add: connect_def makeNewSocket_def writer_open_def writer_rests_def Let_def)
  obtain c2 where c2: "sendMessage request ?up = Some c2" "writer_open c2" "messagesQueue c2 = stale @ [request]"
    "writer_works [] c2"
    using sendMessage_works [OF up(1), of "[]" request] up(2,3) by auto
  then have "writer_healthy [] c2" by (simp add: writer_healthy_def)
  from healthy_drain [OF c2(2) this, of "2 * length (stale @ [request])" "watchdog_virtuals P"] c2(3) assms(7)
  obtain c3 where "run_writer (watchdog_virtuals P) (replicate (2 * length (stale @ [request])) WriteCompleted) c2 = Some c3"
    and "writer_rests (stale @ [request]) c3" by auto
  then show ?thesis
    using pings [of k] assms(5,6) c2(1)
    by (intro exI [of _ ?c1] exI [of _ c2] exI [of _ c3]) (simp add: sendConnectRequest_def writer_rests_def)
qed

end
