(* ===== verification/Watchdog_Watcher.thy ===== *)
theory Watchdog_Watcher
  imports Watchdog_Connection
begin

text \<open>
  WatchdogConnectionWatcher and the waits of WatchdogConnectionState as a state machine. Both
  waits have no predicate: a thread that waits is woken by the notifications sent after it began
  to wait, so it remembers how many there had been. Setting the state and notifying are two
  steps, as in setConnectionStateAndNotifyAll.
\<close>

datatype watcher_pc =
    CheckRunning
  | AboutToWait
  | WaitingForChange nat
  | GotState ConnectionState
  | Reconnecting
  | AwaitingConnect
  | WatcherLeft

text \<open>\<open>linkUp\<close>: what isConnected of the connection answers. \<open>unsentNotify\<close>: states set and not notified yet.\<close>

record watcher_system =
  watcherPc :: watcher_pc
  isModuleRunning :: bool
  sharedState :: watchdog
  unsentNotify :: nat
  linkUp :: bool

definition initial_watcher :: watcher_system where
  "initial_watcher = \<lparr>watcherPc = CheckRunning, isModuleRunning = True,
     sharedState = \<lparr>connectionState = NotConnected, notifications = 0, singleNotifications = 0, sequenceCode = 0\<rparr>,
     unsentNotify = 0, linkUp = False\<rparr>"

text \<open>
  The watcher's own next step; no value while it is blocked or has left. \<open>connects\<close> is what the
  connect of a reconnection attempt answers. A failed attempt closes the socket; an attempt that
  connected sends the request and waits for a notification, or ten seconds, whatever comes
  first, so that wait always ends.
\<close>

definition watcher_next :: "bool \<Rightarrow> watcher_system \<Rightarrow> watcher_system option" where
  "watcher_next connects s =
     (case watcherPc s of
        CheckRunning \<Rightarrow> Some (s\<lparr>watcherPc := (if isModuleRunning s then AboutToWait else WatcherLeft)\<rparr>)
      | AboutToWait \<Rightarrow> Some (s\<lparr>watcherPc := WaitingForChange (notifications (sharedState s))\<rparr>)
      | WaitingForChange n \<Rightarrow>
          (if n < notifications (sharedState s)
           then Some (s\<lparr>watcherPc := GotState (connectionState (sharedState s))\<rparr>) else None)
      | GotState st \<Rightarrow>
          (case st of
             NotConnected \<Rightarrow> Some (s\<lparr>watcherPc := Reconnecting\<rparr>)
           | Connected \<Rightarrow> Some (s\<lparr>watcherPc := CheckRunning\<rparr>)
           | Shutdown \<Rightarrow> Some (s\<lparr>watcherPc := WatcherLeft\<rparr>))
      | Reconnecting \<Rightarrow>
          (if \<not> linkUp s \<and> isModuleRunning s then
             (if connects then Some (s\<lparr>watcherPc := AwaitingConnect, linkUp := True\<rparr>)
              else Some (s\<lparr>linkUp := False\<rparr>))
           else Some (s\<lparr>watcherPc := CheckRunning\<rparr>))
      | AwaitingConnect \<Rightarrow>
          (if connectionState (sharedState s) = Connected then Some (s\<lparr>watcherPc := Reconnecting\<rparr>)
           else Some (s\<lparr>watcherPc := Reconnecting, linkUp := False\<rparr>))
      | WatcherLeft \<Rightarrow> None)"

text \<open>
  The other threads: they set the state, notify, close or open the link, and stop the module. A
  spurious wake-up is a step of its own.
\<close>

inductive watcher_step :: "watcher_system \<Rightarrow> watcher_system \<Rightarrow> bool" where
  own: "watcher_next connects s = Some s' \<Longrightarrow> watcher_step s s'"
| spurious: "watcherPc s = WaitingForChange n \<Longrightarrow>
    watcher_step s (s\<lparr>watcherPc := GotState (connectionState (sharedState s))\<rparr>)"
| set_state: "watcher_step s (s\<lparr>sharedState := setConnectionState st (sharedState s), unsentNotify := Suc (unsentNotify s)\<rparr>)"
| notify: "0 < unsentNotify s \<Longrightarrow>
    watcher_step s (s\<lparr>sharedState := (sharedState s)\<lparr>notifications := Suc (notifications (sharedState s))\<rparr>,
                      unsentNotify := unsentNotify s - 1\<rparr>)"
| link: "watcher_step s (s\<lparr>linkUp := b\<rparr>)"
| stop: "watcher_step s (s\<lparr>isModuleRunning := False\<rparr>)"

inductive watcher_reachable :: "watcher_system \<Rightarrow> bool" where
  start: "watcher_reachable initial_watcher"
| step: "watcher_reachable s \<Longrightarrow> watcher_step s s' \<Longrightarrow> watcher_reachable s'"

section \<open>The invariant\<close>

text \<open>No thread has seen more notifications than were sent.\<close>

definition watcher_inv :: "watcher_system \<Rightarrow> bool" where
  "watcher_inv s \<longleftrightarrow>
     (case watcherPc s of
        WaitingForChange n \<Rightarrow> n \<le> notifications (sharedState s)
      | _ \<Rightarrow> True)"

lemma watcher_next_inv: "watcher_next connects s = Some s' \<Longrightarrow> watcher_inv s'"
  by (auto simp: watcher_next_def watcher_inv_def split: watcher_pc.splits ConnectionState.splits if_splits)

lemma watcher_step_inv: "watcher_step s s' \<Longrightarrow> watcher_inv s \<Longrightarrow> watcher_inv s'"
proof (induction rule: watcher_step.induct)
  case (own connects s s')
  from own.hyps show ?case by (rule watcher_next_inv)
qed (auto simp: watcher_inv_def setConnectionState_def split: watcher_pc.splits)

lemma watcher_reachable_inv: "watcher_reachable s \<Longrightarrow> watcher_inv s"
proof (induction rule: watcher_reachable.induct)
  case start
  show ?case by (simp add: watcher_inv_def initial_watcher_def)
qed (rule watcher_step_inv)

section \<open>Leaving\<close>

text \<open>The watcher alone, for up to k steps, every connect failing.\<close>

fun watcher_run :: "nat \<Rightarrow> watcher_system \<Rightarrow> watcher_system" where
  "watcher_run 0 s = s"
| "watcher_run (Suc k) s = (case watcher_next False s of None \<Rightarrow> s | Some s' \<Rightarrow> watcher_run k s')"

text \<open>Blocked in the wait with nothing sent since, or just before it.\<close>

definition misses_shutdown :: "watcher_system \<Rightarrow> bool" where
  "misses_shutdown s \<longleftrightarrow>
     (case watcherPc s of
        AboutToWait \<Rightarrow> True
      | WaitingForChange n \<Rightarrow> n = notifications (sharedState s)
      | _ \<Rightarrow> False)"

section \<open>Properties\<close>

text \<open>C36:
  Once the module is stopped, in every reachable state the watcher thread left to itself ends
  within five of its own steps, unless it stands between its check of isModuleRunning and its
  wait, or waits with no notification sent since it began: exactly in those two cases it ends
  up blocked in the wait.
\<close>
theorem watcher_leaves_unless_missed:
  assumes "watcher_reachable s" and "\<not> isModuleRunning s"
  shows "if misses_shutdown s
    then watcherPc (watcher_run 5 s) = WaitingForChange (notifications (sharedState s)) \<and>
      watcher_next connects (watcher_run 5 s) = None
    else watcherPc (watcher_run 5 s) = WatcherLeft"
proof -
  have five: "watcher_run 5 s = watcher_run (Suc (Suc (Suc (Suc (Suc 0))))) s"
    by (simp only: numeral_eq_Suc pred_numeral_simps BitM.simps)
  have "watcher_inv s" using assms(1) by (rule watcher_reachable_inv)
  with assms(2) show ?thesis
    unfolding five
    by (cases "watcherPc s")
      (auto simp: watcher_next_def misses_shutdown_def watcher_inv_def split: ConnectionState.splits)
qed

text \<open>
  The interleaving that misses the shutdown: the watcher has checked that the module runs; then
  the module is stopped, the state set and the notification sent; then the watcher waits.
\<close>

definition stopped_watcher :: watcher_system where
  "stopped_watcher = initial_watcher\<lparr>watcherPc := WaitingForChange 1, isModuleRunning := False,
     sharedState := setConnectionStateAndNotifyAll Shutdown (sharedState initial_watcher)\<rparr>"

lemma stopped_watcher_reachable: "watcher_reachable stopped_watcher"
proof -
  let ?a = "initial_watcher\<lparr>watcherPc := AboutToWait\<rparr>"
  let ?b = "?a\<lparr>isModuleRunning := False\<rparr>"
  let ?c = "?b\<lparr>sharedState := setConnectionState Shutdown (sharedState ?b), unsentNotify := Suc (unsentNotify ?b)\<rparr>"
  let ?d = "?c\<lparr>sharedState := (sharedState ?c)\<lparr>notifications := Suc (notifications (sharedState ?c))\<rparr>,
                unsentNotify := unsentNotify ?c - 1\<rparr>"
  have "watcher_reachable ?a"
    by (rule watcher_reachable.step [OF watcher_reachable.start watcher_step.own [of False]])
      (simp add: watcher_next_def initial_watcher_def)
  from watcher_reachable.step [OF this watcher_step.stop] have "watcher_reachable ?b" .
  from watcher_reachable.step [OF this watcher_step.set_state] have "watcher_reachable ?c" .
  from watcher_reachable.step [OF this watcher_step.notify] have "watcher_reachable ?d" by simp
  then show ?thesis
    by (rule watcher_reachable.step [OF _ watcher_step.own [of False]])
      (simp add: watcher_next_def stopped_watcher_def initial_watcher_def setConnectionStateAndNotifyAll_def
        setConnectionState_def Let_def)
qed

theorem watcher_leaves_unless_missed_witness:
  "watcher_reachable stopped_watcher \<and> misses_shutdown stopped_watcher \<and>
   watcherPc (watcher_run 5 stopped_watcher) = WaitingForChange 1"
proof -
  have "\<not> isModuleRunning stopped_watcher" and "misses_shutdown stopped_watcher"
    and "notifications (sharedState stopped_watcher) = 1"
    by (simp_all add: stopped_watcher_def misses_shutdown_def initial_watcher_def setConnectionStateAndNotifyAll_def
        setConnectionState_def Let_def)
  with watcher_leaves_unless_missed [OF stopped_watcher_reachable, of False] stopped_watcher_reachable
  show ?thesis by simp
qed

text \<open>
  There is a reachable interleaving in which the module is stopped, the state is Shutdown and
  every notification has been sent, and the watcher thread is blocked in its wait with nothing
  left that would wake it: joining it does not return unless the state is set once more or the
  wait ends spuriously.
\<close>
lemma shutdown_notification_lost:
  "\<exists>s. watcher_reachable s \<and> \<not> isModuleRunning s \<and> getConnectionState (sharedState s) = Shutdown \<and>
     unsentNotify s = 0 \<and> watcherPc s \<noteq> WatcherLeft \<and> watcher_next True s = None \<and> watcher_next False s = None"
  using stopped_watcher_reachable
  by (intro exI [of _ stopped_watcher])
    (simp add: watcher_next_def stopped_watcher_def initial_watcher_def setConnectionStateAndNotifyAll_def
      setConnectionState_def getConnectionState_def Let_def)

end
