(* ===== verification/Watchdog_Reconnect.thy ===== *)
theory Watchdog_Reconnect
  imports Watchdog_Connection
begin

text \<open>
  The reconnection attempts of WatchdogConnectionWatcher on the connection itself, attempt after
  attempt, with the other threads of the module acting on the connection while the watcher thread
  waits or sleeps.
\<close>

section \<open>The loop\<close>

text \<open>Whether the module runs and whether connect succeeds at an attempt; what the other threads do in its wait.\<close>

record reconnect_env =
  runningAt :: "nat \<Rightarrow> bool"
  connectsAt :: "nat \<Rightarrow> bool"
  othersAt :: "nat \<Rightarrow> watchdog_connection \<Rightarrow> watchdog_connection"

text \<open>A wait without a predicate: after a notification, the time or a spurious wake-up, the state as it is.\<close>

definition timedWaitForConnection ::
    "(watchdog_connection \<Rightarrow> watchdog_connection) \<Rightarrow> watchdog_connection \<Rightarrow> ConnectionState \<times> watchdog_connection" where
  "timedWaitForConnection others c = (let c' = others c in (connectionState (owner c'), c'))"

definition connectModuleToWatchdog ::
    "watchdog_protocol \<Rightarrow> i32 \<Rightarrow> (watchdog_connection \<Rightarrow> watchdog_connection) \<Rightarrow> watchdog_connection \<Rightarrow> watchdog_connection option" where
  "connectModuleToWatchdog P i others c =
     (case sendConnectRequest P i c of
        None \<Rightarrow> None
      | Some c \<Rightarrow>
          (let (state, c) = timedWaitForConnection others c
           in Some (if state = Connected then setTimerExpiration 1000 c else closeSocket c)))"

partial_function (option) reconnectToWatchdog ::
    "watchdog_protocol \<Rightarrow> i32 \<Rightarrow> reconnect_env \<Rightarrow> nat \<Rightarrow> watchdog_connection \<Rightarrow> watchdog_connection option" where
  "reconnectToWatchdog protocol i E k c =
     (if \<not> isConnected c \<and> runningAt E k then
        (let (connected, c) = connect (connectsAt E k) (makeNewSocket c)
         in if connected then
              Option.bind (connectModuleToWatchdog protocol i (othersAt E k) c) (reconnectToWatchdog protocol i E (Suc k))
            else reconnectToWatchdog protocol i E (Suc k) (othersAt E k (closeSocket c)))
      else Some c)"

section \<open>The other threads\<close>

text \<open>The timer, the completion handlers and the shutdown request; a new socket and its connect are the watcher's own.\<close>

inductive others_step :: "watchdog_protocol \<Rightarrow> watchdog_connection \<Rightarrow> watchdog_connection \<Rightarrow> bool" for P where
  timer: "0 < timerWaits c \<Longrightarrow> timerExpired (watchdog_virtuals P) c = Some c' \<Longrightarrow> others_step P c c'"
| header_read: "pendingReads c = ReadHeader # rs \<Longrightarrow>
    postReadMessageHeader (watchdog_virtuals P) hresult c = Some c' \<Longrightarrow> others_step P c c'"
| body_read: "pendingReads c = ReadBody n # rs \<Longrightarrow>
    postReadMessageBody (watchdog_virtuals P) allocated op0 bresult c = Some c' \<Longrightarrow> others_step P c c'"
| header_written: "pendingWrites c = WriteHeader # ws \<Longrightarrow>
    postWriteMessageHeader (watchdog_virtuals P) wresult c = Some c' \<Longrightarrow> others_step P c c'"
| body_written: "pendingWrites c = WriteBody # ws \<Longrightarrow>
    postWriteMessageBody (watchdog_virtuals P) error c = Some c' \<Longrightarrow> others_step P c c'"
| shutdown_request: "sendShutdownRequest P i c = Some c' \<Longrightarrow> others_step P c c'"

inductive others_steps :: "watchdog_protocol \<Rightarrow> watchdog_connection \<Rightarrow> watchdog_connection \<Rightarrow> bool" for P where
  refl: "others_steps P c c"
| step: "others_steps P c c' \<Longrightarrow> others_step P c' c'' \<Longrightarrow> others_steps P c c''"

lemma others_step_connection: "others_step P c c' \<Longrightarrow> connection_step P c c'"
  by (induction rule: others_step.induct) (auto intro: connection_step.intros)

lemma sendMessage_socket: "sendMessage m c = Some c' \<Longrightarrow> socketIsOpen c' = socketIsOpen c \<and> socketPresent c' = socketPresent c"
  by (auto simp: write_defs Let_def split: if_splits option.splits)

lemma sendMessage_defined: "\<exists>c'. sendMessage m c = Some c'"
  by (cases "messagesQueue c") (simp_all add: sendMessage_def push_def writeMessageHeader_def front_def Let_def)

lemma disconnect_closed: "\<not> socketIsOpen c \<Longrightarrow> \<not> socketIsOpen (wd_disconnect c)"
  by (simp add: wd_disconnect_def Let_def)

text \<open>With no read pending they cannot open a socket that is closed.\<close>

lemma others_step_closed: "others_step P c c' \<Longrightarrow> pendingReads c = [] \<Longrightarrow> \<not> socketIsOpen c \<Longrightarrow> \<not> socketIsOpen c'"
proof (induction rule: others_step.induct)
  case (timer c c')
  then have "sendPing P (c\<lparr>timerWaits := timerWaits c - 1\<rparr>) = Some c'"
    by (simp add: timerExpired_def watchdog_virtuals_def wd_onTimerExpiration_def)
  from sendMessage_socket [OF this [unfolded sendPing_def]] timer.prems show ?case by simp
next
  case (header_written c ws r c')
  then show ?case
    using disconnect_closed [of "c\<lparr>pendingWrites := tl (pendingWrites c)\<rparr>"]
    by (auto simp: write_defs watchdog_virtuals_def Let_def split: if_splits option.splits)
next
  case (body_written c ws e c')
  then show ?case
    using disconnect_closed [of "c\<lparr>pendingWrites := tl (pendingWrites c)\<rparr>"]
    by (auto simp: write_defs watchdog_virtuals_def Let_def split: if_splits option.splits)
next
  case (shutdown_request i c c')
  from sendMessage_socket [OF shutdown_request.hyps [unfolded sendShutdownRequest_def]] shutdown_request.prems
  show ?case by simp
qed simp_all

definition given_up :: "watchdog_connection \<Rightarrow> bool" where
  "given_up c \<longleftrightarrow> cut_off c \<and> \<not> socketIsOpen c"

lemma others_steps_cut_off: "others_steps P c c' \<Longrightarrow> cut_off c \<Longrightarrow> cut_off c'"
  by (induction rule: others_steps.induct) (auto dest: others_step_connection connection_step_cut_off)

lemma others_steps_given_up: "others_steps P c c' \<Longrightarrow> given_up c \<Longrightarrow> given_up c'"
proof (induction rule: others_steps.induct)
  case (step c c' c'')
  then have "given_up c'" by blast
  with step.hyps(2) show ?case
    using others_step_closed connection_step_cut_off [OF others_step_connection] by (auto simp: given_up_def cut_off_def)
qed

section \<open>One attempt\<close>

lemma closed_given_up: "cut_off c \<Longrightarrow> given_up (closeSocket c)"
  by (simp add: given_up_def cut_off_def closeSocket_def)

lemma connect_attempt:
  assumes "cut_off c" and "connect b (makeNewSocket c) = (ok, c')"
  shows "cut_off c'" and "ok = b"
  using assms by (auto simp: connect_def makeNewSocket_def cut_off_def Let_def split: if_splits)

lemma connectModule_gives_up:
  assumes "cut_off c" and "\<And>c. others_steps P c (others c)"
  obtains c' where "connectModuleToWatchdog P i others c = Some c'" and "given_up c'"
proof -
  obtain c1 where send: "sendConnectRequest P i c = Some c1"
    unfolding sendConnectRequest_def using sendMessage_defined by blast
  then have "cut_off c1"
    unfolding sendConnectRequest_def using same_reads_sendMessage cut_off_same [OF assms(1)] by blast
  then have "cut_off (others c1)" using assms(2) others_steps_cut_off by blast
  with send that closed_given_up show ?thesis
    by (simp add: connectModuleToWatchdog_def timedWaitForConnection_def cut_off_def Let_def)
qed

text \<open>An attempt ends with the connection given up again, whatever connect answers; f is what follows.\<close>

lemma reconnect_attempt:
  assumes "given_up c" and "\<And>k c. others_steps P c (othersAt E k c)"
  obtains c' where "given_up c'" and "(if \<not> isConnected c \<and> runningAt E k then
      (let (connected, c) = connect (connectsAt E k) (makeNewSocket c)
       in if connected then Option.bind (connectModuleToWatchdog P i (othersAt E k) c) (f (Suc k))
          else f (Suc k) (othersAt E k (closeSocket c)))
      else Some c) = (if runningAt E k then f (Suc k) c' else Some c)"
proof -
  obtain ok c1 where conn: "connect (connectsAt E k) (makeNewSocket c) = (ok, c1)" by fastforce
  from assms(1) conn have cut: "cut_off c1" using connect_attempt(1) by (auto simp: given_up_def)
  have closed: "\<not> isConnected c" using assms(1) by (simp add: given_up_def isConnected_def)
  show ?thesis
  proof (cases ok)
    case True
    obtain c' where "connectModuleToWatchdog P i (othersAt E k) c1 = Some c'" and "given_up c'"
      by (rule connectModule_gives_up [OF cut assms(2)])
    with True conn closed that show ?thesis by simp
  next
    case False
    have "given_up (othersAt E k (closeSocket c1))"
      using others_steps_given_up [OF assms(2) closed_given_up [OF cut]] .
    with False conn closed that show ?thesis by simp
  qed
qed

lemma reconnect_round:
  assumes "given_up c" and "\<And>k c. others_steps P c (othersAt E k c)"
  obtains c' where "given_up c'"
    and "reconnectToWatchdog P i E k c = (if runningAt E k then reconnectToWatchdog P i E (Suc k) c' else Some c)"
proof (rule reconnect_attempt [where f = "reconnectToWatchdog P i E" and k = k and i = i, OF assms])
  fix c'
  assume "given_up c'" and "(if \<not> isConnected c \<and> runningAt E k then
      (let (connected, c) = connect (connectsAt E k) (makeNewSocket c)
       in if connected then Option.bind (connectModuleToWatchdog P i (othersAt E k) c) (reconnectToWatchdog P i E (Suc k))
          else reconnectToWatchdog P i E (Suc k) (othersAt E k (closeSocket c)))
      else Some c) = (if runningAt E k then reconnectToWatchdog P i E (Suc k) c' else Some c)"
  then show ?thesis by (intro that) (simp_all only: reconnectToWatchdog.simps [of P i E k c])
qed

lemma reconnect_stopped:
  assumes "\<And>k c. others_steps P c (othersAt E k c)"
  shows "given_up c \<Longrightarrow> \<forall>j < n. runningAt E (k + j) \<Longrightarrow> \<not> runningAt E (k + n) \<Longrightarrow>
    \<exists>c'. reconnectToWatchdog P i E k c = Some c' \<and> given_up c'"
proof (induction n arbitrary: k c)
  case 0
  obtain c' where "reconnectToWatchdog P i E k c = (if runningAt E k then reconnectToWatchdog P i E (Suc k) c' else Some c)"
    by (rule reconnect_round [OF 0(1) assms])
  with 0 show ?case by simp
next
  case (Suc n)
  obtain c' where c': "given_up c'"
    and loop: "reconnectToWatchdog P i E k c = (if runningAt E k then reconnectToWatchdog P i E (Suc k) c' else Some c)"
    by (rule reconnect_round [OF Suc.prems(1) assms])
  from Suc.prems(2) have "runningAt E k" by force
  moreover have "\<exists>c''. reconnectToWatchdog P i E (Suc k) c' = Some c'' \<and> given_up c''"
    using Suc.IH [OF c', of "Suc k"] Suc.prems(2,3) by (metis Suc_less_eq add_Suc add_Suc_right)
  ultimately show ?case using loop by simp
qed

text \<open>A loop that comes to an end was stopped.\<close>

lemma reconnect_ends_stopped:
  assumes "reconnectToWatchdog P i E k c = Some r" and "given_up c" and "\<And>k c. others_steps P c (othersAt E k c)"
  shows "\<exists>n \<ge> k. \<not> runningAt E n"
proof -
  have "given_up c \<and> (\<forall>k c. others_steps P c (othersAt E k c)) \<longrightarrow> (\<exists>n \<ge> k. \<not> runningAt E n)"
  proof (rule reconnectToWatchdog.raw_induct [where P = "\<lambda>P i E k c r.
      given_up c \<and> (\<forall>k c. others_steps P c (othersAt E k c)) \<longrightarrow> (\<exists>n \<ge> k. \<not> runningAt E n)", OF _ assms(1)], intro impI, elim conjE)
    fix f :: "watchdog_protocol \<Rightarrow> i32 \<Rightarrow> reconnect_env \<Rightarrow> nat \<Rightarrow> watchdog_connection \<Rightarrow> watchdog_connection option"
      and P i E k c r
    assume IH: "\<And>P i E k c r. f P i E k c = Some r \<Longrightarrow>
        given_up c \<and> (\<forall>k c. others_steps P c (othersAt E k c)) \<longrightarrow> (\<exists>n \<ge> k. \<not> runningAt E n)"
      and body: "(if \<not> isConnected c \<and> runningAt E k then
        (let (connected, c) = connect (connectsAt E k) (makeNewSocket c)
         in if connected then Option.bind (connectModuleToWatchdog P i (othersAt E k) c) (f P i E (Suc k))
            else f P i E (Suc k) (othersAt E k (closeSocket c)))
        else Some c) = Some r"
      and given: "given_up c" and others: "\<forall>k c. others_steps P c (othersAt E k c)"
    obtain c' where c': "given_up c'" and "(if runningAt E k then f P i E (Suc k) c' else Some c) = Some r"
      by (rule reconnect_attempt [where f = "f P i E" and i = i and k = k, OF given others [rule_format]])
        (use body in \<open>simp only:\<close>)
    with IH [of P i E "Suc k" c' r] others show "\<exists>n \<ge> k. \<not> runningAt E n"
      by (cases "runningAt E k") (auto dest: Suc_leD)
  qed
  with assms(2,3) show ?thesis by blast
qed

section \<open>Property\<close>

text \<open>C15:
  After a connected module has lost its connection, the reconnection loop of the watcher thread,
  whatever connect answers at each attempt and whatever the timer and the completion handlers do
  while it waits, ends only when the module is stopped, and then the state is NotConnected and
  the socket closed. While the module runs it never returns: the watchdog may accept every
  connection and answer every request.
\<close>
theorem reconnect_never_ends:
  assumes "pendingReads c = [ReadHeader]" and "connectionState (owner c) = Connected"
    and "postReadMessageHeader (watchdog_virtuals P) None c = Some c1" and "\<And>k c. others_steps P c (othersAt E k c)"
  shows "if \<exists>n. \<not> runningAt E n
    then \<exists>c2. reconnectToWatchdog P i E 0 c1 = Some c2 \<and> getConnectionState (owner c2) = NotConnected \<and> \<not> isConnected c2
    else reconnectToWatchdog P i E 0 c1 = None"
proof -
  from assms(1,3) have "c1 = wd_disconnect (c\<lparr>pendingReads := []\<rparr>)"
    by (simp add: postReadMessageHeader_def watchdog_virtuals_def Let_def)
  with assms(2) have given: "given_up c1" by (simp add: given_up_def cut_off_def watchdog_defs Let_def)
  show ?thesis
  proof (cases "\<exists>n. \<not> runningAt E n")
    case True
    define n where "n = (LEAST n. \<not> runningAt E n)"
    have "\<not> runningAt E n" and "\<forall>j < n. runningAt E j"
      using LeastI_ex [OF True] not_less_Least [of _ "\<lambda>n. \<not> runningAt E n"] unfolding n_def by blast+
    with reconnect_stopped [OF assms(4) given, of n 0] True show ?thesis
      by (auto simp: given_up_def cut_off_def getConnectionState_def isConnected_def)
  next
    case False
    have "reconnectToWatchdog P i E 0 c1 = None"
    proof (cases "reconnectToWatchdog P i E 0 c1")
      case (Some r)
      with reconnect_ends_stopped [OF _ given assms(4)] False show ?thesis by blast
    qed simp
    with False show ?thesis by simp
  qed
qed

text \<open>Every connect succeeds; the module runs for ever, or for three attempts.\<close>

theorem reconnect_never_ends_witness:
  "\<exists>c1. postReadMessageHeader (watchdog_virtuals sample_protocol) None sample_watchdog = Some c1 \<and>
     reconnectToWatchdog sample_protocol 704643073 \<lparr>runningAt = (\<lambda>k. True), connectsAt = (\<lambda>k. True), othersAt = (\<lambda>k c. c)\<rparr> 0 c1 = None \<and>
     (\<exists>c2. reconnectToWatchdog sample_protocol 704643073 \<lparr>runningAt = (\<lambda>k. k < 3), connectsAt = (\<lambda>k. True), othersAt = (\<lambda>k c. c)\<rparr> 0 c1 =
       Some c2 \<and> \<not> isConnected c2)"
proof -
  have c: "pendingReads sample_watchdog = [ReadHeader]" "connectionState (owner sample_watchdog) = Connected"
    by (simp_all add: sample_watchdog_def)
  obtain c1 where c1: "postReadMessageHeader (watchdog_virtuals sample_protocol) None sample_watchdog = Some c1"
    by (simp add: postReadMessageHeader_def Let_def)
  have "reconnectToWatchdog sample_protocol 704643073 \<lparr>runningAt = (\<lambda>k. True), connectsAt = (\<lambda>k. True), othersAt = (\<lambda>k c. c)\<rparr> 0 c1 = None"
    using reconnect_never_ends [OF c c1, of "\<lparr>runningAt = (\<lambda>k. True), connectsAt = (\<lambda>k. True), othersAt = (\<lambda>k c. c)\<rparr>" 704643073]
    by (simp add: others_steps.refl)
  moreover have "\<exists>n :: nat. \<not> n < 3" by presburger
  then have "\<exists>c2. reconnectToWatchdog sample_protocol 704643073 \<lparr>runningAt = (\<lambda>k. k < 3), connectsAt = (\<lambda>k. True), othersAt = (\<lambda>k c. c)\<rparr> 0 c1 =
       Some c2 \<and> \<not> isConnected c2"
    using reconnect_never_ends [OF c c1, of "\<lparr>runningAt = (\<lambda>k. k < 3), connectsAt = (\<lambda>k. True), othersAt = (\<lambda>k c. c)\<rparr>" 704643073]
    by (auto simp: others_steps.refl)
  ultimately show ?thesis using c1 by blast
qed

end
