(* ===== verification/Startup.thy ===== *)
theory Startup
  imports Managers Watchdog_Watcher Watchdog_Reconnect
begin

text \<open>
  ModuleBase and ModuleMain: how the parts are set up, in which order, and how the process ends.
  The user's program, the command line parser, the file system and the connect call are
  parameters; what happens to the watchdog connection while main waits for it is the function
  \<open>meanwhile\<close>, and what the handlers that run between the shutdown request and the stop of the
  io_context do to it, in poll or on the io_context thread, is \<open>poll\<close>. The user's
  program returns a code, throws, or never returns, which is the outcome \<^const>\<open>Blocks\<close>.
\<close>

section \<open>The module\<close>

record ('addr, 'any, 'h, 'w) module_base =
  moduleIdentifierGlobal :: i32
  runningGlobal :: bool
  ioContextStopped :: bool
  databaseInstance :: bool
  eventManagerSet :: bool
  theConfiguration :: configuration
  theLog :: "log_instance option"
  watchdogConnection :: watchdog_connection
  theServer :: "('addr, 'any, 'h, 'w) server"
  theManager :: manager_instance

record ('addr, 'any, 'h, 'w, 'j, 'f) startup_env =
  jsonLibrary :: "('j, 'f) json_library"
  openFile :: "string \<Rightarrow> 'f option"
  protocol :: watchdog_protocol
  connectSucceeds :: bool
  meanwhile :: "watchdog_connection \<Rightarrow> watchdog_connection"
  serverEnv :: "('addr, 'any, 'h, 'w) server_env"
  userTask :: "('addr, 'any, 'h, 'w) module_base \<Rightarrow> (unit, i32, ('addr, 'any, 'h, 'w) module_base) outcome"
  poll :: "watchdog_connection \<Rightarrow> watchdog_connection"

text \<open>
  The constructor: every part new and empty, the configuration at its defaults; whether the
  database driver and the event manager could be constructed is not checked.
\<close>

definition new_module_base ::
    "bool \<Rightarrow> bool \<Rightarrow> i32 \<Rightarrow> log_instance option \<Rightarrow> u32 \<Rightarrow> 'w \<Rightarrow> ('addr, 'any, 'h, 'w) module_base" where
  "new_module_base db_constructs allocated i logger code w =
     (let (_, db) = db_initialize db_constructs False;
          (_, manager) = initializeEventManager allocated \<lparr>eventManager = False, managedEvents = []\<rparr>
      in \<lparr>moduleIdentifierGlobal = i, runningGlobal = True, ioContextStopped = False,
          databaseInstance = db, eventManagerSet = eventManager manager,
          theConfiguration = initial_configuration, theLog = logger,
          watchdogConnection = new_watchdog_connection code,
          theServer = new_server Map.empty (managedEvents manager) w, theManager = None\<rparr>)"

lemma new_module_base_simps:
  "moduleIdentifierGlobal (new_module_base d a i l code w) = i"
  "runningGlobal (new_module_base d a i l code w)"
  "databaseInstance (new_module_base d a i l code w) = d"
  "eventManagerSet (new_module_base d a i l code w) = a"
  "theConfiguration (new_module_base d a i l code w) = initial_configuration"
  "watchdogConnection (new_module_base d a i l code w) = new_watchdog_connection code"
  "theServer (new_module_base d a i l code w) = new_server Map.empty [] w"
  "theManager (new_module_base d a i l code w) = None"
  by (simp_all add: new_module_base_def db_initialize_def initializeEventManager_def)

type_synonym ('addr, 'any, 'h, 'w, 'a) module_result = "(unit, 'a, ('addr, 'any, 'h, 'w) module_base) outcome"

text \<open>What the server is told by the configuration singleton, the global identifier and the database instance.\<close>

definition configured_env ::
    "('addr, 'any, 'h, 'w, 'j, 'f) startup_env \<Rightarrow> ('addr, 'any, 'h, 'w) module_base \<Rightarrow> ('addr, 'any, 'h, 'w) server_env" where
  "configured_env E b = (serverEnv E)\<lparr>configured := serverConfiguration (theConfiguration b),
     moduleIdentifier := moduleIdentifierGlobal b, databaseInitialised := databaseInstance b\<rparr>"

text \<open>
  The command line: no value when the parser throws, else the value of the option when it is
  given.
\<close>

definition validateOptions :: "u32 option option \<Rightarrow> i32 \<Rightarrow> i32" where
  "validateOptions options i =
     (case options of
        None \<Rightarrow> i
      | Some None \<Rightarrow> i
      | Some (Some identifier) \<Rightarrow> identifier)"

definition mb_readConfiguration ::
    "('addr, 'any, 'h, 'w, 'j, 'f) startup_env \<Rightarrow> ('addr, 'any, 'h, 'w) module_base \<Rightarrow> ('addr, 'any, 'h, 'w, bool) module_result" where
  "mb_readConfiguration E b =
     (case readConfiguration (jsonLibrary E) (openFile E) (moduleIdentifierGlobal b) (theConfiguration b) of
        Done ok c \<Rightarrow> Done ok (b\<lparr>theConfiguration := c\<rparr>)
      | Throws e c \<Rightarrow> Throws e (b\<lparr>theConfiguration := c\<rparr>)
      | Blocks \<Rightarrow> Blocks
      | Undefined \<Rightarrow> Undefined)"

definition configureModule :: "('addr, 'any, 'h, 'w) module_base \<Rightarrow> ('addr, 'any, 'h, 'w, bool) module_result" where
  "configureModule b =
     Done True (b\<lparr>theLog := updateConfiguration (moduleIdentifierGlobal b) (theConfiguration b) (theLog b)\<rparr>)"

definition startWatchdogConnectionTask ::
    "('addr, 'any, 'h, 'w, 'j, 'f) startup_env \<Rightarrow> ('addr, 'any, 'h, 'w) module_base \<Rightarrow> ('addr, 'any, 'h, 'w, bool) module_result" where
  "startWatchdogConnectionTask E b =
     (let (connected, c) = connect (connectSucceeds E) (watchdogConnection b)
      in if connected then
           (case sendConnectRequest (protocol E) (moduleIdentifierGlobal b) c of None \<Rightarrow> Undefined
            | Some c1 \<Rightarrow>
                (case startReadingSequence True ConnectRequest c1 of None \<Rightarrow> Undefined
                 | Some c2 \<Rightarrow> Done True (b\<lparr>watchdogConnection := c2\<rparr>)))
         else Done False (b\<lparr>watchdogConnection := c\<rparr>))"

text \<open>The wait of at most ten seconds, then the state as it is.\<close>

definition waitForRegisterToWatchdog ::
    "('addr, 'any, 'h, 'w, 'j, 'f) startup_env \<Rightarrow> ('addr, 'any, 'h, 'w) module_base \<Rightarrow> ('addr, 'any, 'h, 'w, bool) module_result" where
  "waitForRegisterToWatchdog E b =
     (let (state, c) = timedWaitForConnection (meanwhile E) (watchdogConnection b)
      in if state = Connected
         then Done True (b\<lparr>watchdogConnection := setTimerExpiration 1000 c\<rparr>)
         else Done False (b\<lparr>watchdogConnection := c\<rparr>))"

lemma waitForRegisterToWatchdog_unfold:
  "waitForRegisterToWatchdog E b =
     (let c = meanwhile E (watchdogConnection b)
      in if getConnectionState (owner c) = Connected
         then Done True (b\<lparr>watchdogConnection := setTimerExpiration 1000 c\<rparr>)
         else Done False (b\<lparr>watchdogConnection := c\<rparr>))"
  by (simp add: waitForRegisterToWatchdog_def timedWaitForConnection_def getConnectionState_def Let_def)

definition startModuleServer ::
    "('addr, 'any, 'h, 'w, 'j, 'f) startup_env \<Rightarrow> ('addr, 'any, 'h, 'w) module_base \<Rightarrow> ('addr, 'any, 'h, 'w, bool) module_result" where
  "startModuleServer E b =
     (case bindToListeningSocket (configured_env E b) (theServer b) of
        Done bound s \<Rightarrow>
          Done True (b\<lparr>theServer := startReading s, theManager := snd (manager_initialize True True (theManager b))\<rparr>)
      | Throws e s \<Rightarrow> Done False (b\<lparr>theServer := s\<rparr>)
      | Blocks \<Rightarrow> Blocks
      | Undefined \<Rightarrow> Undefined)"

section \<open>main up to the user's program\<close>

datatype ModuleStartupErrors = NoStartupError | FailedToReadConfiguration | FailedToConfigureModule
  | StartConnectionTaskFailed | WaitForRegistrationTimeout | StartModuleServerFailed

fun startup_code :: "ModuleStartupErrors \<Rightarrow> nat" where
  "startup_code NoStartupError = 0"
| "startup_code FailedToReadConfiguration = 1"
| "startup_code FailedToConfigureModule = 2"
| "startup_code StartConnectionTaskFailed = 3"
| "startup_code WaitForRegistrationTimeout = 4"
| "startup_code StartModuleServerFailed = 5"

text \<open>One branch of the chain of main: the next one when it succeeds, its error otherwise.\<close>

definition startup_stage ::
    "('b \<Rightarrow> (unit, bool, 'b) outcome) \<Rightarrow> ModuleStartupErrors \<Rightarrow> ('b \<Rightarrow> (unit, ModuleStartupErrors, 'b) outcome)
      \<Rightarrow> 'b \<Rightarrow> (unit, ModuleStartupErrors, 'b) outcome" where
  "startup_stage run failure continue b =
     andThen (run b) (\<lambda>ok b. if \<not> ok then Done failure b else continue b)"

definition module_startup ::
    "('addr, 'any, 'h, 'w, 'j, 'f) startup_env \<Rightarrow> ('addr, 'any, 'h, 'w) module_base
      \<Rightarrow> (unit, ModuleStartupErrors, ('addr, 'any, 'h, 'w) module_base) outcome" where
  "module_startup E =
     startup_stage (mb_readConfiguration E) FailedToReadConfiguration
    (startup_stage configureModule FailedToConfigureModule
    (startup_stage (startWatchdogConnectionTask E) StartConnectionTaskFailed
    (startup_stage (waitForRegisterToWatchdog E) WaitForRegistrationTimeout
    (startup_stage (startModuleServer E) StartModuleServerFailed
    (Done NoStartupError)))))"

definition startUserTask ::
    "('addr, 'any, 'h, 'w, 'j, 'f) startup_env \<Rightarrow> ('addr, 'any, 'h, 'w) module_base \<Rightarrow> ('addr, 'any, 'h, 'w, i32) module_result" where
  "startUserTask E b = userTask E b"

section \<open>The end of the process\<close>

text \<open>Setting the state of the connection to Shutdown, with its notification.\<close>

definition shut_down :: "('addr, 'any, 'h, 'w) module_base \<Rightarrow> ('addr, 'any, 'h, 'w) module_base" where
  "shut_down b =
     (let c = watchdogConnection b
      in b\<lparr>watchdogConnection := c\<lparr>owner := setConnectionStateAndNotifyAll Shutdown (owner c)\<rparr>\<rparr>)"

definition moduleShutdownHandler ::
    "('addr, 'any, 'h, 'w, 'j, 'f) startup_env \<Rightarrow> ('addr, 'any, 'h, 'w) module_base \<Rightarrow> ('addr, 'any, 'h, 'w, unit) module_result" where
  "moduleShutdownHandler E b =
     (let b = b\<lparr>runningGlobal := False\<rparr>
      in case sendShutdownRequest (protocol E) (moduleIdentifierGlobal b) (watchdogConnection b) of
           None \<Rightarrow> Undefined
         | Some c \<Rightarrow> Done () (shut_down (b\<lparr>watchdogConnection := poll E c, ioContextStopped := True\<rparr>)))"

datatype module_thread = IoContextWorkThread | WatchdogConnectionWatcherThread | TimersThread

datatype process_end = Returns nat | Terminates | NeverEnds

text \<open>
  Which threads end. The io_context runs until it is stopped, and then if the handler it is in
  returns, \<open>handlers\<close>; the watcher ends or not, \<open>watcher\<close>, see the theory of the watcher;
  TimersThreadMain is a loop without exit.
\<close>

definition thread_ends :: "bool \<Rightarrow> bool \<Rightarrow> ('addr, 'any, 'h, 'w) module_base \<Rightarrow> module_thread \<Rightarrow> bool" where
  "thread_ends handlers watcher b t =
     (case t of
        IoContextWorkThread \<Rightarrow> ioContextStopped b \<and> handlers
      | WatchdogConnectionWatcherThread \<Rightarrow> watcher
      | TimersThread \<Rightarrow> False)"

text \<open>Joining a thread waits until it ends; the threads that are still joinable are a set.\<close>

definition join_thread :: "(module_thread \<Rightarrow> bool) \<Rightarrow> module_thread \<Rightarrow> module_thread set \<Rightarrow> module_thread set option" where
  "join_thread ends t joinable = (if ends t then Some (joinable - {t}) else None)"

definition joinAll :: "(module_thread \<Rightarrow> bool) \<Rightarrow> module_thread set \<Rightarrow> module_thread set option" where
  "joinAll ends joinable =
     Option.bind (join_thread ends IoContextWorkThread joinable) (\<lambda>j.
     Option.bind (join_thread ends WatchdogConnectionWatcherThread j) (\<lambda>j.
     join_thread ends TimersThread j))"

text \<open>The destructor joins two of the three; a std::thread destroyed while joinable terminates the process.\<close>

definition destroy_module_base ::
    "bool \<Rightarrow> bool \<Rightarrow> nat \<Rightarrow> module_thread set \<Rightarrow> ('addr, 'any, 'h, 'w) module_base
      \<Rightarrow> process_end \<times> ('addr, 'any, 'h, 'w) module_base" where
  "destroy_module_base handlers watcher code joinable b =
     (let b = shut_down (b\<lparr>runningGlobal := False\<rparr>);
          joined = (\<lambda>t b j. if t \<in> j then join_thread (thread_ends handlers watcher b) t j else Some j)
      in case joined WatchdogConnectionWatcherThread b joinable of
           None \<Rightarrow> (NeverEnds, b)
         | Some j \<Rightarrow>
             (let b = b\<lparr>ioContextStopped := True\<rparr>
              in case joined IoContextWorkThread b j of
                   None \<Rightarrow> (NeverEnds, b)
                 | Some j' \<Rightarrow> (if j' \<noteq> {} then Terminates else Returns code, b)))"

definition module_threads :: "module_thread set" where
  "module_threads = {IoContextWorkThread, WatchdogConnectionWatcherThread, TimersThread}"

text \<open>
  main from the constructed module on, which has started the three threads: the chain, then
  either the error or the user's program with the shutdown handler and joinAll, then the
  destructor of the local module and the code.
\<close>

definition module_main ::
    "('addr, 'any, 'h, 'w, 'j, 'f) startup_env \<Rightarrow> bool \<Rightarrow> bool \<Rightarrow> ('addr, 'any, 'h, 'w) module_base
      \<Rightarrow> ('addr, 'any, 'h, 'w, process_end) module_result" where
  "module_main E handlers watcher b =
     andThen (module_startup E b) (\<lambda>result b.
       if result \<noteq> NoStartupError
       then case_prod Done (destroy_module_base handlers watcher (startup_code result) module_threads b)
       else andThen (startUserTask E b) (\<lambda>userReturnCode b.
            andThen (moduleShutdownHandler E b) (\<lambda>_ b.
         case joinAll (thread_ends handlers watcher b) module_threads of
           None \<Rightarrow> Done NeverEnds b
         | Some j \<Rightarrow> case_prod Done (destroy_module_base handlers watcher (startup_code result) j b))))"

section \<open>What a stage leaves alone\<close>

lemma mb_readConfiguration_frame:
  "mb_readConfiguration E b = Done ok b' \<Longrightarrow>
    watchdogConnection b' = watchdogConnection b \<and> theServer b' = theServer b \<and> theManager b' = theManager b"
  by (auto simp: mb_readConfiguration_def split: outcome.splits)

lemma mb_readConfiguration_never: "mb_readConfiguration E b \<noteq> Throws e b'" "mb_readConfiguration E b \<noteq> Blocks"
  by (auto simp: mb_readConfiguration_def readConfiguration_def readConfig_def server_readFromJson_result
      split: outcome.splits option.splits json_result.splits prod.splits)

lemma startWatchdogConnectionTask_frame:
  "startWatchdogConnectionTask E b = Done ok b' \<Longrightarrow>
    theServer b' = theServer b \<and> theManager b' = theManager b \<and>
    ok = (connectSucceeds E \<and> socketPresent (watchdogConnection b))"
  by (auto simp: startWatchdogConnectionTask_def connect_def Let_def split: if_splits option.splits)

lemma startWatchdogConnectionTask_never:
  "startWatchdogConnectionTask E b \<noteq> Throws e b'" "startWatchdogConnectionTask E b \<noteq> Blocks"
  by (auto simp: startWatchdogConnectionTask_def connect_def Let_def split: if_splits option.splits)

lemma waitForRegisterToWatchdog_frame:
  "waitForRegisterToWatchdog E b = Done ok b' \<Longrightarrow>
    theServer b' = theServer b \<and> theManager b' = theManager b \<and>
    ok = (getConnectionState (owner (watchdogConnection b')) = Connected)"
  by (auto simp: waitForRegisterToWatchdog_unfold setTimerExpiration_def Let_def split: if_splits)

lemma waitForRegisterToWatchdog_returns:
  obtains ok b' where "waitForRegisterToWatchdog E b = Done ok b'"
  by (cases "getConnectionState (owner (meanwhile E (watchdogConnection b))) = Connected")
    (auto simp: waitForRegisterToWatchdog_unfold Let_def)

lemma startModuleServer_frame:
  obtains ok b' where "startModuleServer E b = Done ok b'"
    and "if ok then readingStarted (theServer b')
      else theManager b' = theManager b \<and> readingStarted (theServer b') = readingStarted (theServer b)"
    and "watchdogConnection b' = watchdogConnection b"
  by (cases "socket_open_ok (serverEnv E)"; cases "socket_bind_ok (serverEnv E) (listeningPort (serverConfiguration (theConfiguration b)))")
    (auto simp: startModuleServer_def bindToListeningSocket_def configured_env_def startReading_def Let_def)

lemma joinAll_never: "joinAll (thread_ends handlers watcher b) joinable = None"
  by (simp add: joinAll_def join_thread_def thread_ends_def)

lemma destroy_never_returns:
  "fst (destroy_module_base handlers watcher code module_threads b) = (if handlers \<and> watcher then Terminates else NeverEnds)"
  "getConnectionState (owner (watchdogConnection (snd (destroy_module_base handlers watcher code module_threads b)))) = Shutdown"
  "\<not> runningGlobal (snd (destroy_module_base handlers watcher code module_threads b))"
  by (auto simp: destroy_module_base_def module_threads_def join_thread_def thread_ends_def shut_down_def
      getConnectionState_def setConnectionStateAndNotifyAll_def setConnectionState_def Let_def)

section \<open>Which stage fails\<close>

text \<open>The stages that answered true, one after the other, from b to b'.\<close>

fun stages_pass :: "('b \<Rightarrow> (unit, bool, 'b) outcome) list \<Rightarrow> 'b \<Rightarrow> 'b \<Rightarrow> bool" where
  "stages_pass [] b b' \<longleftrightarrow> b' = b"
| "stages_pass (run # runs) b b' \<longleftrightarrow> (case run b of Done True b1 \<Rightarrow> stages_pass runs b1 b' | _ \<Rightarrow> False)"

text \<open>The file of the module opens, parses and has the four settings of the server.\<close>

fun is_value :: "'v json_result \<Rightarrow> bool" where
  "is_value (Value v) \<longleftrightarrow> True"
| "is_value _ \<longleftrightarrow> False"

lemma is_value_iff: "is_value r \<longleftrightarrow> (\<exists>v. r = Value v)"
  by (cases r) simp_all

definition configuration_complete :: "('addr, 'any, 'h, 'w, 'j, 'f) startup_env \<Rightarrow> i32 \<Rightarrow> bool" where
  "configuration_complete E i \<longleftrightarrow>
     (case openFile E (configuration_file i) of
        None \<Rightarrow> False
      | Some ifs \<Rightarrow>
          (case json_parse (jsonLibrary E) ifs of
             Value j \<Rightarrow> (case server_fields (jsonLibrary E) j of
               (a, t, l, p) \<Rightarrow> is_value a \<and> is_value t \<and> is_value l \<and> is_value p)
           | _ \<Rightarrow> False))"

lemma configuration_complete_iff:
  "configuration_complete E i \<longleftrightarrow> (\<exists>c'. readConfiguration (jsonLibrary E) (openFile E) i c = Done True c')"
  unfolding configuration_read_complete
  by (auto simp: configuration_complete_def is_value_iff split: option.splits json_result.splits prod.splits)

lemma mb_readConfiguration_ok:
  "mb_readConfiguration E b = Done ok b' \<Longrightarrow> ok = configuration_complete E (moduleIdentifierGlobal b)"
  by (cases ok) (auto simp: mb_readConfiguration_def configuration_complete_iff [where c = "theConfiguration b"] split: outcome.splits)

text \<open>The socket opens and binds to the configured port.\<close>

definition server_binds :: "('addr, 'any, 'h, 'w, 'j, 'f) startup_env \<Rightarrow> ('addr, 'any, 'h, 'w) module_base \<Rightarrow> bool" where
  "server_binds E b \<longleftrightarrow> socket_open_ok (serverEnv E) \<and>
     socket_bind_ok (serverEnv E) (listeningPort (serverConfiguration (theConfiguration b)))"

lemma startModuleServer_ok: "startModuleServer E b = Done ok b' \<Longrightarrow> ok = server_binds E b"
  by (auto simp: startModuleServer_def server_binds_def bindToListeningSocket_def configured_env_def Let_def
      split: if_splits outcome.splits)

section \<open>Properties\<close>

text \<open>C31:
  The user's program starts only in a module that is ready: the file of the module was read in
  full, the watchdog has answered Connected and the ping timer runs, the socket is bound, the
  buffer has the configured size, a receive is pending, and Module::Manager forwards requests
  to that server. Nothing was parked, queued or sent before. That the database could be reached
  is not among the conditions.
\<close>
theorem startup_ready:
  assumes "module_startup E (new_module_base d m i logger code w) = Done NoStartupError b"
  shows "(\<exists>ifs j a t l p. openFile E (configuration_file i) = Some ifs \<and> json_parse (jsonLibrary E) ifs = Value j \<and>
      server_fields (jsonLibrary E) j = (Value a, Value t, Value l, Value p) \<and>
      messageBufferLength (theServer b) = unat l \<and>
      timeBetweenMessageResendsInSeconds (configured (configured_env E b)) = t \<and>
      socket_bind_ok (serverEnv E) p) \<and>
    connectSucceeds E \<and> getConnectionState (owner (watchdogConnection b)) = Connected \<and>
    0 < timerWaits (watchdogConnection b) \<and>
    databaseInitialised (configured_env E b) = d \<and>
    readingStarted (theServer b) \<and> messageQueue (theServer b) = [] \<and> handedOver (theServer b) = [] \<and>
    server_ok (theServer b) \<and>
    (\<forall>k any. manager_sendRequest (configured_env E b) (theManager b) k any (theServer b) =
       sendRequest (configured_env E b) k any (theServer b))"
proof -
  let ?b0 = "new_module_base d m i logger code w"
  from assms obtain b1 b2 b3 b4 where
    r1: "mb_readConfiguration E ?b0 = Done True b1" and r2: "configureModule b1 = Done True b2"
    and r3: "startWatchdogConnectionTask E b2 = Done True b3" and r4: "waitForRegisterToWatchdog E b3 = Done True b4"
    and r5: "startModuleServer E b4 = Done True b"
    unfolding module_startup_def startup_stage_def
    by (auto simp: andThen_Done_iff split: if_splits)
  from r1 obtain c where read: "readConfiguration (jsonLibrary E) (openFile E) i initial_configuration = Done True c"
    and b1: "b1 = ?b0\<lparr>theConfiguration := c\<rparr>"
    by (auto simp: mb_readConfiguration_def new_module_base_simps split: outcome.splits)
  obtain ifs j a t l p where opened: "openFile E (configuration_file i) = Some ifs" "json_parse (jsonLibrary E) ifs = Value j"
      "server_fields (jsonLibrary E) j = (Value a, Value t, Value l, Value p)"
    and conf: "serverConfiguration c = \<lparr>maxMessageResends = a, timeBetweenMessageResendsInSeconds = t,
           messageBufferSize = l, listeningPort = p\<rparr>"
    using readConfiguration_success [OF read] by blast
  from r2 b1 have b2: "theConfiguration b2 = c" "theServer b2 = theServer ?b0" "theManager b2 = None"
      "databaseInstance b2 = d"
    by (auto simp: configureModule_def new_module_base_simps)
  from r3 have conn: "connectSucceeds E"
    and b3: "theConfiguration b3 = theConfiguration b2" "theServer b3 = theServer b2" "theManager b3 = theManager b2"
      "databaseInstance b3 = databaseInstance b2"
    by (auto simp: startWatchdogConnectionTask_def connect_def Let_def split: if_splits option.splits)
  from r4 have b4: "theConfiguration b4 = theConfiguration b3" "theServer b4 = theServer b3" "theManager b4 = theManager b3"
      "databaseInstance b4 = databaseInstance b3"
    and state: "getConnectionState (owner (watchdogConnection b4)) = Connected" "0 < timerWaits (watchdogConnection b4)"
    by (auto simp: waitForRegisterToWatchdog_unfold setTimerExpiration_def Let_def split: if_splits)
  from r5 obtain bound s where bind: "bindToListeningSocket (configured_env E b4) (theServer b4) = Done bound s"
    and b: "b = b4\<lparr>theServer := startReading s, theManager := snd (manager_initialize True True (theManager b4))\<rparr>"
    by (auto simp: startModuleServer_def split: outcome.splits)
  from bind have s: "s = (theServer b4)\<lparr>socketOpen := True,
      messageBufferLength := unat (messageBufferSize (serverConfiguration (theConfiguration b4)))\<rparr>"
    and port: "socket_bind_ok (serverEnv E) (listeningPort (serverConfiguration (theConfiguration b4)))"
    by (auto simp: bindToListeningSocket_def configured_env_def Let_def split: if_splits)
  have server: "theServer b = started_server (configured_env E b4) Map.empty [] w"
    using b s b2 b3 b4 by (simp add: started_server_def new_module_base_simps configured_env_def)
  have "server_ok (theServer b)" unfolding server by (rule server_ok_start)
  moreover have "messageBufferLength (theServer b) = unat l" and "readingStarted (theServer b)"
    and "messageQueue (theServer b) = []" and "handedOver (theServer b) = []"
    using b2 b3 b4 conf
    by (simp_all add: server started_server_def startReading_def new_server_def configured_env_def)
  moreover have "timeBetweenMessageResendsInSeconds (configured (configured_env E b)) = t"
    using b b2 b3 b4 conf by (simp add: configured_env_def)
  moreover have "databaseInitialised (configured_env E b) = d"
    using b b2 b3 b4 by (simp add: configured_env_def)
  moreover have "theManager b = Some True"
    using b b2 b3 b4 by (simp add: manager_initialize_def)
  moreover have "socket_bind_ok (serverEnv E) p" using port b2 b3 b4 conf by simp
  ultimately show ?thesis
    using opened conn state b by (auto simp: manager_sendRequest_def)
qed

text \<open>
  An environment for the witness: one configuration file, whose fields are given by their keys,
  and a watchdog that accepts the module while main waits.
\<close>

definition sample_json :: "(string, unit) json_library" where
  "sample_json =
     \<lparr>json_at = (\<lambda>j key. Value key),
      json_get_u32 = (\<lambda>j. if j = ''MessageBufferSize'' then Value 64 else Value 5),
      json_get_u16 = (\<lambda>j. if j = ''ListeningPort'' then Value 4000 else Json_exception),
      json_get_string = (\<lambda>j. Value j), json_parse = (\<lambda>f. Value [])\<rparr>"

definition sample_startup :: "(nat, nat, unit, nat, string, unit) startup_env" where
  "sample_startup =
     \<lparr>jsonLibrary = sample_json, openFile = (\<lambda>p. if p = configuration_file 704643073 then Some () else None),
      protocol = sample_protocol, connectSucceeds = True,
      meanwhile = (\<lambda>c. c\<lparr>owner := connect_handleReceivedMessage
        \<lparr>responsecode = ConnectSuccess, sequencecode = Some 3\<rparr> (owner c)\<rparr>),
      serverEnv = sample_env, userTask = (\<lambda>b. Done 0 b), poll = (\<lambda>c. c)\<rparr>"

theorem startup_ready_witness:
  "\<exists>b. module_startup sample_startup (new_module_base True True 704643073 None 7 0) = Done NoStartupError b \<and>
     messageBufferLength (theServer b) = 64 \<and> readingStarted (theServer b) \<and>
     getConnectionState (owner (watchdogConnection b)) = Connected"
proof -
  let ?E = "sample_startup" and ?b = "new_module_base True True 704643073 None 7 0 :: (nat, nat, unit, nat) module_base"
  have "\<exists>b. module_startup ?E ?b = Done NoStartupError b"
    by (simp add: module_startup_def startup_stage_def mb_readConfiguration_def configureModule_def
        startWatchdogConnectionTask_def waitForRegisterToWatchdog_unfold startModuleServer_def
        sample_startup_def sample_json_def new_module_base_simps configuration_defs
        connect_def sendConnectRequest_def sendMessage_def write_defs read_defs
        new_watchdog_connection_def new_connection_def connect_handleReceivedMessage_def onResponseCodeSuccess_def
        setConnectionStateAndNotifyAll_def setConnectionState_def getConnectionState_def
        bindToListeningSocket_def configured_env_def sample_env_def Let_def)
  then obtain b where b: "module_startup ?E ?b = Done NoStartupError b" ..
  have fields: "server_fields (jsonLibrary ?E) j = (Value 5, Value 5, Value 64, Value 4000)" for j
    by (simp add: server_fields_def sample_startup_def sample_json_def json_field_def)
  from startup_ready [OF b] b fields show ?thesis by auto
qed

text \<open>C32:
  The error of main names exactly the stage that failed: that stage answered false, all stages
  before it answered true, in their order, and nothing later has been done; no error means that all
  five answered true. So the configuration could not be read in full; or it was, and the
  connection to the watchdog failed; or that stood, and the watchdog did not answer Connected in
  time; or it did, and the socket did not open or bind. In particular the socket is opened only
  after the watchdog has answered Connected, and the watchdog is contacted only with a
  configuration that was read in full. The error of configureModule is never given, as that stage
  cannot fail.
\<close>
theorem startup_error_codes:
  "case module_startup E b0 of
     Done FailedToReadConfiguration b \<Rightarrow> \<not> configuration_complete E (moduleIdentifierGlobal b0) \<and>
       mb_readConfiguration E b0 = Done False b \<and> watchdogConnection b = watchdogConnection b0 \<and> theServer b = theServer b0
   | Done FailedToConfigureModule b \<Rightarrow> False
   | Done StartConnectionTaskFailed b \<Rightarrow> configuration_complete E (moduleIdentifierGlobal b0) \<and>
       \<not> (connectSucceeds E \<and> socketPresent (watchdogConnection b0)) \<and> theServer b = theServer b0 \<and>
       (\<exists>b2. stages_pass [mb_readConfiguration E, configureModule] b0 b2 \<and> startWatchdogConnectionTask E b2 = Done False b)
   | Done WaitForRegistrationTimeout b \<Rightarrow> configuration_complete E (moduleIdentifierGlobal b0) \<and>
       connectSucceeds E \<and> getConnectionState (owner (watchdogConnection b)) \<noteq> Connected \<and> theServer b = theServer b0 \<and>
       (\<exists>b3. stages_pass [mb_readConfiguration E, configureModule, startWatchdogConnectionTask E] b0 b3 \<and>
          waitForRegisterToWatchdog E b3 = Done False b)
   | Done StartModuleServerFailed b \<Rightarrow> configuration_complete E (moduleIdentifierGlobal b0) \<and>
       connectSucceeds E \<and> getConnectionState (owner (watchdogConnection b)) = Connected \<and>
       theManager b = theManager b0 \<and> readingStarted (theServer b) = readingStarted (theServer b0) \<and>
       (\<exists>b4. stages_pass [mb_readConfiguration E, configureModule, startWatchdogConnectionTask E, waitForRegisterToWatchdog E] b0 b4 \<and>
          \<not> server_binds E b4 \<and> startModuleServer E b4 = Done False b)
   | Done NoStartupError b \<Rightarrow> configuration_complete E (moduleIdentifierGlobal b0) \<and> connectSucceeds E \<and>
       getConnectionState (owner (watchdogConnection b)) = Connected \<and> readingStarted (theServer b) \<and>
       stages_pass [mb_readConfiguration E, configureModule, startWatchdogConnectionTask E, waitForRegisterToWatchdog E,
         startModuleServer E] b0 b
   | Throws e b \<Rightarrow> False
   | Blocks \<Rightarrow> False
   | Undefined \<Rightarrow> mb_readConfiguration E b0 = Undefined \<or>
       (\<exists>b2. stages_pass [mb_readConfiguration E, configureModule] b0 b2 \<and> startWatchdogConnectionTask E b2 = Undefined)"
proof (cases "mb_readConfiguration E b0")
  case (Done ok1 b1)
  note first = Done and f1 = mb_readConfiguration_frame [OF Done] mb_readConfiguration_ok [OF Done]
  obtain b2 where second: "configureModule b1 = Done True b2" and f2: "watchdogConnection b2 = watchdogConnection b1"
    "theServer b2 = theServer b1" "theManager b2 = theManager b1"
    by (simp add: configureModule_def)
  show ?thesis
  proof (cases "startWatchdogConnectionTask E b2")
    case (Done ok3 b3)
    note third = Done and f3 = startWatchdogConnectionTask_frame [OF Done]
    obtain ok4 b4 where fourth: "waitForRegisterToWatchdog E b3 = Done ok4 b4"
      by (rule waitForRegisterToWatchdog_returns)
    note f4 = waitForRegisterToWatchdog_frame [OF fourth]
    obtain ok5 b5 where fifth: "startModuleServer E b4 = Done ok5 b5"
      and f5: "if ok5 then readingStarted (theServer b5)
        else theManager b5 = theManager b4 \<and> readingStarted (theServer b5) = readingStarted (theServer b4)"
      "watchdogConnection b5 = watchdogConnection b4"
      by (rule startModuleServer_frame)
    show ?thesis
      using f1 f2 f3 f4 f5 startModuleServer_ok [OF fifth]
      by (cases ok1; cases ok3; cases ok4; cases ok5)
        (simp_all add: module_startup_def startup_stage_def first second third fourth fifth)
  next
    case Undefined
    show ?thesis using f1 by (cases ok1) (simp_all add: module_startup_def startup_stage_def first second Undefined)
  qed (simp_all add: startWatchdogConnectionTask_never)
next
  case Undefined
  show ?thesis by (simp add: module_startup_def startup_stage_def Undefined)
qed (simp_all add: mb_readConfiguration_never)

text \<open>
  The sample module with no file, without a watchdog, with one that does not answer, with a port
  that is taken, and with everything in order.
\<close>

lemmas startup_run_defs = module_startup_def startup_stage_def mb_readConfiguration_def configureModule_def
  startWatchdogConnectionTask_def waitForRegisterToWatchdog_unfold startModuleServer_def
  sample_startup_def sample_json_def new_module_base_simps configuration_defs
  connect_def sendConnectRequest_def sendMessage_def write_defs read_defs
  new_watchdog_connection_def new_connection_def connect_handleReceivedMessage_def onResponseCodeSuccess_def
  setConnectionStateAndNotifyAll_def setConnectionState_def getConnectionState_def
  bindToListeningSocket_def configured_env_def sample_env_def Let_def

definition sample_module :: "(nat, nat, unit, nat) module_base" where
  "sample_module = new_module_base True True 704643073 None 7 0"

lemma sample_startup_runs:
  "\<exists>b. module_startup (sample_startup\<lparr>openFile := (\<lambda>p. None)\<rparr>) sample_module = Done FailedToReadConfiguration b"
  "\<exists>b. module_startup (sample_startup\<lparr>connectSucceeds := False\<rparr>) sample_module = Done StartConnectionTaskFailed b"
  "\<exists>b. module_startup (sample_startup\<lparr>meanwhile := (\<lambda>c. c)\<rparr>) sample_module = Done WaitForRegistrationTimeout b"
  "\<exists>b. module_startup (sample_startup\<lparr>serverEnv := sample_env\<lparr>socket_bind_ok := (\<lambda>p. False)\<rparr>\<rparr>) sample_module =
     Done StartModuleServerFailed b"
  "\<exists>b. module_startup sample_startup sample_module = Done NoStartupError b"
  by (simp_all add: sample_module_def startup_run_defs)

theorem startup_error_codes_witness:
  "(\<exists>b. mb_readConfiguration (sample_startup\<lparr>openFile := (\<lambda>p. None)\<rparr>) sample_module = Done False b) \<and>
   (\<exists>b b2. stages_pass [mb_readConfiguration (sample_startup\<lparr>connectSucceeds := False\<rparr>), configureModule] sample_module b2 \<and>
      startWatchdogConnectionTask (sample_startup\<lparr>connectSucceeds := False\<rparr>) b2 = Done False b) \<and>
   (\<exists>b b3. waitForRegisterToWatchdog (sample_startup\<lparr>meanwhile := (\<lambda>c. c)\<rparr>) b3 = Done False b) \<and>
   (\<exists>b b4. startModuleServer (sample_startup\<lparr>serverEnv := sample_env\<lparr>socket_bind_ok := (\<lambda>p. False)\<rparr>\<rparr>) b4 = Done False b) \<and>
   (\<exists>b. readingStarted (theServer b) \<and>
      stages_pass [mb_readConfiguration sample_startup, configureModule, startWatchdogConnectionTask sample_startup,
        waitForRegisterToWatchdog sample_startup, startModuleServer sample_startup] sample_module b)"
proof (intro conjI)
  note law = startup_error_codes [where ?b0.0 = sample_module]
  obtain b where "module_startup (sample_startup\<lparr>openFile := (\<lambda>p. None)\<rparr>) sample_module = Done FailedToReadConfiguration b"
    using sample_startup_runs(1) by blast
  with law [of "sample_startup\<lparr>openFile := (\<lambda>p. None)\<rparr>"]
  show "\<exists>b. mb_readConfiguration (sample_startup\<lparr>openFile := (\<lambda>p. None)\<rparr>) sample_module = Done False b"
    by (simp only: outcome.case ModuleStartupErrors.case) blast
  obtain b where "module_startup (sample_startup\<lparr>connectSucceeds := False\<rparr>) sample_module = Done StartConnectionTaskFailed b"
    using sample_startup_runs(2) by blast
  with law [of "sample_startup\<lparr>connectSucceeds := False\<rparr>"]
  show "\<exists>b b2. stages_pass [mb_readConfiguration (sample_startup\<lparr>connectSucceeds := False\<rparr>), configureModule] sample_module b2 \<and>
      startWatchdogConnectionTask (sample_startup\<lparr>connectSucceeds := False\<rparr>) b2 = Done False b"
    by (simp only: outcome.case ModuleStartupErrors.case) blast
  obtain b where "module_startup (sample_startup\<lparr>meanwhile := (\<lambda>c. c)\<rparr>) sample_module = Done WaitForRegistrationTimeout b"
    using sample_startup_runs(3) by blast
  with law [of "sample_startup\<lparr>meanwhile := (\<lambda>c. c)\<rparr>"]
  show "\<exists>b b3. waitForRegisterToWatchdog (sample_startup\<lparr>meanwhile := (\<lambda>c. c)\<rparr>) b3 = Done False b"
    by (simp only: outcome.case ModuleStartupErrors.case) blast
  obtain b where "module_startup (sample_startup\<lparr>serverEnv := sample_env\<lparr>socket_bind_ok := (\<lambda>p. False)\<rparr>\<rparr>) sample_module =
      Done StartModuleServerFailed b"
    using sample_startup_runs(4) by blast
  with law [of "sample_startup\<lparr>serverEnv := sample_env\<lparr>socket_bind_ok := (\<lambda>p. False)\<rparr>\<rparr>"]
  show "\<exists>b b4. startModuleServer (sample_startup\<lparr>serverEnv := sample_env\<lparr>socket_bind_ok := (\<lambda>p. False)\<rparr>\<rparr>) b4 = Done False b"
    by (simp only: outcome.case ModuleStartupErrors.case) blast
  obtain b where "module_startup sample_startup sample_module = Done NoStartupError b"
    using sample_startup_runs(5) by blast
  with law [of sample_startup]
  show "\<exists>b. readingStarted (theServer b) \<and>
      stages_pass [mb_readConfiguration sample_startup, configureModule, startWatchdogConnectionTask sample_startup,
        waitForRegisterToWatchdog sample_startup, startModuleServer sample_startup] sample_module b"
    by (simp only: outcome.case ModuleStartupErrors.case) blast
qed

text \<open>C40:
  The process never returns its code from main, neither 0 nor the number of an error. After the
  user's program has returned, with any code, joinAll waits for ever for the timers thread, which
  does not end; an exception of the user's program leaves main, and one that never returns keeps it. After a failed
  start the destructor, which joins only the other two threads, destroys the timers thread while
  it is joinable, which terminates the process abnormally, whatever the error was.
\<close>
theorem main_never_returns:
  "module_main E handlers watcher b0 \<noteq> Done (Returns code) b \<and>
    (case module_startup E b0 of
       Done NoStartupError b1 \<Rightarrow>
         (case userTask E b1 of
            Done userReturnCode b2 \<Rightarrow>
              (case moduleShutdownHandler E b2 of
                 Done _ b3 \<Rightarrow> module_main E handlers watcher b0 = Done NeverEnds b3
               | _ \<Rightarrow> module_main E handlers watcher b0 = Undefined)
          | Throws e b2 \<Rightarrow> module_main E handlers watcher b0 = Throws e b2
          | Blocks \<Rightarrow> module_main E handlers watcher b0 = Blocks
          | Undefined \<Rightarrow> module_main E handlers watcher b0 = Undefined)
     | Done _ b1 \<Rightarrow> (\<exists>b2. module_main E handlers watcher b0 =
         Done (if handlers \<and> watcher then Terminates else NeverEnds) b2 \<and>
         getConnectionState (owner (watchdogConnection b2)) = Shutdown \<and> \<not> runningGlobal b2)
     | Throws e b1 \<Rightarrow> module_main E handlers watcher b0 = Throws e b1
     | Blocks \<Rightarrow> module_main E handlers watcher b0 = Blocks
     | Undefined \<Rightarrow> module_main E handlers watcher b0 = Undefined)"
proof (cases "module_startup E b0")
  case (Done r b1)
  note failed = destroy_never_returns [of handlers watcher "startup_code r" b1]
  show ?thesis
  proof (cases r)
    case NoStartupError
    note started = this
    show ?thesis
    proof (cases "userTask E b1")
      case (Done userReturnCode b2)
      with started \<open>module_startup E b0 = Done r b1\<close> show ?thesis
        by (cases "sendShutdownRequest (protocol E) (moduleIdentifierGlobal b2) (watchdogConnection b2)")
          (simp_all add: module_main_def startUserTask_def moduleShutdownHandler_def joinAll_never Let_def)
    qed (use started Done in \<open>simp_all add: module_main_def startUserTask_def\<close>)
  qed (use failed Done in \<open>auto simp: module_main_def split: prod.splits\<close>)
qed (simp_all add: module_main_def)

end
