(* ===== verification/Logging.thy ===== *)
theory Logging
  imports Configuration
begin

text \<open>
  The output side of Logging.hpp: the functions that log a message at a level, through the
  static instance if there is one. The logger of spdlog is external; what the code relies on is
  its documented filter, which writes a message when its level is not below the logger's level.
\<close>

section \<open>The log\<close>

record log_state =
  logInstance :: "log_instance option"
  written :: "(spdlog_level \<times> string) list"

fun severity :: "spdlog_level \<Rightarrow> nat" where
  "severity spd_trace = 0"
| "severity spd_debug = 1"
| "severity spd_info = 2"
| "severity spd_warn = 3"
| "severity spd_err = 4"
| "severity spd_critical = 5"

definition log_at :: "spdlog_level \<Rightarrow> string \<Rightarrow> log_state \<Rightarrow> log_state" where
  "log_at level message s =
     (case logInstance s of
        None \<Rightarrow> s
      | Some l \<Rightarrow> if severity (logLevel l) \<le> severity level then s\<lparr>written := written s @ [(level, message)]\<rparr> else s)"

definition log_trace :: "string \<Rightarrow> log_state \<Rightarrow> log_state" where
  "log_trace message = log_at spd_trace message"

text \<open>The second argument is not used.\<close>

definition log_trace_in :: "string \<Rightarrow> string \<Rightarrow> log_state \<Rightarrow> log_state" where
  "log_trace_in message functionName = log_at spd_trace message"

definition log_debug :: "string \<Rightarrow> log_state \<Rightarrow> log_state" where
  "log_debug message = log_at spd_debug message"

definition log_info :: "string \<Rightarrow> log_state \<Rightarrow> log_state" where
  "log_info message = log_at spd_info message"

definition log_error :: "string \<Rightarrow> log_state \<Rightarrow> log_state" where
  "log_error message = log_at spd_err message"

definition log_critical :: "string \<Rightarrow> log_state \<Rightarrow> log_state" where
  "log_critical message = log_at spd_critical message"

text \<open>There is no function for warnings.\<close>

datatype log_call = Trace string | TraceIn string string | Debug string | Info string | Error string | Critical string

fun do_log :: "log_call \<Rightarrow> log_state \<Rightarrow> log_state" where
  "do_log (Trace m) = log_trace m"
| "do_log (TraceIn m f) = log_trace_in m f"
| "do_log (Debug m) = log_debug m"
| "do_log (Info m) = log_info m"
| "do_log (Error m) = log_error m"
| "do_log (Critical m) = log_critical m"

fun entry_of :: "log_call \<Rightarrow> spdlog_level \<times> string" where
  "entry_of (Trace m) = (spd_trace, m)"
| "entry_of (TraceIn m f) = (spd_trace, m)"
| "entry_of (Debug m) = (spd_debug, m)"
| "entry_of (Info m) = (spd_info, m)"
| "entry_of (Error m) = (spd_err, m)"
| "entry_of (Critical m) = (spd_critical, m)"

lemmas log_defs = log_at_def log_trace_def log_trace_in_def log_debug_def log_info_def log_error_def log_critical_def

lemma do_log_result: "do_log call s = log_at (fst (entry_of call)) (snd (entry_of call)) s"
  by (cases call) (simp_all add: log_defs)

text \<open>A run of calls writes the entries whose level the instance lets through.\<close>

lemma logged_calls:
  "logInstance s = Some l \<Longrightarrow>
    fold do_log calls s = s\<lparr>written := written s @ filter (\<lambda>e. severity (logLevel l) \<le> severity (fst e)) (map entry_of calls)\<rparr>"
  by (induction calls arbitrary: s) (simp_all add: do_log_result log_at_def)

lemma unlogged_calls: "logInstance s = None \<Longrightarrow> fold do_log calls s = s"
  by (induction calls arbitrary: s) (simp_all add: do_log_result log_at_def)

text \<open>ServerConfiguration::print; that of the logging configuration is declared and not defined.\<close>

definition server_configuration_print :: "server_configuration \<Rightarrow> log_state \<Rightarrow> log_state" where
  "server_configuration_print c s =
     (let s = log_trace (''ServerConfiguration::maxMessageResends = '' @ to_string (uint (maxMessageResends c))) s
      in log_trace (''ServerConfiguration::timeBetweenMessageResendsInSeconds = '' @
           to_string (uint (timeBetweenMessageResendsInSeconds c))) s)"

section \<open>Property\<close>

text \<open>
  Before Log::initialize nothing is written. After main's initialize, and after the logger has
  been configured from whatever configuration file there is, every message of every function is
  written, in the order of the calls: the level of the file has no effect, because nothing reads
  the logging section. Had it been read, the log would hold exactly the messages not below the
  level it names, an unknown name standing for trace.
\<close>
lemma log_level_ignored:
  "fold do_log calls \<lparr>logInstance = None, written = []\<rparr> = \<lparr>logInstance = None, written = []\<rparr> \<and>
   (case readConfiguration J open_file i initial_configuration of
      Done ok c \<Rightarrow>
        written (fold do_log calls \<lparr>logInstance = updateConfiguration i c (initializeLog TRACE None), written = []\<rparr>) =
          map entry_of calls \<and>
        (case logging_readFromJson J j (loggingConfiguration c) of
           Done read c' \<Rightarrow>
             written (fold do_log calls \<lparr>logInstance = updateConfiguration i (c\<lparr>loggingConfiguration := c'\<rparr>)
               (initializeLog TRACE None), written = []\<rparr>) =
             (case json_field J (json_get_string J) j ''LoggingConfiguration'' ''Level'' of
                Value name \<Rightarrow> filter (\<lambda>e. severity (translateNameToSpdlogLevel name) \<le> severity (fst e)) (map entry_of calls)
              | _ \<Rightarrow> map entry_of calls)
         | _ \<Rightarrow> True)
    | _ \<Rightarrow> True)"
proof (cases "readConfiguration J open_file i initial_configuration")
  case (Done ok c)
  let ?written = "\<lambda>l. written (fold do_log calls \<lparr>logInstance = Some l, written = []\<rparr>)"
  have none: "loggingLevel (loggingConfiguration c) = []"
    using readConfiguration_logging [OF Done] by (simp add: initial_configuration_def)
  have all: "filter (\<lambda>e. severity spd_trace \<le> severity (fst e)) es = es" for es :: "(spdlog_level \<times> string) list"
    by simp
  have run: "?written l = filter (\<lambda>e. severity (logLevel l) \<le> severity (fst e)) (map entry_of calls)" for l
    using logged_calls [of "\<lparr>logInstance = Some l, written = []\<rparr>" l calls] by simp
  have empty: "translateNameToSpdlogLevel [] = spd_trace" by (simp add: translateNameToSpdlogLevel_def)
  show ?thesis
    using unlogged_calls [of "\<lparr>logInstance = None, written = []\<rparr>" calls]
    by (cases "json_field J (json_get_string J) j ''LoggingConfiguration'' ''Level''")
      (simp_all add: Done updateConfiguration_def initializeLog_def run none empty all logging_readFromJson_def assign_field_def)
qed (simp_all add: unlogged_calls)

end
