(* ===== verification/Server_Threads.thy ===== *)
theory Server_Threads
  imports Server_Steps
begin

text \<open>
  The senders of ModuleServer.cpp at the grain of the message queue's mutex. The calls push,
  size, empty, front and pop lock the queue one by one, and nothing is held between them, while
  the user's thread, the io_context thread and the timers thread all send. So a sender is a
  program counter that advances one locked call at a time, and any thread may move in between.
  What an uninterrupted thread does is what the theory Server takes as one step.
\<close>

section \<open>The stages of a sender\<close>

text \<open>
  \<open>Pushing\<close>: the destination is found and the message made. \<open>AskingSize\<close>: pushed, before
  size(). \<open>CallingSend\<close>: before send(). \<open>AskingEmpty\<close>: the completion handler has popped, before
  empty().
\<close>

datatype ('addr, 'any) sender_stage =
    Ready
  | Pushing "'addr destination" "'any message"
  | AskingSize
  | CallingSend
  | AskingEmpty

datatype 'any sender_call =
    CallRequest i32 "'any option"
  | CallMessage i32 "'any message"
  | CallSubscribe i32 string

text \<open>A call of one of the three senders up to its push.\<close>

fun prepare ::
    "('addr, 'any, 'h, 'w) server_env \<Rightarrow> 'any sender_call \<Rightarrow> ('addr, 'any, 'h, 'w) server
      \<Rightarrow> ('addr, 'any, 'h, 'w, ('addr destination \<times> 'any message) option) server_result" where
  "prepare env (CallRequest i any) s =
     andThen (findDestination env i s) (\<lambda>d s.
       case d of None \<Rightarrow> Done None s
       | Some dest \<Rightarrow> andThen (generateTransactionCode env s) (\<lambda>code s.
           Done (Some (dest, makeRequestMessage (moduleIdentifier env) any code)) s))"
| "prepare env (CallMessage i request) s =
     andThen (findDestination env i s) (\<lambda>d s. Done (map_option (\<lambda>dest. (dest, request)) d) s)"
| "prepare env (CallSubscribe i subscribedType) s =
     andThen (findDestination env i s) (\<lambda>d s.
       case d of None \<Rightarrow> Done None s
       | Some dest \<Rightarrow> andThen (generateTransactionCode env s) (\<lambda>code s.
           Done (Some (dest, makeSubscriptionRequestMessage (moduleIdentifier env) subscribedType code)) s))"

definition first_stage :: "('addr destination \<times> 'any message) option \<Rightarrow> ('addr, 'any) sender_stage" where
  "first_stage r = (case r of None \<Rightarrow> Ready | Some (dest, message) \<Rightarrow> Pushing dest message)"

text \<open>The next locked call of a thread, and the stage it leaves it in.\<close>

definition thread_next ::
    "('addr, 'any, 'h, 'w) server_env \<Rightarrow> ('addr, 'any) sender_stage \<Rightarrow> ('addr, 'any, 'h, 'w) server
      \<Rightarrow> ('addr, 'any, 'h, 'w, ('addr, 'any) sender_stage) server_result" where
  "thread_next env st s =
     (case st of
        Ready \<Rightarrow> Done Ready s
      | Pushing dest message \<Rightarrow>
          (let (pushed, q) = push (dest, message) (messageQueue s)
           in Done (if pushed \<noteq> 0 then AskingSize else Ready) (s\<lparr>messageQueue := q\<rparr>))
      | AskingSize \<Rightarrow> Done (if queue_size (messageQueue s) > 1 then Ready else CallingSend) s
      | CallingSend \<Rightarrow> andThen (send env s) (\<lambda>_ s. Done Ready s)
      | AskingEmpty \<Rightarrow> Done (if queue_empty (messageQueue s) then Ready else CallingSend) s)"

text \<open>The completion handler of async_send_to up to its pop.\<close>

definition completion_begins ::
    "bool \<Rightarrow> ('addr, 'any, 'h, 'w) server \<Rightarrow> ('addr, 'any, 'h, 'w, ('addr, 'any) sender_stage) server_result" where
  "completion_begins error s0 =
     (let s = s0\<lparr>inFlight := tl (inFlight s0)\<rparr>
      in if error then Done Ready (processSendError s)
         else case pop (messageQueue s) of
                None \<Rightarrow> Undefined
              | Some q \<Rightarrow> Done AskingEmpty (s\<lparr>messageQueue := q\<rparr>))"

text \<open>A thread that no other interrupts, for n of its calls.\<close>

fun run_thread ::
    "('addr, 'any, 'h, 'w) server_env \<Rightarrow> nat \<Rightarrow> ('addr, 'any) sender_stage \<Rightarrow> ('addr, 'any, 'h, 'w) server
      \<Rightarrow> ('addr, 'any, 'h, 'w, ('addr, 'any) sender_stage) server_result" where
  "run_thread env 0 st s = Done st s"
| "run_thread env (Suc n) st s = andThen (thread_next env st s) (run_thread env n)"

section \<open>The threads together\<close>

text \<open>Thread 0 runs the io_context: the completion handlers run there and nowhere else.\<close>

record ('addr, 'any, 'h, 'w) threaded_server =
  shared :: "('addr, 'any, 'h, 'w) server"
  stages :: "('addr, 'any) sender_stage list"

text \<open>
  A step of the threads of the set \<open>K\<close>. The last rule is what all other operations can do
  between two calls: they receive datagrams, run and remove timers and let time pass, but push
  nothing, pop nothing and hand nothing to the socket.
\<close>

definition leaves_queue :: "('addr, 'any, 'h, 'w) server \<Rightarrow> ('addr, 'any, 'h, 'w) server \<Rightarrow> bool" where
  "leaves_queue s s' \<longleftrightarrow>
     messageQueue s' = messageQueue s \<and> inFlight s' = inFlight s \<and> handedOver s' = handedOver s"

inductive threads_step ::
    "('addr, 'any, 'h, 'w) server_env \<Rightarrow> nat set \<Rightarrow> ('addr, 'any, 'h, 'w) threaded_server
      \<Rightarrow> ('addr, 'any, 'h, 'w) threaded_server \<Rightarrow> bool"
    for env K where
  call: "k \<in> K \<Longrightarrow> k < length (stages t) \<Longrightarrow> stages t ! k = Ready \<Longrightarrow>
    prepare env c (shared t) = Done r s \<Longrightarrow>
    threads_step env K t \<lparr>shared = s, stages = (stages t)[k := first_stage r]\<rparr>"
| moves: "k \<in> K \<Longrightarrow> k < length (stages t) \<Longrightarrow> thread_next env (stages t ! k) (shared t) = Done st s \<Longrightarrow>
    threads_step env K t \<lparr>shared = s, stages = (stages t)[k := st]\<rparr>"
| completed: "0 \<in> K \<Longrightarrow> 0 < length (stages t) \<Longrightarrow> stages t ! 0 = Ready \<Longrightarrow> inFlight (shared t) \<noteq> [] \<Longrightarrow>
    completion_begins error (shared t) = Done st s \<Longrightarrow>
    threads_step env K t \<lparr>shared = s, stages = (stages t)[0 := st]\<rparr>"
| other: "leaves_queue (shared t) s \<Longrightarrow> threads_step env K t (t\<lparr>shared := s\<rparr>)"

inductive threads_steps ::
    "('addr, 'any, 'h, 'w) server_env \<Rightarrow> nat set \<Rightarrow> ('addr, 'any, 'h, 'w) threaded_server
      \<Rightarrow> ('addr, 'any, 'h, 'w) threaded_server \<Rightarrow> bool"
    for env K where
  refl: "threads_steps env K t t"
| step: "threads_steps env K t u \<Longrightarrow> threads_step env K u v \<Longrightarrow> threads_steps env K t v"

lemma threads_steps_invariant:
  assumes "threads_steps env K t u" and "I t"
    and "\<And>v w. I v \<Longrightarrow> threads_step env K v w \<Longrightarrow> I w"
  shows "I u"
  using assms by (induction rule: threads_steps.induct) auto

section \<open>What the calls leave alone\<close>

lemma findDestination_Done: "findDestination env i s = Done d s' \<Longrightarrow> s' = s"
  by (rule findDestination_state)

lemma prepare_leaves_queue:
  assumes "prepare env c s = Done r s'"
  shows "leaves_queue s s'"
proof -
  have drawn: "leaves_queue s v" if "findDestination env i s = Done d u" and
    "(case d of None \<Rightarrow> Done None u
       | Some dest \<Rightarrow> andThen (generateTransactionCode env u) (\<lambda>code s. Done (Some (dest, mk code)) s)) = Done r v"
    for i d u v and mk :: "u32 \<Rightarrow> 'b message"
    using that findDestination_Done [OF that(1)] generateTransactionCode_frame(2) [of env s]
    by (auto simp: andThen_Done_iff leaves_queue_def split: option.splits)
  show ?thesis
  proof (cases c)
    case (CallMessage i m)
    with assms show ?thesis by (auto simp: andThen_Done_iff leaves_queue_def dest!: findDestination_Done)
  qed (use assms drawn in \<open>auto simp: andThen_Done_iff\<close>)
qed

lemma first_stage_cases: "first_stage r = Ready \<or> (\<exists>dest message. first_stage r = Pushing dest message)"
  by (auto simp: first_stage_def split: option.split)

text \<open>send hands the datagram of the first message over and leaves the queue.\<close>

lemma send_Done:
  assumes "send env s = Done () s'"
  obtains dm q where "messageQueue s = dm # q" and "messageQueue s' = messageQueue s"
    and "inFlight s' = inFlight s @ [datagram_of env dm]" and "handedOver s' = handedOver s @ [datagram_of env dm]"
proof (cases "messageQueue s")
  case Nil
  with assms show ?thesis by (simp add: send_def)
next
  case (Cons dm q)
  obtain d m where dm: "dm = (d, m)" by (cases dm)
  with Cons assms obtain i c where "s' = after_send env d m i c s"
    by (auto simp: send_result split: option.splits)
  with that [OF Cons] show ?thesis by (simp add: dm after_send_def datagram_of_def)
qed

lemma send_Undefined_iff: "send env s = Undefined \<longleftrightarrow> messageQueue s = []"
proof (cases "messageQueue s")
  case Nil
  then show ?thesis by (simp add: send_def)
next
  case (Cons dm q)
  obtain d m where "dm = (d, m)" by (cases dm)
  with Cons show ?thesis by (simp add: send_result split: option.split)
qed

text \<open>How a stage ends, by cases on what the queue shows.\<close>

lemma thread_next_simps:
  "thread_next env Ready s = Done Ready s"
  "thread_next env (Pushing dest message) s = Done AskingSize (s\<lparr>messageQueue := messageQueue s @ [(dest, message)]\<rparr>)"
  "thread_next env AskingSize s = Done (if 1 < length (messageQueue s) then Ready else CallingSend) s"
  "thread_next env CallingSend s = andThen (send env s) (\<lambda>_ s. Done Ready s)"
  "thread_next env AskingEmpty s = Done (if messageQueue s = [] then Ready else CallingSend) s"
  by (simp_all add: thread_next_def push_def queue_size_def queue_empty_def)

lemma thread_next_cases:
  assumes "thread_next env st s = Done st' s'"
  obtains (ready) "st = Ready" "st' = Ready" "s' = s"
  | (pushed) dest message where "st = Pushing dest message" "st' = AskingSize"
      "s' = s\<lparr>messageQueue := messageQueue s @ [(dest, message)]\<rparr>"
  | (busy) "st = AskingSize" "1 < length (messageQueue s)" "st' = Ready" "s' = s"
  | (alone) "st = AskingSize" "length (messageQueue s) \<le> 1" "st' = CallingSend" "s' = s"
  | (sent) dm q where "st = CallingSend" "messageQueue s = dm # q" "st' = Ready" "messageQueue s' = messageQueue s"
      "inFlight s' = inFlight s @ [datagram_of env dm]" "handedOver s' = handedOver s @ [datagram_of env dm]"
  | (all_sent) "st = AskingEmpty" "messageQueue s = []" "st' = Ready" "s' = s"
  | (more) "st = AskingEmpty" "messageQueue s \<noteq> []" "st' = CallingSend" "s' = s"
proof (cases st)
  case Ready
  with assms show ?thesis by (intro ready) (simp_all add: thread_next_simps)
next
  case (Pushing dest message)
  with assms show ?thesis by (intro pushed) (auto simp: thread_next_simps)
next
  case AskingSize
  show ?thesis
  proof (cases "1 < length (messageQueue s)")
    case True
    with AskingSize assms show ?thesis by (intro busy) (simp_all add: thread_next_simps)
  next
    case False
    with AskingSize assms show ?thesis by (intro alone) (simp_all add: thread_next_simps)
  qed
next
  case CallingSend
  with assms have "send env s = Done () s'" and "st' = Ready"
    by (auto simp: thread_next_simps andThen_Done_iff)
  from this(1) show ?thesis by (rule send_Done) (rule sent [OF CallingSend _ \<open>st' = Ready\<close>])
next
  case AskingEmpty
  show ?thesis
  proof (cases "messageQueue s = []")
    case True
    with AskingEmpty assms show ?thesis by (intro all_sent) (simp_all add: thread_next_simps)
  next
    case False
    with AskingEmpty assms show ?thesis by (intro more) (simp_all add: thread_next_simps)
  qed
qed

section \<open>Uninterrupted threads\<close>

text \<open>
  What a datagram that is handed to the socket leaves: the resend timer of its message in the cache
  c, under the identifier i, and the code of the message on record.
\<close>

definition handed_over ::
    "('addr, 'any, 'h, 'w) server_env \<Rightarrow> 'addr destination \<times> 'any message \<Rightarrow> ('addr, 'any, 'h, 'w) server
      \<Rightarrow> ('addr, 'any, 'h, 'w, ('addr, 'any) sender_stage) server_result" where
  "handed_over env dm s =
     (case registerTimer (Some (resend_timer env (now s) (fst dm) (snd dm))) (timersCache s) of
        None \<Rightarrow> Blocks
      | Some (i, c) \<Rightarrow> Done Ready (s\<lparr>timersCache := c,
          transactionAndTimerID := map_emplace (header_transactioncode (snd dm)) i (transactionAndTimerID s),
          inFlight := inFlight s @ [(endpoint (fst dm), serialize env (snd dm))],
          handedOver := handedOver s @ [(endpoint (fst dm), serialize env (snd dm))]\<rparr>))"

text \<open>The three calls of a sender and the two of a completion handler, by what the queue held.\<close>

lemma uninterrupted_sender:
  "run_thread env 3 (Pushing dest message) s =
     (if messageQueue s = [] then handed_over env (dest, message) (s\<lparr>messageQueue := [(dest, message)]\<rparr>)
      else Done Ready (s\<lparr>messageQueue := messageQueue s @ [(dest, message)]\<rparr>))"
  by (cases "messageQueue s")
    (simp_all add: numeral_3_eq_3 thread_next_simps send_result handed_over_def after_send_def split: option.split)

lemma uninterrupted_completion:
  "andThen (completion_begins error s) (run_thread env 2) =
     (if error then Done Ready (s\<lparr>inFlight := tl (inFlight s)\<rparr>)
      else case messageQueue s of
             [] \<Rightarrow> Undefined
           | [sent] \<Rightarrow> Done Ready (s\<lparr>inFlight := tl (inFlight s), messageQueue := []\<rparr>)
           | sent # dm # q \<Rightarrow> handed_over env dm (s\<lparr>inFlight := tl (inFlight s), messageQueue := dm # q\<rparr>))"
  by (auto simp: completion_begins_def processSendError_def pop_def numeral_2_eq_2 thread_next_simps send_result
      handed_over_def after_send_def Let_def split: list.split option.split)

text \<open>C23:
  A thread that no other one interrupts makes of the queue and the socket what one step of the
  server makes of them. From its push on, a sender leaves its message at the end of the queue;
  only when nothing was queued it hands the message's datagram over, once, with its resend timer
  registered and its code on record. A completion handler takes the message that was sent from
  the head of the queue, or leaves it there when the send failed, and hands the next one over when
  there is one. That is what pushAndSend and postSendToDestination do in one step, and each of the
  three senders is its preparation, the destination and the message with a new code, followed by
  pushAndSend. So the theory Server describes the code as long as the calls of different threads
  do not mix.
\<close>
theorem threads_compose:
  "run_thread env 3 (Pushing dest message) s =
     (if messageQueue s = [] then handed_over env (dest, message) (s\<lparr>messageQueue := [(dest, message)]\<rparr>)
      else Done Ready (s\<lparr>messageQueue := messageQueue s @ [(dest, message)]\<rparr>)) \<and>
   run_thread env 3 (Pushing dest message) s = andThen (pushAndSend env dest message s) (\<lambda>_ s. Done Ready s) \<and>
   andThen (completion_begins error s) (run_thread env 2) =
     (if error then Done Ready (s\<lparr>inFlight := tl (inFlight s)\<rparr>)
      else case messageQueue s of
             [] \<Rightarrow> Undefined
           | [sent] \<Rightarrow> Done Ready (s\<lparr>inFlight := tl (inFlight s), messageQueue := []\<rparr>)
           | sent # dm # q \<Rightarrow> handed_over env dm (s\<lparr>inFlight := tl (inFlight s), messageQueue := dm # q\<rparr>)) \<and>
   andThen (completion_begins error s) (run_thread env 2) = andThen (postSendToDestination env error s) (\<lambda>_ s. Done Ready s) \<and>
   (servicesEndpointsMap s i = Some e \<and> parkedMessages s = [] \<longrightarrow>
      prepare env (CallRequest i any) s =
        Done (Some (\<lparr>serviceIdentifier = i, endpoint = e\<rparr>,
            makeRequestMessage (moduleIdentifier env) any (drawn_code (rand env) 1000 (randCalls s))))
          (s\<lparr>randCalls := Suc (randCalls s)\<rparr>) \<and>
      prepare env (CallMessage i message) s = Done (Some (\<lparr>serviceIdentifier = i, endpoint = e\<rparr>, message)) s \<and>
      prepare env (CallSubscribe i type) s =
        Done (Some (\<lparr>serviceIdentifier = i, endpoint = e\<rparr>,
            makeSubscriptionRequestMessage (moduleIdentifier env) type (drawn_code (rand env) 1000 (randCalls s))))
          (s\<lparr>randCalls := Suc (randCalls s)\<rparr>)) \<and>
   (case c of
      CallRequest i any \<Rightarrow> sendRequest env i any s
    | CallMessage i m \<Rightarrow> sendRequestMessage env i m s
    | CallSubscribe i ty \<Rightarrow> sendSubscribeRequest env i ty s) =
   andThen (prepare env c s) (\<lambda>r s. case r of None \<Rightarrow> Done False s | Some (dest, m) \<Rightarrow> pushAndSend env dest m s)"
proof (intro conjI impI uninterrupted_sender uninterrupted_completion)
  show "run_thread env 3 (Pushing dest message) s = andThen (pushAndSend env dest message s) (\<lambda>_ s. Done Ready s)"
    by (cases "messageQueue s")
      (simp_all add: numeral_3_eq_3 thread_next_simps pushAndSend_def push_def queue_size_def andThen_assoc)
  show "andThen (completion_begins error s) (run_thread env 2) =
      andThen (postSendToDestination env error s) (\<lambda>_ s. Done Ready s)"
    by (simp add: completion_begins_def postSendToDestination_def numeral_2_eq_2 thread_next_simps queue_empty_def
        Let_def andThen_assoc split: option.split)
  show "(case c of
      CallRequest i any \<Rightarrow> sendRequest env i any s
    | CallMessage i m \<Rightarrow> sendRequestMessage env i m s
    | CallSubscribe i ty \<Rightarrow> sendSubscribeRequest env i ty s) =
   andThen (prepare env c s) (\<lambda>r s. case r of None \<Rightarrow> Done False s | Some (dest, m) \<Rightarrow> pushAndSend env dest m s)"
    by (cases c) (auto simp: request_defs andThen_assoc intro!: arg_cong2 [where f = andThen] ext split: option.split)
next
  assume known: "servicesEndpointsMap s i = Some e \<and> parkedMessages s = []"
  then show "prepare env (CallMessage i message) s = Done (Some (\<lparr>serviceIdentifier = i, endpoint = e\<rparr>, message)) s"
    by (simp add: findDestination_def)
  from known show
    "prepare env (CallRequest i any) s =
        Done (Some (\<lparr>serviceIdentifier = i, endpoint = e\<rparr>,
            makeRequestMessage (moduleIdentifier env) any (drawn_code (rand env) 1000 (randCalls s))))
          (s\<lparr>randCalls := Suc (randCalls s)\<rparr>)"
    "prepare env (CallSubscribe i type) s =
        Done (Some (\<lparr>serviceIdentifier = i, endpoint = e\<rparr>,
            makeSubscriptionRequestMessage (moduleIdentifier env) type (drawn_code (rand env) 1000 (randCalls s))))
          (s\<lparr>randCalls := Suc (randCalls s)\<rparr>)"
    by (simp_all add: findDestination_def generateTransactionCode_none_parked)
qed

section \<open>One thread\<close>

text \<open>Only thread 0 sends: how the queue and the socket are related at each of its stages.\<close>

definition single_ok :: "('addr, 'any, 'h, 'w) threaded_server \<Rightarrow> bool" where
  "single_ok t \<longleftrightarrow> 0 < length (stages t) \<and> length (inFlight (shared t)) \<le> 1 \<and>
     (case stages t ! 0 of
        AskingSize \<Rightarrow> messageQueue (shared t) \<noteq> [] \<and>
          (length (messageQueue (shared t)) = 1 \<longrightarrow> inFlight (shared t) = [])
      | CallingSend \<Rightarrow> messageQueue (shared t) \<noteq> [] \<and> inFlight (shared t) = []
      | AskingEmpty \<Rightarrow> inFlight (shared t) = []
      | _ \<Rightarrow> inFlight (shared t) \<noteq> [] \<longrightarrow> messageQueue (shared t) \<noteq> [])"

lemma single_ok_stage:
  "single_ok t \<Longrightarrow> thread_next env (stages t ! 0) (shared t) = Done st s \<Longrightarrow>
    single_ok \<lparr>shared = s, stages = (stages t)[0 := st]\<rparr>"
  by (erule thread_next_cases) (auto simp: single_ok_def length_Suc_conv le_Suc_eq)

lemma single_ok_completed:
  "single_ok t \<Longrightarrow> stages t ! 0 = Ready \<Longrightarrow> completion_begins error (shared t) = Done st s \<Longrightarrow>
    single_ok \<lparr>shared = s, stages = (stages t)[0 := st]\<rparr>"
  by (auto simp: single_ok_def completion_begins_def processSendError_def Let_def le_Suc_eq length_Suc_conv
      split: option.splits if_splits)

lemma single_ok_step: "single_ok t \<Longrightarrow> threads_step env {0} t u \<Longrightarrow> single_ok u"
proof (erule threads_step.cases)
  fix k t' c r s
  assume ok: "single_ok t" and "t = t'" "u = \<lparr>shared = s, stages = (stages t')[k := first_stage r]\<rparr>"
    and "k \<in> {0}" "stages t' ! k = Ready" "prepare env c (shared t') = Done r s"
  with prepare_leaves_queue [of env c "shared t" r s] show "single_ok u"
    by (auto simp: single_ok_def leaves_queue_def first_stage_def split: option.split)
next
  fix k t' st s
  assume ok: "single_ok t" and "t = t'" "u = \<lparr>shared = s, stages = (stages t')[k := st]\<rparr>"
    and "k \<in> {0}" "thread_next env (stages t' ! k) (shared t') = Done st s"
  then show "single_ok u" using single_ok_stage by auto
next
  fix t' e st s
  assume ok: "single_ok t" and "t = t'" "u = \<lparr>shared = s, stages = (stages t')[0 := st]\<rparr>"
    and "stages t' ! 0 = Ready" "completion_begins e (shared t') = Done st s"
  then show "single_ok u" using single_ok_completed by auto
next
  fix t' s
  assume "single_ok t" and "t = t'" "u = t'\<lparr>shared := s\<rparr>" "leaves_queue (shared t') s"
  then show "single_ok u" by (cases "stages t' ! 0") (simp_all add: single_ok_def leaves_queue_def)
qed

text \<open>C24:
  While one thread alone sends, receives the completions and runs everything else, from a
  started server on, at most one datagram is on its way at any time, and none of its calls is
  undefined: send never finds the queue empty, and no completion pops from an empty queue,
  failed sends included.
\<close>
theorem single_thread_safe:
  assumes "threads_steps env {0} \<lparr>shared = started_server env endpoints events w, stages = replicate (Suc n) Ready\<rparr> t"
  shows "length (inFlight (shared t)) \<le> 1 \<and> thread_next env (stages t ! 0) (shared t) \<noteq> Undefined \<and>
    (inFlight (shared t) = [] \<or> stages t ! 0 \<noteq> Ready \<or> completion_begins error (shared t) \<noteq> Undefined)"
proof -
  have "single_ok \<lparr>shared = started_server env endpoints events w, stages = replicate (Suc n) Ready\<rparr>"
    by (simp add: single_ok_def started_server_def new_server_def startReading_def)
  with assms have "single_ok t" using threads_steps_invariant [where I = single_ok] single_ok_step by blast
  then show ?thesis
    by (cases "stages t ! 0")
      (auto simp: single_ok_def thread_next_simps completion_begins_def pop_def andThen_Undefined_iff send_Undefined_iff
        Let_def split: list.split)
qed

section \<open>Two threads that push\<close>

text \<open>Nothing on its way, something queued, and no thread about to send.\<close>

definition stalled :: "('addr, 'any, 'h, 'w) threaded_server \<Rightarrow> bool" where
  "stalled t \<longleftrightarrow> messageQueue (shared t) \<noteq> [] \<and> inFlight (shared t) = [] \<and>
     (\<forall>st \<in> set (stages t). st \<noteq> CallingSend \<and> st \<noteq> AskingEmpty \<and>
       (st = AskingSize \<longrightarrow> 1 < length (messageQueue (shared t))))"

definition appended :: "('addr, 'any, 'h, 'w) threaded_server \<Rightarrow> ('addr, 'any, 'h, 'w) threaded_server \<Rightarrow> bool" where
  "appended t u \<longleftrightarrow> handedOver (shared u) = handedOver (shared t) \<and>
     (\<exists>ms. messageQueue (shared u) = messageQueue (shared t) @ ms)"

lemma stalled_stage: "stalled t \<Longrightarrow> k < length (stages t) \<Longrightarrow> stages t ! k \<noteq> CallingSend \<and> stages t ! k \<noteq> AskingEmpty"
  by (auto simp: stalled_def)

lemma stalled_update:
  assumes "stalled t" and "inFlight s = []" and "messageQueue s = messageQueue (shared t) @ ms"
    and "st \<noteq> CallingSend" and "st \<noteq> AskingEmpty" and "st = AskingSize \<longrightarrow> ms \<noteq> []"
  shows "stalled \<lparr>shared = s, stages = (stages t)[k := st]\<rparr>"
proof -
  have "st' = st \<or> st' \<in> set (stages t)" if "st' \<in> set ((stages t)[k := st])" for st'
    using that set_update_subset_insert [of "stages t" k st] by auto
  moreover have "ms \<noteq> [] \<Longrightarrow> 1 < length (messageQueue (shared t) @ ms)"
    using assms(1) by (cases "messageQueue (shared t)"; cases ms) (auto simp: stalled_def)
  ultimately show ?thesis using assms by (fastforce simp: stalled_def)
qed

lemma stalled_step: "threads_step env K t u \<Longrightarrow> stalled t \<Longrightarrow> stalled u \<and> appended t u"
proof (induction rule: threads_step.induct)
  case (call k t c r s)
  from prepare_leaves_queue [OF call.hyps(4)] call.prems have same: "inFlight s = []"
    "messageQueue s = messageQueue (shared t) @ []" "handedOver s = handedOver (shared t)"
    by (auto simp: leaves_queue_def stalled_def)
  from stalled_update [OF call.prems same(1,2)] first_stage_cases [of r] same show ?case
    by (auto simp: appended_def)
next
  case (moves k t st s)
  from moves.hyps(3) show ?case
  proof (cases rule: thread_next_cases)
    case ready
    with stalled_update [OF moves.prems, of s "[]" st k] moves.prems show ?thesis
      by (auto simp: appended_def stalled_def)
  next
    case (pushed dest message)
    with stalled_update [OF moves.prems, of s "[(dest, message)]" st k] moves.prems show ?thesis
      by (auto simp: appended_def stalled_def)
  next
    case busy
    with stalled_update [OF moves.prems, of s "[]" st k] moves.prems show ?thesis
      by (auto simp: appended_def stalled_def)
  next
    case alone
    with moves.hyps(2) moves.prems show ?thesis by (auto simp: stalled_def dest: nth_mem)
  qed (use stalled_stage [OF moves.prems moves.hyps(2)] in simp_all)
next
  case (completed t e st s)
  then show ?case by (simp add: stalled_def)
next
  case (other t s)
  then show ?case by (auto simp: stalled_def leaves_queue_def appended_def)
qed

lemma stalled_steps: "threads_steps env K t u \<Longrightarrow> stalled t \<Longrightarrow> stalled u \<and> appended t u"
proof (induction rule: threads_steps.induct)
  case (refl t)
  then show ?case by (simp add: appended_def)
next
  case (step t u v)
  with stalled_step [OF step.hyps(2)] show ?case by (auto simp: appended_def)
qed

text \<open>A schedule: which thread makes its next call, or that a send completes; executed in order.\<close>

datatype thread_event = Move nat | Complete bool

definition do_event ::
    "('addr, 'any, 'h, 'w) server_env \<Rightarrow> thread_event \<Rightarrow> ('addr, 'any, 'h, 'w) threaded_server
      \<Rightarrow> ('addr, 'any, 'h, 'w) threaded_server option" where
  "do_event env ev t =
     (case ev of
        Move k \<Rightarrow>
          if k < length (stages t)
          then (case thread_next env (stages t ! k) (shared t) of
                  Done st s \<Rightarrow> Some \<lparr>shared = s, stages = (stages t)[k := st]\<rparr> | _ \<Rightarrow> None)
          else None
      | Complete error \<Rightarrow>
          if 0 < length (stages t) \<and> stages t ! 0 = Ready \<and> inFlight (shared t) \<noteq> []
          then (case completion_begins error (shared t) of
                  Done st s \<Rightarrow> Some \<lparr>shared = s, stages = (stages t)[0 := st]\<rparr> | _ \<Rightarrow> None)
          else None)"

fun run_schedule ::
    "('addr, 'any, 'h, 'w) server_env \<Rightarrow> thread_event list \<Rightarrow> ('addr, 'any, 'h, 'w) threaded_server
      \<Rightarrow> ('addr, 'any, 'h, 'w) threaded_server option" where
  "run_schedule env [] t = Some t"
| "run_schedule env (ev # evs) t = Option.bind (do_event env ev t) (run_schedule env evs)"

fun event_thread :: "thread_event \<Rightarrow> nat" where
  "event_thread (Move k) = k"
| "event_thread (Complete error) = 0"

lemma do_event_step: "do_event env ev t = Some u \<Longrightarrow> event_thread ev \<in> K \<Longrightarrow> threads_step env K t u"
  by (cases ev)
    (auto simp: do_event_def intro: threads_step.moves threads_step.completed split: if_splits outcome.splits)

lemma threads_steps_first:
  "threads_step env K t u \<Longrightarrow> threads_steps env K u v \<Longrightarrow> threads_steps env K t v"
  by (rotate_tac, induction rule: threads_steps.induct) (blast intro: threads_steps.intros)+

lemma run_schedule_steps:
  "run_schedule env evs t = Some u \<Longrightarrow> event_thread ` set evs \<subseteq> K \<Longrightarrow> threads_steps env K t u"
proof (induction evs arbitrary: t)
  case Nil
  then show ?case by (simp add: threads_steps.refl)
next
  case (Cons ev evs)
  then obtain v where "do_event env ev t = Some v" and "run_schedule env evs v = Some u"
    by (auto simp: bind_eq_Some_conv)
  with Cons do_event_step [of env ev t v K] show ?case by (auto intro: threads_steps_first)
qed

lemmas schedule_simps = do_event_def thread_next_simps completion_begins_def Let_def

text \<open>C16:
  Two threads that send at the same time with nothing queued can stall the server for good.
  Each has its message ready; both push before either asks for the size; both are then told
  that a message is on its way, and neither sends. From there on, whatever any thread does,
  nothing is ever handed to the socket again and the two messages stay queued.
\<close>
theorem push_race_stalls:
  assumes "j < length (stages t)" and "k < length (stages t)" and "j \<noteq> k"
    and "stages t ! j = Pushing d m" and "stages t ! k = Pushing d' m'"
    and "set ((stages t)[j := Ready, k := Ready]) = {Ready}"
    and "messageQueue (shared t) = []" and "inFlight (shared t) = []"
  shows "\<exists>u. threads_steps env {j, k} t u \<and> set (stages u) = {Ready} \<and>
    messageQueue (shared u) = [(d, m), (d', m')] \<and> inFlight (shared u) = [] \<and>
    (\<forall>K v. threads_steps env K u v \<longrightarrow>
      handedOver (shared v) = handedOver (shared t) \<and>
      (\<exists>ms. messageQueue (shared v) = [(d, m), (d', m')] @ ms))"
proof -
  let ?s = "shared t" and ?sts = "stages t"
  let ?s2 = "?s\<lparr>messageQueue := [(d, m), (d', m')]\<rparr>"
  let ?u = "\<lparr>shared = ?s2, stages = ?sts[j := Ready, k := Ready]\<rparr>"
  have "run_schedule env [Move j, Move k, Move j, Move k] t = Some ?u"
    using assms by (simp add: schedule_simps list_update_swap)
  then have "threads_steps env {j, k} t ?u" by (rule run_schedule_steps) simp
  moreover have "stalled ?u" using assms(6,8) by (auto simp: stalled_def)
  ultimately show ?thesis
    using assms(6,8) stalled_steps [of env _ ?u] by (intro exI [of _ ?u]) (auto simp: appended_def)
qed

text \<open>The user's thread 1 and the timers thread 2 with a message each.\<close>

definition sample_destination :: "nat destination" where
  "sample_destination = \<lparr>serviceIdentifier = 872415233, endpoint = (1, 7)\<rparr>"

definition sample_threads :: "(nat, nat, unit, nat) threaded_server" where
  "sample_threads = \<lparr>shared = sample_server, stages = [Ready, Pushing sample_destination (makeRequestMessage 1 (Some 5) 11),
     Pushing sample_destination (makeRequestMessage 1 (Some 6) 12)]\<rparr>"

theorem push_race_stalls_witness:
  "\<exists>u. threads_steps sample_env {1, 2} sample_threads u \<and> length (messageQueue (shared u)) = 2 \<and>
    (\<forall>K v. threads_steps sample_env K u v \<longrightarrow> handedOver (shared v) = [])"
proof -
  have pre: "1 < length (stages sample_threads)" "2 < length (stages sample_threads)" "(1::nat) \<noteq> 2"
    "stages sample_threads ! 1 = Pushing sample_destination (makeRequestMessage 1 (Some 5) 11)"
    "stages sample_threads ! 2 = Pushing sample_destination (makeRequestMessage 1 (Some 6) 12)"
    "set ((stages sample_threads)[1 := Ready, 2 := Ready]) = {Ready}"
    "messageQueue (shared sample_threads) = []" "inFlight (shared sample_threads) = []"
    by (simp_all add: sample_threads_def sample_server_simps)
  from push_race_stalls [OF pre, of sample_env] show ?thesis
    by (elim exE conjE) (rule exI, auto simp: sample_threads_def sample_server_simps)
qed

text \<open>
  One thread sends two messages: the first leaves at once, the second when the first is
  completed, and the queue is empty after the second.
\<close>

definition sample_message :: "nat \<Rightarrow> u32 \<Rightarrow> nat message" where
  "sample_message payload code = makeRequestMessage 704643073 (Some payload) code"

lemma sample_handed_over:
  assumes "timers_room s"
  obtains s' where "handed_over sample_env (sample_destination, m) s = Done Ready s'"
    and "cache_inv (timersCache s')" and "\<not> timersLock (timersCache s')"
    and "length (timers (timersCache s')) = Suc (length (timers (timersCache s)))"
    and "messageQueue s' = messageQueue s" and "inFlight s' = inFlight s @ [((1, 7), [ucast (header_transactioncode m)])]"
    and "handedOver s' = handedOver s @ [((1, 7), [ucast (header_transactioncode m)])]"
proof -
  obtain i c where reg: "registerTimer (Some (resend_timer sample_env (now s) sample_destination m)) (timersCache s) = Some (i, c)"
    and c: "cache_inv c" "\<not> timersLock c"
    using registered_in_room [OF assms] by metis
  from reg have "length (timers c) = Suc (length (timers (timersCache s)))" by (auto simp: registerTimer_iff)
  moreover have "endpoint sample_destination = (1, 7)" and "serialize sample_env m = [ucast (header_transactioncode m)]"
    by (simp_all add: sample_destination_def sample_env_def)
  ultimately show ?thesis
    using reg c by (intro that [of "after_send sample_env sample_destination m i c s"]) (simp_all add: handed_over_def after_send_def)
qed

lemma sample_server_room: "timers_room sample_server"
  by (simp add: sample_server_simps cache_inv_empty) (simp add: empty_timers_cache_def)

theorem threads_compose_witness:
  "prepare sample_env (CallRequest 872415233 (Some 9)) sample_server =
     Done (Some (sample_destination, sample_message 9 1)) (sample_server\<lparr>randCalls := 1\<rparr>) \<and>
   (\<exists>s1 s2 s3. run_thread sample_env 3 (Pushing sample_destination (sample_message 9 1)) sample_server = Done Ready s1 \<and>
      handedOver s1 = [((1, 7), [1])] \<and>
      run_thread sample_env 3 (Pushing sample_destination (sample_message 8 2)) s1 = Done Ready s2 \<and>
      handedOver s2 = [((1, 7), [1])] \<and>
      messageQueue s2 = [(sample_destination, sample_message 9 1), (sample_destination, sample_message 8 2)] \<and>
      andThen (completion_begins False s2) (run_thread sample_env 2) = Done Ready s3 \<and>
      handedOver s3 = [((1, 7), [1]), ((1, 7), [2])] \<and> messageQueue s3 = [(sample_destination, sample_message 8 2)])"
proof
  have "drawn_code (rand sample_env) 1000 0 = 1" by (rule sample_code)
  with threads_compose [of sample_env sample_destination "sample_message 9 1" sample_server False 872415233 "(1, 7)" "Some 9"]
  show "prepare sample_env (CallRequest 872415233 (Some 9)) sample_server =
     Done (Some (sample_destination, sample_message 9 1)) (sample_server\<lparr>randCalls := 1\<rparr>)"
    by (simp add: sample_server_simps sample_destination_def sample_message_def) (simp add: sample_env_def)
next
  note sender = threads_compose [THEN conjunct1, of sample_env sample_destination]
  note completion = threads_compose [THEN conjunct2, THEN conjunct2, THEN conjunct1, of False _ sample_env]
  note q = sample_server_simps(2,5,6)
  have code: "header_transactioncode (sample_message a k) = k" for a k by (simp add: sample_message_def)
  let ?m = "(sample_destination, sample_message 9 1)" and ?n = "(sample_destination, sample_message 8 2)"
  have room: "timers_room (sample_server\<lparr>messageQueue := [?m]\<rparr>)" using sample_server_room by simp
  obtain s1 where s1: "run_thread sample_env 3 (Pushing sample_destination (sample_message 9 1)) sample_server = Done Ready s1"
    and room1: "cache_inv (timersCache s1)" "\<not> timersLock (timersCache s1)" "length (timers (timersCache s1)) = 1"
    and q1: "messageQueue s1 = [?m]" "inFlight s1 = [((1, 7), [1])]" "handedOver s1 = [((1, 7), [1])]"
    by (rule sample_handed_over [OF room, of "sample_message 9 1"])
      (use sender [of "sample_message 9 1" sample_server] in \<open>simp add: q code sample_server_simps(4) empty_timers_cache_def\<close>)
  let ?s2 = "s1\<lparr>messageQueue := [?m, ?n]\<rparr>" and ?t = "s1\<lparr>inFlight := [], messageQueue := [?n]\<rparr>"
  have s2: "run_thread sample_env 3 (Pushing sample_destination (sample_message 8 2)) s1 = Done Ready ?s2"
    using sender [of "sample_message 8 2" s1] q1 by simp
  have "timers_room ?t" using room1 by simp
  then obtain s3 where "handed_over sample_env ?n ?t = Done Ready s3" and "messageQueue s3 = [?n]"
    and "handedOver s3 = [((1, 7), [1]), ((1, 7), [2])]"
    by (rule sample_handed_over [where m = "sample_message 8 2"]) (simp add: code q1)
  with s1 s2 q1 completion [of ?s2]
  show "\<exists>s1 s2 s3. run_thread sample_env 3 (Pushing sample_destination (sample_message 9 1)) sample_server = Done Ready s1 \<and>
      handedOver s1 = [((1, 7), [1])] \<and>
      run_thread sample_env 3 (Pushing sample_destination (sample_message 8 2)) s1 = Done Ready s2 \<and>
      handedOver s2 = [((1, 7), [1])] \<and>
      messageQueue s2 = [?m, ?n] \<and>
      andThen (completion_begins False s2) (run_thread sample_env 2) = Done Ready s3 \<and>
      handedOver s3 = [((1, 7), [1]), ((1, 7), [2])] \<and> messageQueue s3 = [?n]"
    by (intro exI [of _ s1] exI [of _ ?s2] exI [of _ s3]) simp
qed

text \<open>
  A run of thread 0 from the started server: a request is prepared, pushed, found alone and sent;
  then its send completes and the queue is empty again.
\<close>

abbreviation sample_single :: "(nat, nat, unit, nat) threaded_server" where
  "sample_single \<equiv> \<lparr>shared = started_server sample_env [872415233 \<mapsto> (1, 7)] [] 0, stages = [Ready]\<rparr>"

theorem single_thread_safe_witness:
  "\<exists>t u. threads_steps sample_env {0} sample_single t \<and>
     messageQueue (shared t) = [(sample_destination, sample_message 9 1)] \<and> inFlight (shared t) = [((1, 7), [1])] \<and>
     length (inFlight (shared t)) \<le> 1 \<and> stages t ! 0 = Ready \<and> completion_begins False (shared t) \<noteq> Undefined \<and>
     threads_steps sample_env {0} t u \<and> stages u ! 0 = AskingEmpty \<and> messageQueue (shared u) = [] \<and>
     thread_next sample_env (stages u ! 0) (shared u) \<noteq> Undefined"
proof -
  let ?s = "shared sample_single" and ?dm = "(sample_destination, sample_message 9 1)"
  let ?a = "\<lparr>shared = ?s\<lparr>randCalls := 1\<rparr>, stages = [Pushing sample_destination (sample_message 9 1)]\<rparr>"
  let ?b = "?s\<lparr>randCalls := 1, messageQueue := [?dm]\<rparr>"
  have s: "servicesEndpointsMap ?s 872415233 = Some (1, 7)" "parkedMessages ?s = []" "randCalls ?s = 0"
    "messageQueue ?s = []" "inFlight ?s = []" "timersCache ?s = empty_timers_cache"
    by (simp_all add: started_server_def new_server_def startReading_def)
  have "prepare sample_env (CallRequest 872415233 (Some 9)) ?s = Done (Some ?dm) (?s\<lparr>randCalls := 1\<rparr>)"
    using s sample_code
    by (simp add: findDestination_def generateTransactionCode_none_parked sample_message_def sample_destination_def)
      (simp add: sample_env_def)
  then have called: "threads_step sample_env {0} sample_single ?a"
    using threads_step.call [of 0 "{0}" sample_single sample_env "CallRequest 872415233 (Some 9)"] by (simp add: first_stage_def)
  have "timers_room ?b" using s(6) by (simp add: cache_inv_empty) (simp add: empty_timers_cache_def)
  then obtain i c where "registerTimer (Some (resend_timer sample_env (now ?b) sample_destination (sample_message 9 1))) (timersCache ?b) = Some (i, c)"
    using registered_in_room by metis
  then have send: "send sample_env ?b = Done () (after_send sample_env sample_destination (sample_message 9 1) i c ?b)"
    by (simp add: send_result)
  let ?t = "\<lparr>shared = after_send sample_env sample_destination (sample_message 9 1) i c ?b, stages = [Ready]\<rparr>"
  let ?u = "\<lparr>shared = (shared ?t)\<lparr>inFlight := [], messageQueue := []\<rparr>, stages = [AskingEmpty]\<rparr>"
  have bytes: "serialize sample_env (sample_message 9 1) = [1]" "endpoint sample_destination = (1, 7)"
    by (simp_all add: sample_message_def sample_destination_def sample_env_def)
  have "run_schedule sample_env [Move 0, Move 0, Move 0] ?a = Some ?t"
    using s send by (simp add: schedule_simps)
  from run_schedule_steps [OF this, of "{0}"] threads_steps_first [OF called]
  have t: "threads_steps sample_env {0} sample_single ?t" by simp
  have "run_schedule sample_env [Complete False] ?t = Some ?u"
    using s by (simp add: schedule_simps after_send_def)
  from run_schedule_steps [OF this, of "{0}"] have tu: "threads_steps sample_env {0} ?t ?u" by simp
  from tu t have u: "threads_steps sample_env {0} sample_single ?u"
    by (induction rule: threads_steps.induct) (blast intro: threads_steps.step)+
  have "stages sample_single = replicate (Suc 0) Ready" by simp
  with single_thread_safe [of sample_env "[872415233 \<mapsto> (1, 7)]" "[]" 0 0 ?t False] t
    single_thread_safe [of sample_env "[872415233 \<mapsto> (1, 7)]" "[]" 0 0 ?u False] u
  have "length (inFlight (shared ?t)) \<le> 1 \<and> (inFlight (shared ?t) = [] \<or> completion_begins False (shared ?t) \<noteq> Undefined)"
    and "thread_next sample_env (stages ?u ! 0) (shared ?u) \<noteq> Undefined" by simp_all
  moreover have "messageQueue (shared ?t) = [?dm] \<and> inFlight (shared ?t) = [((1, 7), [1])] \<and> messageQueue (shared ?u) = []"
    using s bytes by (simp add: after_send_def)
  ultimately show ?thesis using t tu by (intro exI [of _ ?t] exI [of _ ?u]) simp
qed

section \<open>A push in the middle of a completion\<close>

text \<open>C19:
  A message pushed between the pop of the completion handler and its question whether the queue
  is empty is sent twice: its sender finds it alone and sends it, and the completion handler
  finds the queue not empty and sends it too. The first of the two completions pops it, and the
  second pops from an empty queue, which is undefined behaviour.
\<close>
theorem completion_race_undefined:
  assumes "1 < length (stages t)" and "stages t ! 0 = Ready" and "stages t ! 1 = Pushing d m"
    and "messageQueue (shared t) = [a]" and "inFlight (shared t) = [x]"
    and "\<not> timersLock (timersCache (shared t))" and "Suc (length (timers (timersCache (shared t)))) < 2 ^ 32 - 1"
  shows "\<exists>u. threads_steps env {0, 1} t u \<and>
    handedOver (shared u) = handedOver (shared t) @ [datagram_of env (d, m), datagram_of env (d, m)] \<and>
    inFlight (shared u) \<noteq> [] \<and> stages u ! 0 = Ready \<and> completion_begins False (shared u) = Undefined"
proof -
  let ?s = "shared t" and ?sts = "stages t"
  let ?s2 = "?s\<lparr>inFlight := [], messageQueue := [(d, m)]\<rparr>"
  obtain i c where reg: "registerTimer (Some (resend_timer env (now ?s) d m)) (timersCache ?s) = Some (i, c)"
    using registerTimer_returns [of "timersCache ?s"] assms(6,7) by fastforce
  then have "\<not> timersLock c" and "length (timers c) < 2 ^ 32 - 1"
    using assms(7) by (auto simp: registerTimer_iff)
  then obtain i' c' where reg': "registerTimer (Some (resend_timer env (now ?s) d m)) c = Some (i', c')"
    using registerTimer_returns [of c] by blast
  let ?s3 = "after_send env d m i c ?s2"
  let ?s4 = "after_send env d m i' c' ?s3"
  let ?s5 = "?s4\<lparr>inFlight := [datagram_of env (d, m)], messageQueue := []\<rparr>"
  have send2: "send env ?s2 = Done () ?s3" and send3: "send env ?s3 = Done () ?s4"
    using reg reg' by (simp_all add: send_result after_send_def)
  have "stages t \<noteq> []" using assms(1) by auto
  then have "run_schedule env [Complete False, Move 1, Move 1, Move 0, Move 1, Move 0, Complete False, Move 0] t =
      Some \<lparr>shared = ?s5, stages = ?sts[0 := Ready, 1 := Ready]\<rparr>"
    using assms(1-5) send2 send3
    by (simp add: schedule_simps list_update_swap) (simp add: after_send_def datagram_of_def)
  then have "threads_steps env {0, 1} t \<lparr>shared = ?s5, stages = ?sts[0 := Ready, 1 := Ready]\<rparr>"
    by (rule run_schedule_steps) simp
  then show ?thesis
    by (intro exI [of _ "\<lparr>shared = ?s5, stages = ?sts[0 := Ready, 1 := Ready]\<rparr>"])
      (use \<open>stages t \<noteq> []\<close> in \<open>simp add: completion_begins_def after_send_def datagram_of_def Let_def\<close>)
qed

text \<open>A datagram on its way, and thread 1 about to push another message.\<close>

definition sample_completing :: "(nat, nat, unit, nat) threaded_server" where
  "sample_completing =
     \<lparr>shared = sample_server\<lparr>messageQueue := [(sample_destination, makeRequestMessage 1 (Some 4) 10)], inFlight := [((1, 7), [10])]\<rparr>,
      stages = [Ready, Pushing sample_destination (makeRequestMessage 1 (Some 5) 11)]\<rparr>"

theorem completion_race_undefined_witness:
  "\<exists>u. threads_steps sample_env {0, 1} sample_completing u \<and> handedOver (shared u) = [((1, 7), [11]), ((1, 7), [11])] \<and>
     inFlight (shared u) \<noteq> [] \<and> completion_begins False (shared u) = Undefined"
proof -
  have pre: "1 < length (stages sample_completing)" "stages sample_completing ! 0 = Ready"
    "stages sample_completing ! 1 = Pushing sample_destination (makeRequestMessage 1 (Some 5) 11)"
    "messageQueue (shared sample_completing) = [(sample_destination, makeRequestMessage 1 (Some 4) 10)]"
    "inFlight (shared sample_completing) = [((1, 7), [10])]"
    "\<not> timersLock (timersCache (shared sample_completing))"
    "Suc (length (timers (timersCache (shared sample_completing)))) < 2 ^ 32 - 1"
    by (simp_all add: sample_completing_def sample_server_simps empty_timers_cache_def)
  have "datagram_of sample_env (sample_destination, makeRequestMessage 1 (Some 5) 11) = ((1, 7), [11])"
    by (simp add: datagram_of_def sample_destination_def sample_env_def)
  moreover have "handedOver (shared sample_completing) = []"
    by (simp add: sample_completing_def sample_server_simps)
  ultimately show ?thesis using completion_race_undefined [OF pre, of sample_env] by auto
qed

end
