(* ===== verification/Server_Races.thy ===== *)
theory Server_Races
  imports Server_Resend
begin

text \<open>
  handleResponse against the timers thread. The handler looks a transaction code up, removes
  the timer, for which it waits for timersLock, and erases the entry through the iterator it
  has kept since the look-up. The resend lambda erases entries of the same map from the timers
  thread, while that thread holds timersLock; the map itself has no mutex. An iterator of a
  std::map is valid until its element is erased, so an iterator is a code together with how
  often that code had been erased when it was taken.
\<close>

section \<open>The handler step by step\<close>

datatype 'any response_stage =
    Finding "'any message"
  | Removing u32 u32 nat
  | Erasing u32 nat
  | Handled

text \<open>\<open>erased\<close>: how often the entry of a code has been erased.\<close>

definition response_next ::
    "'any response_stage \<Rightarrow> (u32 \<Rightarrow> nat) \<Rightarrow> ('addr, 'any, 'h, 'w) server
      \<Rightarrow> ('addr, 'any, 'h, 'w, 'any response_stage) server_result" where
  "response_next st erased s =
     (case st of
        Finding m \<Rightarrow>
          (if \<not> has_response m then Done Handled s
           else if msgResponse m = Some Success then
             (let code = header_transactioncode m
              in case transactionAndTimerID s code of
                   Some timer_id \<Rightarrow> Done (Removing code timer_id (erased code)) s
                 | None \<Rightarrow> Done Handled s)
           else Done Handled s)
      | Removing code timer_id taken \<Rightarrow>
          (case removeTimer timer_id (timersCache s) of
             None \<Rightarrow> Blocks
           | Some cache \<Rightarrow> Done (Erasing code taken) (s\<lparr>timersCache := cache\<rparr>))
      | Erasing code taken \<Rightarrow>
          (if erased code \<noteq> taken then Undefined
           else Done Handled (s\<lparr>transactionAndTimerID := (transactionAndTimerID s)(code := None)\<rparr>))
      | Handled \<Rightarrow> Done Handled s)"

text \<open>The handler alone: its calls one after the other.\<close>

fun run_response ::
    "nat \<Rightarrow> (u32 \<Rightarrow> nat) \<Rightarrow> 'any response_stage \<Rightarrow> ('addr, 'any, 'h, 'w) server
      \<Rightarrow> ('addr, 'any, 'h, 'w, 'any response_stage) server_result" where
  "run_response 0 erased st s = Done st s"
| "run_response (Suc n) erased st s = andThen (response_next st erased s) (run_response n erased)"

text \<open>A round of the timers thread only erases entries; it adds to the count of those that are gone.\<close>

definition count_erasures ::
    "('addr, 'any, 'h, 'w) server \<Rightarrow> ('addr, 'any, 'h, 'w) server \<Rightarrow> (u32 \<Rightarrow> nat) \<Rightarrow> u32 \<Rightarrow> nat" where
  "count_erasures s s' erased code =
     erased code + (if transactionAndTimerID s code \<noteq> None \<and> transactionAndTimerID s' code = None then 1 else 0)"

lemma run_response_handled: "run_response n erased Handled s = Done Handled s"
  by (induction n) (simp_all add: response_next_def)

section \<open>Property\<close>

text \<open>
  The handler of a response, uninterrupted, is handleResponse. But when its timer is due and
  another message is on its way, a round of the timers thread between the look-up and the
  removal forgets the code, and then the handler erases through an iterator that is no longer
  valid: undefined behaviour, from a response that comes just as its request is resent.
\<close>
lemma response_races_resend:
  assumes "\<not> timersLock (timersCache s)" and "messageQueue s \<noteq> []"
    and "\<forall>e \<in> set (timers (timersCache s)). resend_entry (servicesEndpointsMap s) e \<and>
           \<not> isRepeatable (snd e) \<and> getActionStatus (snd e) = Waiting"
    and "e \<in> set (timers (timersCache s))" and "due tp (snd e)" and "transactionCode (entry_parked e) = code"
    and "transactionAndTimerID s code = Some i" and "m = success_response sender code"
  shows "run_response 3 erased (Finding m) s = andThen (handleResponse m s) (\<lambda>_ s. Done Handled s) \<and>
    (\<exists>s' s''. response_next (Finding m) erased s = Done (Removing code i (erased code)) s \<and>
      server_timers_round env tp restarts s = Some s' \<and>
      response_next (Removing code i (erased code)) (count_erasures s s' erased) s' = Done (Erasing code (erased code)) s'' \<and>
      response_next (Erasing code (erased code)) (count_erasures s s' erased) s'' = Undefined)"
proof -
  have m: "has_response m" "msgResponse m = Some Success" "header_transactioncode m = code"
    using assms(8) by (simp_all add: success_response_def message_defs)
  obtain s' where round: "server_timers_round env tp restarts s = Some s'" and gone: "transactionAndTimerID s' code = None"
      and "\<not> timersLock (timersCache s')"
    using round_while_sending [OF assms(1-3), of env tp restarts] assms(4-6) by metis
  then obtain c where "removeTimer i (timersCache s') = Some c" by (auto simp: removeTimer_iff)
  moreover have "run_response 3 erased (Finding m) s = andThen (handleResponse m s) (\<lambda>_ s. Done Handled s)"
    using m assms(7) by (simp add: numeral_3_eq_3 response_next_def handleResponse_def split: option.split)
  moreover have "response_next (Finding m) erased s = Done (Removing code i (erased code)) s"
    using m assms(7) by (simp add: response_next_def)
  moreover have "count_erasures s s' erased code \<noteq> erased code"
    using assms(7) gone by (simp add: count_erasures_def)
  ultimately show ?thesis using round by (auto simp: response_next_def)
qed

end
