(* ===== verification/Server_Delivery.thy ===== *)
theory Server_Delivery
  imports Server_Codes
begin

text \<open>
  Two servers: what a request of one module makes the handlers of another one do. The network
  in between may lose, repeat and delay datagrams; the sender may send one again. What the
  library relies on of the generated classes is that parsing undoes serialising.
\<close>

section \<open>Datagrams arriving one after the other\<close>

fun deliver ::
    "('addr, 'any, 'h, 'w) server_env \<Rightarrow> bytes list \<Rightarrow> ('addr, 'any, 'h, 'w) server
      \<Rightarrow> ('addr, 'any, 'h, 'w, unit) server_result" where
  "deliver env [] s = Done () s"
| "deliver env (d # ds) s = andThen (postReceive env (Some d) s) (\<lambda>_ s. deliver env ds s)"

text \<open>What the handlers of a sender do with a payload.\<close>

definition handlers_effect ::
    "('addr, 'any, 'h, 'w) server_env \<Rightarrow> 'h events_cache \<Rightarrow> i32 \<Rightarrow> 'any \<Rightarrow> 'w \<Rightarrow> 'w" where
  "handlers_effect env events i any =
     fold (\<lambda>h. handler_run env h any) (filter (\<lambda>h. handler_validate env h any) (handlers_of i events))"

lemma postReceive_request:
  assumes "parse env (take (messageBufferLength s) d) = Some (makeRequestMessage i any code)"
    and "events_ok (eventsCache s)"
  shows "postReceive env (Some d) s = Done () (s\<lparr>readingStarted := True,
    handlersWorld := handlers_effect env (eventsCache s) i (case any of Some a \<Rightarrow> a | None \<Rightarrow> default_any env) (handlersWorld s)\<rparr>)"
proof -
  have "request_payload (default_any env) (makeRequestMessage i any code) =
      (case any of Some a \<Rightarrow> a | None \<Rightarrow> default_any env)"
    by (simp add: message_defs Let_def split: option.split)
  moreover have "has_header (makeRequestMessage i any code)" and "has_request (makeRequestMessage i any code)"
    by (simp_all add: message_defs Let_def)
  ultimately show ?thesis
    using assms
    by (simp add: postReceive_def startReading_def handleRequest_def ec.dispatch_law handlers_effect_def Let_def)
qed

lemma deliver_request:
  assumes "parse env (take (messageBufferLength s) d) = Some (makeRequestMessage i any code)"
    and "events_ok (eventsCache s)"
  shows "deliver env (replicate n d) s = Done () (s\<lparr>readingStarted := readingStarted s \<or> 0 < n,
    handlersWorld := (handlers_effect env (eventsCache s) i (case any of Some a \<Rightarrow> a | None \<Rightarrow> default_any env) ^^ n)
      (handlersWorld s)\<rparr>)"
  using assms
proof (induction n arbitrary: s)
  case (Suc n)
  from postReceive_request [OF Suc.prems] Suc.IH Suc.prems show ?case
    by (simp add: funpow_swap1)
qed simp

section \<open>Property\<close>

text \<open>C25:
  A request that a module sends, alone in its queue, is one datagram for the endpoint of the
  service. At a module whose buffer is large enough for it, each arrival of that datagram runs
  exactly the accepting handlers registered there for the sending module, in order, on the
  payload of the request (the default payload where there was none), and changes nothing else.
  Nothing recognises a request that has been handled before: when it arrives n times, because
  the network repeats it or the sender resends it, the handlers run n times.
\<close>
theorem request_delivery:
  assumes "findDestination env i s = Done (Some d) s" and "messageQueue s = []" and "parkedMessages s = []"
    and "timers_room s"
    and "parse env' (serialize env (next_request env any s)) = Some (next_request env any s)"
    and "length (serialize env (next_request env any s)) \<le> messageBufferLength r" and "events_ok (eventsCache r)"
  shows "\<exists>s1. sendRequest env i any s = Done True s1 \<and>
    handedOver s1 = handedOver s @ [(endpoint d, serialize env (next_request env any s))] \<and>
    deliver env' (replicate n (serialize env (next_request env any s))) r = Done () (r\<lparr>readingStarted := readingStarted r \<or> 0 < n,
      handlersWorld := (handlers_effect env' (eventsCache r) (moduleIdentifier env)
        (case any of Some a \<Rightarrow> a | None \<Rightarrow> default_any env') ^^ n) (handlersWorld r)\<rparr>)"
proof -
  let ?d = "serialize env (next_request env any s)"
  obtain s1 where "sendRequest env i any s = Done True s1" and "handedOver s1 = handedOver s @ [(endpoint d, ?d)]"
    by (rule sendRequest_alone [OF assms(1-4), of any])
  moreover have "parse env' (take (messageBufferLength r) ?d) =
      Some (makeRequestMessage (moduleIdentifier env) any (drawn_code (rand env) 1000 (randCalls s)))"
    using assms(5,6) by (simp add: next_request_def)
  from deliver_request [OF this assms(7)]
  have "deliver env' (replicate n ?d) r = Done () (r\<lparr>readingStarted := readingStarted r \<or> 0 < n,
      handlersWorld := (handlers_effect env' (eventsCache r) (moduleIdentifier env)
        (case any of Some a \<Rightarrow> a | None \<Rightarrow> default_any env') ^^ n) (handlersWorld r)\<rparr>)" .
  ultimately show ?thesis by blast
qed

text \<open>
  A module that has registered one handler for the sample server's module, which adds the
  payload to a sum.
\<close>

definition sample_receiver_env :: "(nat, nat, unit, nat) server_env" where
  "sample_receiver_env = sample_env\<lparr>parse := (\<lambda>b. case b of [c] \<Rightarrow> Some (makeRequestMessage 704643073 (Some 9) (ucast c)) | _ \<Rightarrow> None)\<rparr>"

definition sample_receiver :: "(nat, nat, unit, nat) server" where
  "sample_receiver = started_server sample_env Map.empty (addEvent 704643073 (Some (MessageReceiveEvent (Some ()))) []) 0"

theorem request_delivery_witness:
  "\<exists>s1. sendRequest sample_env 872415233 (Some 9) sample_server = Done True s1 \<and> handedOver s1 = [((1, 7), [1])] \<and>
     deliver sample_receiver_env [[1], [1]] sample_receiver = Done () (sample_receiver\<lparr>handlersWorld := 18\<rparr>)"
proof -
  have req: "next_request sample_env (Some 9) sample_server = makeRequestMessage 704643073 (Some 9) 1"
    by (simp add: next_request_def sample_code sample_server_simps) (simp add: sample_env_def)
  have bytes: "serialize sample_env (makeRequestMessage 704643073 (Some 9) 1) = [1]" by (simp add: sample_env_def)
  have peer: "messageBufferLength sample_receiver = 64" "readingStarted sample_receiver" "handlersWorld sample_receiver = 0"
    "eventsCache sample_receiver = addEvent 704643073 (Some (MessageReceiveEvent (Some ()))) []"
    by (simp_all add: sample_receiver_def started_server_def startReading_def new_server_def sample_env_def)
  have events: "events_ok (eventsCache sample_receiver)" "handlers_of 704643073 (eventsCache sample_receiver) = [()]"
    using ec.add_law [of "[]" 704643073 "()" 704643073] by (simp_all add: peer events_ok_def handlers_of_def)
  have "parse sample_receiver_env (serialize sample_env (next_request sample_env (Some 9) sample_server)) =
      Some (next_request sample_env (Some 9) sample_server)"
    by (simp add: req bytes) (simp add: sample_receiver_env_def)
  moreover have "length (serialize sample_env (next_request sample_env (Some 9) sample_server)) \<le> messageBufferLength sample_receiver"
    by (simp add: req bytes peer)
  moreover have "moduleIdentifier sample_env = 704643073" by (simp add: sample_env_def)
  moreover have "handlers_effect sample_receiver_env (eventsCache sample_receiver) 704643073 9 = (\<lambda>w. w + 9)"
    by (rule ext) (simp add: handlers_effect_def events, simp add: sample_receiver_env_def sample_env_def)
  ultimately show ?thesis
    using request_delivery [OF known_destination [where s = sample_server and i = 872415233 and e = "(1, 7)"] _ _ sample_room,
        where env = sample_env and any = "Some 9" and env' = sample_receiver_env and r = sample_receiver and n = 2] events(1)
    by (auto simp: sample_server_simps peer req bytes numeral_2_eq_2)
qed

end
