(* ===== verification/Connection_Safety.thy ===== *)
theory Connection_Safety
  imports Watchdog_Connection
begin

text \<open>
  No run of the watchdog connection is undefined: no completion handler finds its message
  buffer null or its queue empty, whatever the socket reports and whatever the watcher thread
  does in between, as long as a message buffer can be allocated. Each function is one step
  here; the theory Tcp_Threads looks at calls of several threads that mix.
\<close>

section \<open>Well-formed connections\<close>

text \<open>
  At most one read is pending, into a message buffer that is there and has the size that is
  read; at most one write is pending, of the front message, with the flag set, and a body is
  only written when it is not empty.
\<close>

fun reads_ok :: "read_operation list \<Rightarrow> 'op framed_message option \<Rightarrow> bool" where
  "reads_ok [] incoming = True"
| "reads_ok [ReadHeader] incoming = (incoming \<noteq> None)"
| "reads_ok [ReadBody n] incoming = (\<exists>m. incoming = Some m \<and> n = length (msgBody m))"
| "reads_ok (r # r' # rs) incoming = False"

fun writes_ok :: "write_operation list \<Rightarrow> bool \<Rightarrow> 'op framed_message list \<Rightarrow> bool" where
  "writes_ok [] flag q = True"
| "writes_ok [WriteHeader] flag q = (flag \<and> q \<noteq> [])"
| "writes_ok [WriteBody] flag q = (flag \<and> q \<noteq> [] \<and> msgBody (hd q) \<noteq> [])"
| "writes_ok (w # w' # ws) flag q = False"

definition conn_ok :: "('op, 's) tcp_connection \<Rightarrow> bool" where
  "conn_ok c \<longleftrightarrow> socketPresent c \<and> reads_ok (pendingReads c) (incomingMessage c) \<and>
     writes_ok (pendingWrites c) (sendingInProgress c) (messagesQueue c)"

lemma reads_ok_cases:
  assumes "reads_ok rs incoming"
  obtains "rs = []" | m where "rs = [ReadHeader]" "incoming = Some m"
  | m where "rs = [ReadBody (length (msgBody m))]" "incoming = Some m"
  using assms by (cases "(rs, incoming)" rule: reads_ok.cases) auto

lemma writes_ok_cases:
  assumes "writes_ok ws flag q"
  obtains "ws = []" | m q' where "ws = [WriteHeader]" "flag" "q = m # q'"
  | m q' where "ws = [WriteBody]" "flag" "q = m # q'" "msgBody m \<noteq> []"
  using assms by (cases "(ws, flag, q)" rule: writes_ok.cases) (auto simp: neq_Nil_conv)

lemma writes_ok_append: "writes_ok ws flag q \<Longrightarrow> writes_ok ws flag (q @ q')"
  by (cases "(ws, flag, q)" rule: writes_ok.cases) auto

text \<open>Operations on the socket, the timer and the state alone.\<close>

definition same_traffic :: "('op, 's) tcp_connection \<Rightarrow> ('op, 's) tcp_connection \<Rightarrow> bool" where
  "same_traffic c c' \<longleftrightarrow> pendingReads c' = pendingReads c \<and> pendingWrites c' = pendingWrites c \<and>
     incomingMessage c' = incomingMessage c \<and> messagesQueue c' = messagesQueue c \<and>
     sendingInProgress c' = sendingInProgress c \<and> (socketPresent c \<longrightarrow> socketPresent c')"

lemma conn_ok_same: "conn_ok c \<Longrightarrow> same_traffic c c' \<Longrightarrow> conn_ok c'"
  by (simp add: conn_ok_def same_traffic_def)

lemma same_traffic_disconnect: "same_traffic c (wd_disconnect c)"
  by (simp add: same_traffic_def wd_disconnect_def Let_def)

lemma same_traffic_handler: "same_traffic c (wd_handleReceivedMessage P m c)"
proof (cases m)
  case None
  then show ?thesis by (simp add: same_traffic_def wd_handleReceivedMessage_def)
next
  case (Some n)
  then show ?thesis
    by (cases "operationCode (msgHead n)")
      (simp_all add: same_traffic_def wd_handleReceivedMessage_def getResponseHandler_def connect_handleResponse_def
        ping_handleResponse_def reconnect_handleResponse_def setTimerExpiration_def)
qed

section \<open>Progress and preservation\<close>

lemma front_simps [simp]: "front (m # q) = Some m" "pop (m # q) = Some q"
  by (simp_all add: front_def pop_def)

lemma sendMessage_ok:
  assumes "conn_ok c"
  shows "\<exists>c'. sendMessage m c = Some c' \<and> conn_ok c'"
proof (cases "socketIsOpen c \<and> \<not> sendingInProgress c")
  case True
  with assms have "pendingWrites c = []" by (auto simp: conn_ok_def elim: writes_ok_cases)
  with True assms show ?thesis
    by (cases "messagesQueue c") (simp_all add: conn_ok_def sendMessage_def writeMessageHeader_def push_def Let_def)
next
  case False
  with assms show ?thesis by (auto simp: conn_ok_def sendMessage_def push_def Let_def writes_ok_append)
qed

lemma header_written_ok:
  assumes "conn_ok c" and "pendingWrites c = WriteHeader # ws"
  shows "\<exists>c'. postWriteMessageHeader (watchdog_virtuals P) r c = Some c' \<and> conn_ok c'"
proof -
  from assms obtain m q where q: "ws = []" "sendingInProgress c" "messagesQueue c = m # q"
    by (auto simp: conn_ok_def elim: writes_ok_cases)
  show ?thesis
  proof (cases r)
    case None
    have "same_traffic (c\<lparr>pendingWrites := []\<rparr>) (wd_disconnect (c\<lparr>pendingWrites := []\<rparr>))"
      by (rule same_traffic_disconnect)
    with None assms q show ?thesis
      by (simp add: postWriteMessageHeader_def watchdog_virtuals_def conn_ok_def same_traffic_def)
  next
    case (Some n)
    with assms q show ?thesis
      by (cases q) (auto simp: postWriteMessageHeader_def writeMessageHeader_def writeMessageBody_def conn_ok_def
          queue_empty_def Let_def)
  qed
qed

lemma body_written_ok:
  assumes "conn_ok c" and "pendingWrites c = WriteBody # ws"
  shows "\<exists>c'. postWriteMessageBody (watchdog_virtuals P) e c = Some c' \<and> conn_ok c'"
proof -
  from assms obtain m q where q: "ws = []" "sendingInProgress c" "messagesQueue c = m # q"
    by (auto simp: conn_ok_def elim: writes_ok_cases)
  have "same_traffic (c\<lparr>pendingWrites := []\<rparr>) (wd_disconnect (c\<lparr>pendingWrites := []\<rparr>))"
    by (rule same_traffic_disconnect)
  with assms q show ?thesis
    by (cases q) (auto simp: postWriteMessageBody_def writeMessageHeader_def watchdog_virtuals_def conn_ok_def
        same_traffic_def queue_empty_def Let_def)
qed

lemma header_read_ok:
  assumes "conn_ok c" and "pendingReads c = ReadHeader # rs"
  shows "\<exists>c'. postReadMessageHeader (watchdog_virtuals P) r c = Some c' \<and> conn_ok c'"
proof -
  from assms obtain m where m: "rs = []" "incomingMessage c = Some m"
    by (auto simp: conn_ok_def elim: reads_ok_cases)
  have "same_traffic (c\<lparr>pendingReads := []\<rparr>) (wd_disconnect (c\<lparr>pendingReads := []\<rparr>))"
    by (rule same_traffic_disconnect)
  with assms m show ?thesis
    by (auto simp: postReadMessageHeader_def readMessageBody_def watchdog_virtuals_def conn_ok_def same_traffic_def
        Let_def split: option.split prod.split)
qed

lemma body_read_ok:
  assumes "conn_ok c" and "pendingReads c = ReadBody n # rs"
  shows "\<exists>c'. postReadMessageBody (watchdog_virtuals P) True op0 r c = Some c' \<and> conn_ok c'"
proof -
  from assms obtain m where m: "rs = []" "incomingMessage c = Some m"
    by (auto simp: conn_ok_def elim: reads_ok_cases)
  show ?thesis
  proof (cases r)
    case None
    have "same_traffic (c\<lparr>pendingReads := []\<rparr>) (wd_disconnect (c\<lparr>pendingReads := []\<rparr>))"
      by (rule same_traffic_disconnect)
    with None assms m show ?thesis
      by (simp add: postReadMessageBody_def watchdog_virtuals_def conn_ok_def same_traffic_def)
  next
    case (Some b)
    let ?c = "c\<lparr>pendingReads := [], incomingMessage := None\<rparr>"
    have "same_traffic ?c (wd_handleReceivedMessage P (Some (m\<lparr>msgBody := b\<rparr>)) ?c)" by (rule same_traffic_handler)
    with Some assms m show ?thesis
      by (simp add: postReadMessageBody_def startReadingSequence_def readMessageHeader_def watchdog_virtuals_def
          conn_ok_def same_traffic_def Let_def)
  qed
qed

lemma body_read_allocated:
  "postReadMessageBody (watchdog_virtuals P) allocated op0 r c = Some c' \<Longrightarrow>
    postReadMessageBody (watchdog_virtuals P) True op0 r c = Some c'"
  by (cases allocated) (auto simp: postReadMessageBody_def startReadingSequence_def readMessageHeader_def
      watchdog_virtuals_def Let_def split: option.splits)

lemma timer_ok:
  assumes "conn_ok c"
  shows "\<exists>c'. timerExpired (watchdog_virtuals P) c = Some c' \<and> conn_ok c'"
proof -
  from assms have "conn_ok (c\<lparr>timerWaits := timerWaits c - 1\<rparr>)" by (simp add: conn_ok_def)
  from sendMessage_ok [OF this] show ?thesis
    by (simp add: timerExpired_def watchdog_virtuals_def wd_onTimerExpiration_def sendPing_def)
qed

lemma connection_step_ok: "connection_step P c c' \<Longrightarrow> conn_ok c \<Longrightarrow> conn_ok c'"
proof (induction rule: connection_step.induct)
  case (timer c c')
  with timer_ok [of c P] show ?case by auto
next
  case (header_read c rs r c')
  with header_read_ok [of c rs P r] show ?case by auto
next
  case (body_read c n rs allocated op0 r c')
  with body_read_ok [of c n rs P op0 r] body_read_allocated [of P allocated op0 r c c'] show ?case by auto
next
  case (header_written c ws r c')
  with header_written_ok [of c ws P r] show ?case by auto
next
  case (body_written c ws e c')
  with body_written_ok [of c ws P e] show ?case by auto
next
  case (connecting succeeds c b c')
  then show ?case by (auto simp: connect_def conn_ok_def Let_def split: if_splits)
next
  case (connect_request i c c')
  with sendMessage_ok [of c "make_message ConnectRequest (serialize_connect_request P i)"] show ?case
    by (auto simp: sendConnectRequest_def)
next
  case (shutdown_request i c c')
  with sendMessage_ok [of c "make_message ShutdownRequest (serialize_shutdown_request P i)"] show ?case
    by (auto simp: sendShutdownRequest_def)
qed (simp_all add: conn_ok_def makeNewSocket_def setTimerExpiration_def closeSocket_def)

lemma connection_steps_ok: "connection_steps P c c' \<Longrightarrow> conn_ok c \<Longrightarrow> conn_ok c'"
  by (induction rule: connection_steps.induct) (auto dest: connection_step_ok)

section \<open>The set-up\<close>

text \<open>What startWatchdogConnectionTask does to a new connection when connect succeeds.\<close>

definition set_up_connection :: "watchdog_protocol \<Rightarrow> i32 \<Rightarrow> operation \<Rightarrow> watchdog_connection \<Rightarrow> watchdog_connection option" where
  "set_up_connection P i op0 c =
     Option.bind (sendConnectRequest P i (snd (connect True c))) (startReadingSequence True op0)"

lemma set_up_ok:
  assumes "set_up_connection P i op0 (new_watchdog_connection code) = Some c"
  shows "conn_ok c"
proof -
  let ?up = "snd (connect True (new_watchdog_connection code))"
  have up: "conn_ok ?up" and none: "pendingReads ?up = []"
    by (simp_all add: connect_def new_watchdog_connection_def new_connection_def conn_ok_def)
  obtain c1 where c1: "sendConnectRequest P i ?up = Some c1" "conn_ok c1"
    using sendMessage_ok [OF up] unfolding sendConnectRequest_def by blast
  moreover have "pendingReads c1 = []"
    using same_reads_sendMessage [of _ ?up c1] c1(1) none by (simp add: sendConnectRequest_def same_reads_def)
  ultimately show ?thesis
    using assms by (auto simp: set_up_connection_def startReadingSequence_def readMessageHeader_def conn_ok_def Let_def)
qed

section \<open>Properties\<close>

text \<open>C17:
  In every state of the connection that set-up, timer, completions with any result, watcher
  thread and shutdown can reach, at most one read and one write are pending, and every
  completion handler, the timer and every sender are defined: no message buffer that is read
  into is null and no queue that is written from is empty. The one exception is a message
  buffer that cannot be allocated, which the code notices and then uses.
\<close>
theorem connection_memory_safe:
  assumes "set_up_connection P i op0 (new_watchdog_connection code) = Some c0" and "connection_steps P c0 c"
  shows "length (pendingReads c) \<le> 1 \<and> length (pendingWrites c) \<le> 1 \<and>
    (case pendingReads c of
       [] \<Rightarrow> True
     | ReadHeader # rs \<Rightarrow> postReadMessageHeader (watchdog_virtuals P) hresult c \<noteq> None
     | ReadBody n # rs \<Rightarrow> postReadMessageBody (watchdog_virtuals P) True op0 bresult c \<noteq> None) \<and>
    (case pendingWrites c of
       [] \<Rightarrow> True
     | WriteHeader # ws \<Rightarrow> postWriteMessageHeader (watchdog_virtuals P) wresult c \<noteq> None
     | WriteBody # ws \<Rightarrow> postWriteMessageBody (watchdog_virtuals P) error c \<noteq> None) \<and>
    timerExpired (watchdog_virtuals P) c \<noteq> None \<and>
    sendConnectRequest P i c \<noteq> None \<and> sendShutdownRequest P i c \<noteq> None"
proof -
  have ok: "conn_ok c" using set_up_ok [OF assms(1)] assms(2) connection_steps_ok by blast
  then have "length (pendingReads c) \<le> 1" and "length (pendingWrites c) \<le> 1"
    by (auto simp: conn_ok_def elim: reads_ok_cases writes_ok_cases)
  moreover have "sendConnectRequest P i c \<noteq> None" and "sendShutdownRequest P i c \<noteq> None"
    using sendMessage_ok [OF ok] by (fastforce simp: sendConnectRequest_def sendShutdownRequest_def)+
  ultimately show ?thesis
    using timer_ok [OF ok, of P] header_read_ok [OF ok, of _ P hresult] body_read_ok [OF ok, of _ _ P op0 bresult]
      header_written_ok [OF ok, of _ P wresult] body_written_ok [OF ok, of _ P error]
    by (fastforce split: list.split read_operation.split write_operation.split)
qed

theorem connection_memory_safe_witness:
  "\<exists>c. set_up_connection sample_protocol 704643073 ConnectRequest (new_watchdog_connection 7) = Some c \<and>
     pendingReads c = [ReadHeader] \<and> pendingWrites c = [WriteHeader] \<and>
     postWriteMessageHeader (watchdog_virtuals sample_protocol) (Some 8) c \<noteq> None"
proof -
  obtain c where c: "set_up_connection sample_protocol 704643073 ConnectRequest (new_watchdog_connection 7) = Some c"
    and p: "pendingReads c = [ReadHeader]" "pendingWrites c = [WriteHeader]"
    by (simp add: set_up_connection_def connect_def new_watchdog_connection_def new_connection_def sendConnectRequest_def
        sendMessage_def push_def writeMessageHeader_def startReadingSequence_def readMessageHeader_def)
  from connection_memory_safe [OF c connection_steps.refl, of None None "Some 8" False] c p show ?thesis by simp
qed

text \<open>The completion of the pending write with an error, as when its socket is destroyed.\<close>

definition write_aborted :: "watchdog_protocol \<Rightarrow> watchdog_connection \<Rightarrow> watchdog_connection option" where
  "write_aborted P c =
     (case pendingWrites c of
        [] \<Rightarrow> None
      | WriteHeader # ws \<Rightarrow> postWriteMessageHeader (watchdog_virtuals P) None c
      | WriteBody # ws \<Rightarrow> postWriteMessageBody (watchdog_virtuals P) True c)"

lemma write_aborted_result:
  "pendingWrites c = w # ws \<Longrightarrow>
    write_aborted P c = Some ((wd_disconnect (c\<lparr>pendingWrites := ws\<rparr>))\<lparr>sendingInProgress := False\<rparr>)"
  by (cases w) (simp_all add: write_aborted_def postWriteMessageHeader_def postWriteMessageBody_def watchdog_virtuals_def)

text \<open>C34:
  When the connection is lost while a message is being written and the watcher thread has
  reconnected before the completion handler of that write runs, the new connection is lost too.
  Its connect request was only queued, because the flag of the old write is still set; the
  handler of the aborted write then closes the socket the connection has now, the new one, with
  nothing written on it, and leaves the request in the queue.
\<close>
theorem aborted_write_closes_new_socket:
  assumes "conn_ok c" and "pendingWrites c \<noteq> []" and "pendingReads c = [ReadHeader]"
    and "connectionState (owner c) = Connected"
    and "postReadMessageHeader (watchdog_virtuals P) None c = Some c1"
    and "connect True (makeNewSocket c1) = (True, c2)" and "sendConnectRequest P i c2 = Some c3"
  shows "socketIsOpen c3 \<and> wire c3 = [] \<and> pendingWrites c3 = pendingWrites c \<and>
    (\<exists>c4. write_aborted P c3 = Some c4 \<and> \<not> socketIsOpen c4 \<and> wire c4 = [] \<and> pendingWrites c4 = [] \<and>
      getConnectionState (owner c4) = NotConnected \<and>
      messagesQueue c4 = messagesQueue c @ [make_message ConnectRequest (serialize_connect_request P i)])"
proof -
  from assms(1,2) obtain w where w: "pendingWrites c = [w]" and flag: "sendingInProgress c"
    by (auto simp: conn_ok_def elim: writes_ok_cases)
  from assms(5) have c1: "c1 = wd_disconnect (c\<lparr>pendingReads := tl (pendingReads c)\<rparr>)"
    by (simp add: postReadMessageHeader_def watchdog_virtuals_def Let_def)
  have same: "same_traffic (c\<lparr>pendingReads := tl (pendingReads c)\<rparr>) c1"
    unfolding c1 by (rule same_traffic_disconnect)
  have lost: "connectionState (owner c1) = NotConnected"
    using assms(4) by (simp add: c1 watchdog_defs Let_def)
  from assms(6) have c2: "c2 = c1\<lparr>socketPresent := True, socketIsOpen := True, wire := []\<rparr>"
    by (simp add: connect_def makeNewSocket_def)
  have c3: "c3 = c2\<lparr>messagesQueue := messagesQueue c @ [make_message ConnectRequest (serialize_connect_request P i)]\<rparr>"
    using assms(7) same flag
    by (simp add: c2 same_traffic_def sendConnectRequest_def sendMessage_def push_def Let_def)
  have "pendingWrites c3 = [w]" using same w by (simp add: c3 c2 same_traffic_def)
  with write_aborted_result [OF this, of P] lost w show ?thesis
    by (simp add: c3 c2 wd_disconnect_def getConnectionState_def Let_def)
qed

theorem aborted_write_closes_new_socket_witness:
  "\<exists>c c1 c2 c3 c4. pendingWrites c = [WriteHeader] \<and>
     postReadMessageHeader (watchdog_virtuals sample_protocol) None c = Some c1 \<and>
     connect True (makeNewSocket c1) = (True, c2) \<and> sendConnectRequest sample_protocol 704643073 c2 = Some c3 \<and>
     socketIsOpen c3 \<and> write_aborted sample_protocol c3 = Some c4 \<and> \<not> socketIsOpen c4 \<and> length (messagesQueue c4) = 2"
proof -
  let ?c = "sample_watchdog\<lparr>pendingWrites := [WriteHeader], sendingInProgress := True,
      messagesQueue := [make_message PingRequest [3]]\<rparr>"
  have pre: "conn_ok ?c" "pendingWrites ?c \<noteq> []" "pendingReads ?c = [ReadHeader]" "connectionState (owner ?c) = Connected"
    by (simp_all add: sample_watchdog_def conn_ok_def new_watchdog_connection_def new_connection_def)
  let ?c1 = "wd_disconnect (?c\<lparr>pendingReads := []\<rparr>)"
  have c1: "postReadMessageHeader (watchdog_virtuals sample_protocol) None ?c = Some ?c1"
    using pre(3) by (simp add: postReadMessageHeader_def watchdog_virtuals_def Let_def)
  obtain c2 where c2: "connect True (makeNewSocket ?c1) = (True, c2)" by (simp add: connect_def makeNewSocket_def)
  have "\<exists>c3. sendConnectRequest sample_protocol 704643073 c2 = Some c3"
    using c2 by (auto simp: connect_def makeNewSocket_def sendConnectRequest_def sendMessage_def writeMessageHeader_def
        push_def Let_def wd_disconnect_def)
  then obtain c3 where c3: "sendConnectRequest sample_protocol 704643073 c2 = Some c3" ..
  have "messagesQueue ?c = [make_message PingRequest [3]]" and "pendingWrites ?c = [WriteHeader]" by simp_all
  with aborted_write_closes_new_socket [OF pre c1 c2 c3] obtain c4 where "socketIsOpen c3"
    and c4: "write_aborted sample_protocol c3 = Some c4" "\<not> socketIsOpen c4" "length (messagesQueue c4) = 2"
    by (elim conjE exE) (rule that, assumption, assumption, assumption, simp)
  with c1 c2 c3 \<open>pendingWrites ?c = [WriteHeader]\<close> show ?thesis by blast
qed

end
