(* ===== verification/Tcp_Threads.thy ===== *)
theory Tcp_Threads
  imports Tcp_Frames
begin

text \<open>
  TcpConnection::sendMessage and the completion handler of a body at the grain of the queue's
  mutex and the atomic flag sendingInProgress. The flag is read and set by two operations, not
  by one exchange, and the handler asks whether the queue is empty before it clears the flag;
  the user's thread, the watcher thread and the io_context thread all send.
\<close>

section \<open>The stages\<close>

text \<open>
  \<open>TestingFlag\<close>: pushed, before the tests of the socket and the flag. \<open>Claiming\<close>: the flag was
  seen clear. \<open>Popped\<close>: the handler has popped, before empty(). \<open>ClearingFlag\<close>: the queue was
  seen empty.
\<close>

datatype 'op tcp_stage = Resting | Enqueuing "'op framed_message" | TestingFlag | Claiming | Popped | ClearingFlag

definition tcp_next :: "'op tcp_stage \<Rightarrow> ('op, 's) tcp_connection \<Rightarrow> ('op tcp_stage \<times> ('op, 's) tcp_connection) option" where
  "tcp_next st c =
     (case st of
        Resting \<Rightarrow> Some (Resting, c)
      | Enqueuing message \<Rightarrow> Some (TestingFlag, c\<lparr>messagesQueue := snd (push message (messagesQueue c))\<rparr>)
      | TestingFlag \<Rightarrow>
          Some (if \<not> socketPresent c then Resting
                else if \<not> socketIsOpen c then Resting
                else if sendingInProgress c then Resting
                else Claiming, c)
      | Claiming \<Rightarrow> map_option (Pair Resting) (writeMessageHeader (c\<lparr>sendingInProgress := True\<rparr>))
      | Popped \<Rightarrow>
          if \<not> queue_empty (messagesQueue c) then map_option (Pair Resting) (writeMessageHeader c)
          else Some (ClearingFlag, c)
      | ClearingFlag \<Rightarrow> Some (Resting, c\<lparr>sendingInProgress := False\<rparr>))"

text \<open>The handler of a written body up to its pop.\<close>

definition body_completion_begins ::
    "('op, 's) tcp_virtuals \<Rightarrow> bool \<Rightarrow> ('op, 's) tcp_connection \<Rightarrow> ('op tcp_stage \<times> ('op, 's) tcp_connection) option" where
  "body_completion_begins v error c0 =
     (let c = c0\<lparr>pendingWrites := tl (pendingWrites c0)\<rparr>
      in if error then Some (Resting, (v_disconnect v c)\<lparr>sendingInProgress := False\<rparr>)
         else (case front (messagesQueue c) of None \<Rightarrow> None
               | Some m \<Rightarrow>
                  (case pop (messagesQueue c) of None \<Rightarrow> None
                   | Some q \<Rightarrow> Some (Popped, c\<lparr>wire := wire c @ [WireBody (msgBody m)], messagesQueue := q\<rparr>))))"

fun run_tcp_thread ::
    "nat \<Rightarrow> 'op tcp_stage \<times> ('op, 's) tcp_connection \<Rightarrow> ('op tcp_stage \<times> ('op, 's) tcp_connection) option" where
  "run_tcp_thread 0 p = Some p"
| "run_tcp_thread (Suc n) p = Option.bind (tcp_next (fst p) (snd p)) (run_tcp_thread n)"

section \<open>The threads together\<close>

text \<open>Thread 0 runs the completion handlers; a handler of a header is one step.\<close>

record ('op, 's) threaded_connection =
  conn :: "('op, 's) tcp_connection"
  tcpStages :: "'op tcp_stage list"

datatype tcp_event = Advance nat | HeaderWritten "nat option" | BodyWritten bool

definition do_tcp_event ::
    "('op, 's) tcp_virtuals \<Rightarrow> tcp_event \<Rightarrow> ('op, 's) threaded_connection \<Rightarrow> ('op, 's) threaded_connection option" where
  "do_tcp_event v ev t =
     (case ev of
        Advance k \<Rightarrow>
          if k < length (tcpStages t)
          then map_option (\<lambda>(st, c). \<lparr>conn = c, tcpStages = (tcpStages t)[k := st]\<rparr>) (tcp_next (tcpStages t ! k) (conn t))
          else None
      | HeaderWritten result \<Rightarrow>
          if 0 < length (tcpStages t) \<and> tcpStages t ! 0 = Resting \<and> pendingWrites (conn t) \<noteq> [] \<and>
             hd (pendingWrites (conn t)) = WriteHeader
          then map_option (\<lambda>c. t\<lparr>conn := c\<rparr>) (postWriteMessageHeader v result (conn t))
          else None
      | BodyWritten error \<Rightarrow>
          if 0 < length (tcpStages t) \<and> tcpStages t ! 0 = Resting \<and> pendingWrites (conn t) \<noteq> [] \<and>
             hd (pendingWrites (conn t)) = WriteBody
          then map_option (\<lambda>(st, c). \<lparr>conn = c, tcpStages = (tcpStages t)[0 := st]\<rparr>) (body_completion_begins v error (conn t))
          else None)"

fun run_tcp_events ::
    "('op, 's) tcp_virtuals \<Rightarrow> tcp_event list \<Rightarrow> ('op, 's) threaded_connection \<Rightarrow> ('op, 's) threaded_connection option" where
  "run_tcp_events v [] t = Some t"
| "run_tcp_events v (ev # evs) t = Option.bind (do_tcp_event v ev t) (run_tcp_events v evs)"

lemma tcp_next_simps:
  "tcp_next Resting c = Some (Resting, c)"
  "tcp_next (Enqueuing m) c = Some (TestingFlag, c\<lparr>messagesQueue := messagesQueue c @ [m]\<rparr>)"
  "tcp_next TestingFlag c =
     Some (if socketPresent c \<and> socketIsOpen c \<and> \<not> sendingInProgress c then Claiming else Resting, c)"
  "tcp_next Claiming c = map_option (Pair Resting) (writeMessageHeader (c\<lparr>sendingInProgress := True\<rparr>))"
  "tcp_next Popped c = (if messagesQueue c \<noteq> [] then map_option (Pair Resting) (writeMessageHeader c) else Some (ClearingFlag, c))"
  "tcp_next ClearingFlag c = Some (Resting, c\<lparr>sendingInProgress := False\<rparr>)"
  by (auto simp: tcp_next_def push_def queue_empty_def Let_def)

lemmas tcp_event_simps = do_tcp_event_def tcp_next_simps body_completion_begins_def Let_def

text \<open>Uninterrupted, the stages are the functions of the theory Tcp_Connection.\<close>

lemma tcp_threads_compose:
  "run_tcp_thread 3 (Enqueuing m, c) = map_option (Pair Resting) (sendMessage m c)"
  "Option.bind (body_completion_begins v e c) (run_tcp_thread 2) = map_option (Pair Resting) (postWriteMessageBody v e c)"
proof -
  show "run_tcp_thread 3 (Enqueuing m, c) = map_option (Pair Resting) (sendMessage m c)"
    by (cases "messagesQueue c")
      (auto simp: numeral_3_eq_3 tcp_next_simps sendMessage_def writeMessageHeader_def front_def push_def Let_def)
  show "Option.bind (body_completion_begins v e c) (run_tcp_thread 2) = map_option (Pair Resting) (postWriteMessageBody v e c)"
    by (cases "messagesQueue c"; cases "tl (messagesQueue c)")
      (auto simp: numeral_2_eq_2 tcp_next_simps body_completion_begins_def postWriteMessageBody_def writeMessageHeader_def
        front_def pop_def queue_empty_def Let_def)
qed

section \<open>Properties\<close>

text \<open>
  A message sent while the last body completes can be left unsent on a healthy connection: the
  handler finds the queue empty, the message is pushed and its sender sees the flag still set,
  and then the handler clears the flag. Afterwards nothing is being written, nothing will
  complete, the socket is open, and the message stays in the queue until some later message is
  sent; the shutdown request, after which none is sent, never leaves.
\<close>
lemma tcp_send_lost:
  assumes "tcpStages t = [Resting, Enqueuing m]" and "socketPresent (conn t)" and "socketIsOpen (conn t)"
    and "sendingInProgress (conn t)" and "messagesQueue (conn t) = [m0]" and "pendingWrites (conn t) = [WriteBody]"
  shows "\<exists>evs u. run_tcp_events v evs t = Some u \<and> tcpStages u = [Resting, Resting] \<and>
    messagesQueue (conn u) = [m] \<and> pendingWrites (conn u) = [] \<and> \<not> sendingInProgress (conn u) \<and>
    socketIsOpen (conn u) \<and> wire (conn u) = wire (conn t) @ [WireBody (msgBody m0)] \<and>
    (\<forall>evs' w. run_tcp_events v evs' u = Some w \<longrightarrow> w = u)"
proof -
  let ?c = "(conn t)\<lparr>pendingWrites := [], wire := wire (conn t) @ [WireBody (msgBody m0)], messagesQueue := [m],
      sendingInProgress := False\<rparr>"
  let ?u = "\<lparr>conn = ?c, tcpStages = [Resting, Resting]\<rparr>"
  have "run_tcp_events v [BodyWritten False, Advance 0, Advance 1, Advance 1, Advance 0] t = Some ?u"
    using assms by (simp add: tcp_event_simps front_def pop_def)
  moreover have "w = ?u" if "run_tcp_events v evs' ?u = Some w" for evs' w
    using that
  proof (induction evs')
    case (Cons ev evs')
    have "do_tcp_event v ev ?u = Some x \<Longrightarrow> x = ?u" for x
      by (cases ev) (auto simp: tcp_event_simps nth_Cons less_Suc_eq split: if_splits nat.splits)
    with Cons show ?case by (auto simp: bind_eq_Some_conv)
  qed simp
  ultimately show ?thesis using assms(3)
    by (intro exI [of _ "[BodyWritten False, Advance 0, Advance 1, Advance 1, Advance 0]"] exI [of _ ?u]) auto
qed

text \<open>The last ping's body completes while the main thread sends the shutdown request.\<close>

definition sample_last_body :: "(nat, nat framed_message list) threaded_connection" where
  "sample_last_body = \<lparr>conn = sample_connection\<lparr>messagesQueue := [sample_frame 1 7], sendingInProgress := True,
     pendingWrites := [WriteBody]\<rparr>, tcpStages = [Resting, Enqueuing (sample_frame 2 8)]\<rparr>"

lemma two_headers_no_frames:
  assumes "\<forall>x \<in> set ms. unat (bodySize (msgHead x)) = length (msgBody x)" and "bodySize h \<noteq> 0"
  shows "frames ms \<noteq> [WireHeader h, WireHeader h'] @ rest"
proof (cases ms)
  case (Cons x xs)
  with assms show ?thesis by (cases "msgBody x = []") (auto simp: frame_def unat_eq_0)
qed simp

text \<open>
  Two threads that send on an idle connection at the same time can both see the flag clear, and
  then both write the header of the first message. The wire begins with that header twice, and
  no sequence of messages whose headers carry the sizes of their bodies is framed like that: the
  other end takes the second header for the body of the first.
\<close>
lemma tcp_double_header:
  assumes "tcpStages t = [Resting, Enqueuing m, Enqueuing m']" and "socketPresent (conn t)" and "socketIsOpen (conn t)"
    and "\<not> sendingInProgress (conn t)" and "messagesQueue (conn t) = []" and "pendingWrites (conn t) = []"
    and "wire (conn t) = []" and "msgBody m \<noteq> []" and "bodySize (msgHead m) \<noteq> 0"
  shows "\<exists>evs u. run_tcp_events v evs t = Some u \<and> tcpStages u = [Resting, Resting, Resting] \<and>
    messagesQueue (conn u) = [m, m'] \<and> pendingWrites (conn u) = [WriteBody, WriteBody] \<and>
    wire (conn u) = [WireHeader (msgHead m), WireHeader (msgHead m)] \<and>
    (\<forall>ms rest. (\<forall>x \<in> set ms. unat (bodySize (msgHead x)) = length (msgBody x)) \<longrightarrow> frames ms \<noteq> wire (conn u) @ rest)"
proof -
  let ?c = "(conn t)\<lparr>messagesQueue := [m, m'], sendingInProgress := True, pendingWrites := [WriteBody, WriteBody],
      wire := [WireHeader (msgHead m), WireHeader (msgHead m)]\<rparr>"
  let ?u = "\<lparr>conn = ?c, tcpStages = [Resting, Resting, Resting]\<rparr>"
  have "run_tcp_events v [Advance 1, Advance 1, Advance 2, Advance 2, Advance 1, Advance 2,
      HeaderWritten (Some header_bytes), HeaderWritten (Some header_bytes)] t = Some ?u"
    using assms
    by (simp add: tcp_event_simps writeMessageHeader_def writeMessageBody_def postWriteMessageHeader_def front_def
        numeral_2_eq_2)
  then show ?thesis
    using two_headers_no_frames [OF _ assms(9)]
    by (intro exI [of _ "[Advance 1, Advance 1, Advance 2, Advance 2, Advance 1, Advance 2,
      HeaderWritten (Some header_bytes), HeaderWritten (Some header_bytes)]"] exI [of _ ?u]) simp
qed

end
