(* ===== verification/Server_Progress.thy ===== *)
theory Server_Progress
  imports Server_Codes
begin

text \<open>
  Which operations of the server come to an end, in the states that it can reach: all of them,
  the round of the timers thread excepted, and that one exactly when it has nothing to resend
  alone.
\<close>

section \<open>Destinations\<close>

text \<open>Whether a service has an endpoint: in the map, or in a record of the database with a readable address.\<close>

definition resolves :: "('addr, 'any, 'h, 'w) server_env \<Rightarrow> (i32 \<rightharpoonup> 'addr endpoint) \<Rightarrow> i32 \<Rightarrow> bool" where
  "resolves env endpoints i \<longleftrightarrow> endpoints i \<noteq> None \<or>
     (case getService (find_one env) i of
        Inr (Some service) \<Rightarrow> address_from_string env (srIpAddress service) \<noteq> None
      | _ \<Rightarrow> False)"

lemma findDestination_resolves:
  assumes "databaseInitialised env"
  obtains (found) d where "findDestination env i s = Done (Some d) s" and "resolves env (servicesEndpointsMap s) i"
  | (absent) "findDestination env i s = Done None s" and "\<not> resolves env (servicesEndpointsMap s) i"
  | (fails) e where "findDestination env i s = Throws e s" and "\<not> resolves env (servicesEndpointsMap s) i"
proof -
  have "(\<exists>d. findDestination env i s = Done (Some d) s) \<and> resolves env (servicesEndpointsMap s) i \<or>
      (findDestination env i s = Done None s \<or> (\<exists>e. findDestination env i s = Throws e s)) \<and>
      \<not> resolves env (servicesEndpointsMap s) i"
    using assms
    by (cases "servicesEndpointsMap s i") (auto simp: findDestination_def resolves_def split: option.split sum.split)
  with that show ?thesis by blast
qed

section \<open>The senders and the completion handlers\<close>

lemma pushAndSend_leaves: "timers_room s \<Longrightarrow> leaves (pushAndSend env d m s) \<noteq> None"
  by (rule registered_in_room [of s "resend_timer env (now s) d m"]) (simp_all add: pushAndSend_result Let_def)

lemma send_leaves:
  assumes "databaseInitialised env" and "parkedMessages s = []" and "timers_room s"
  shows "leaves (sendRequest env i any s) \<noteq> None" and "leaves (sendSubscribeRequest env i ty s) \<noteq> None"
    and "leaves (sendRequestMessage env i m s) \<noteq> None"
proof -
  have drawn: "timers_room (s\<lparr>randCalls := n\<rparr>)" for n using assms(3) by simp
  show "leaves (sendRequest env i any s) \<noteq> None"
    using assms(1)
    by (rule findDestination_resolves [of env i s])
      (use send_found(1) [OF _ assms(2)] pushAndSend_leaves [OF drawn] in \<open>auto simp: sendRequest_def\<close>)
  show "leaves (sendSubscribeRequest env i ty s) \<noteq> None"
    using assms(1)
    by (rule findDestination_resolves [of env i s])
      (use send_found(2) [OF _ assms(2)] pushAndSend_leaves [OF drawn] in \<open>auto simp: sendSubscribeRequest_def\<close>)
  show "leaves (sendRequestMessage env i m s) \<noteq> None"
    using assms(1)
    by (rule findDestination_resolves [of env i s])
      (use send_found(3) [OF _ assms(2)] pushAndSend_leaves [OF assms(3)] in \<open>auto simp: sendRequestMessage_def\<close>)
qed

lemma postSend_returns:
  assumes "messageQueue s \<noteq> []" and "timers_room s"
  shows "\<exists>s'. postSendToDestination env failed s = Done () s'"
proof (cases "failed \<or> tl (messageQueue s) = []")
  case True
  with assms(1) show ?thesis
    by (cases "messageQueue s") (auto simp: postSendToDestination_def processSendError_def pop_def queue_empty_def Let_def)
next
  case False
  with assms(1) obtain dm d m q where q: "messageQueue s = dm # (d, m) # q"
    by (cases "messageQueue s"; cases "tl (messageQueue s)") auto
  let ?s = "s\<lparr>inFlight := tl (inFlight s), messageQueue := (d, m) # q\<rparr>"
  from assms(2) have "timers_room ?s" by simp
  then obtain i c where "registerTimer (Some (resend_timer env (now ?s) d m)) (timersCache ?s) = Some (i, c)"
    using registered_in_room by metis
  with send_result [of ?s d m q env] q False show ?thesis
    by (simp add: postSendToDestination_def pop_def queue_empty_def Let_def)
qed

lemma postReceive_returns:
  assumes "\<not> timersLock (timersCache s)" and "events_ok (eventsCache s)"
  shows "\<exists>s'. postReceive env datagram s = Done () s'"
proof -
  have "\<exists>s'. handleRequest env m (s\<lparr>readingStarted := True\<rparr>) = Done () s'" for m
    using assms(2) by (simp add: handleRequest_def ec.dispatch_law)
  moreover have "\<exists>s'. handleResponse m (s\<lparr>readingStarted := True\<rparr>) = Done () s'" for m
    using handleResponse_success [of m "s\<lparr>readingStarted := True\<rparr>"] assms(1)
    by (cases "has_response m \<and> msgResponse m = Some Success") (auto simp: handleResponse_def split: option.split)
  ultimately show ?thesis
    by (auto simp: postReceive_def processHandleReceiveError_def startReading_def Let_def split: option.split)
qed

section \<open>The round of the timers thread\<close>

text \<open>The service that a resend timer sends its message to.\<close>

definition resend_service :: "(server_callback, ('addr, 'any) parked_message option) entry \<Rightarrow> i32" where
  "resend_service e = serviceIdentifier (destination (entry_parked e))"

text \<open>
  What decides whether a round ends: for each admissible kind of timers, when the callback of one
  sends a message at once, in a state where nothing is queued.
\<close>

locale round_progress =
  fixes good :: "('addr, 'any, 'h, 'w) server_env \<Rightarrow> bool"
    and admissible :: "('addr, 'any) server_timer \<Rightarrow> bool"
    and sends :: "('addr, 'any, 'h, 'w) server_env \<Rightarrow> (i32 \<rightharpoonup> 'addr endpoint) \<Rightarrow> (server_callback, ('addr, 'any) parked_message option) entry \<Rightarrow> bool"
  assumes stuck_iff: "good env \<Longrightarrow> admissible (snd e) \<Longrightarrow> parkedMessages s = [] \<Longrightarrow>
      cb_state (snd (runCallbackFunction (resend_effect env) (snd e) s)) = None \<longleftrightarrow>
        messageQueue s = [] \<and> sends env (servicesEndpointsMap s) e"
    and frame: "good env \<Longrightarrow> admissible (snd e) \<Longrightarrow> parkedMessages s = [] \<Longrightarrow>
      cb_state (snd (runCallbackFunction (resend_effect env) (snd e) s)) = Some s' \<Longrightarrow>
        (messageQueue s' = [] \<longleftrightarrow> messageQueue s = []) \<and> servicesEndpointsMap s' = servicesEndpointsMap s \<and> parkedMessages s' = []"
begin

lemma fire_all_stuck:
  assumes "good env"
  shows "\<forall>e \<in> set es. admissible (snd e) \<Longrightarrow> parkedMessages s = [] \<Longrightarrow>
    fire_all (resend_effect env) tp es s = None \<longleftrightarrow>
      messageQueue s = [] \<and> (\<exists>e \<in> set es. due tp (snd e) \<and> sends env (servicesEndpointsMap s) e)"
proof (induction es arbitrary: s)
  case (Cons e es)
  then have like: "admissible (snd e)" by simp
  obtain t r where run: "runCallbackFunction (resend_effect env) (snd e) s = (t, r)" by fastforce
  show ?case
  proof (cases "due tp (snd e)")
    case True
    show ?thesis
    proof (cases "cb_state r")
      case None
      with True run stuck_iff [OF assms like Cons.prems(2)] show ?thesis by simp
    next
      case (Some u)
      with run have ran: "cb_state (snd (runCallbackFunction (resend_effect env) (snd e) s)) = Some u" by simp
      then have "\<not> (messageQueue s = [] \<and> sends env (servicesEndpointsMap s) e)"
        using stuck_iff [OF assms like Cons.prems(2)] by (metis option.distinct(1))
      moreover have u: "(messageQueue u = [] \<longleftrightarrow> messageQueue s = []) \<and> servicesEndpointsMap u = servicesEndpointsMap s \<and> parkedMessages u = []"
        using ran by (rule frame [OF assms like Cons.prems(2)])
      moreover from Cons u have "fire_all (resend_effect env) tp es u = None \<longleftrightarrow> messageQueue u = [] \<and>
          (\<exists>e \<in> set es. due tp (snd e) \<and> sends env (servicesEndpointsMap u) e)" by simp
      moreover from True Some run have
        "fire_all (resend_effect env) tp (e # es) s = None \<longleftrightarrow> fire_all (resend_effect env) tp es u = None" by simp
      ultimately show ?thesis by (metis list.set_intros(1) list.set_intros(2) set_ConsD)
    qed
  next
    case False
    with Cons show ?thesis by auto
  qed
qed simp

lemma round_stuck:
  assumes "good env" and "server_consistent admissible s"
  shows "server_timers_round env tp restarts s = None \<longleftrightarrow> messageQueue s = [] \<and>
    (\<exists>e \<in> set (timers (timersCache s)). due tp (snd e) \<and> sends env (servicesEndpointsMap s) e)"
proof -
  have "fire_all (resend_effect env) tp (timers (timersCache s)) s = None \<longleftrightarrow> server_timers_round env tp restarts s = None"
    using server_okD(3) [OF assms(2)]
    by (auto simp: server_timers_round_def timers_round_def resend.triggerExpiredTimers_fire_all
        restartRepeatableTimers_def removeEndedTimers_def split: option.splits)
  moreover have "\<forall>e \<in> set (timers (timersCache s)). admissible (snd e)" using server_ok_entries [OF assms(2)] by blast
  ultimately show ?thesis using fire_all_stuck [OF assms(1) _ server_okD(1) [OF assms(2)]] by metis
qed

end

text \<open>The server's own timers send when the service of their message can be found.\<close>

lemma run_resend_like:
  assumes "databaseInitialised env" and "resend_like (snd e)"
  shows "cb_state (snd (runCallbackFunction (resend_effect env) (snd e) s)) = None \<longleftrightarrow>
      messageQueue s = [] \<and> resolves env (servicesEndpointsMap s) (resend_service e)"
    and "cb_state (snd (runCallbackFunction (resend_effect env) (snd e) s)) = Some s' \<Longrightarrow>
      (messageQueue s' = [] \<longleftrightarrow> messageQueue s = []) \<and> servicesEndpointsMap s' = servicesEndpointsMap s \<and>
      parkedMessages s' = parkedMessages s"
proof -
  let ?r = "snd (runCallbackFunction (resend_effect env) (snd e) s)"
  from assms(2) obtain p where p: "callbackParameters (snd e) = Some p" and "callbackFunction (snd e) = Some ResendMessage"
    by (auto simp: resend_like_def)
  then have r: "?r = resend_effect env ResendMessage (Some p) s" and "entry_parked e = p"
    by (auto simp: runCallbackFunction_def entry_parked_def Let_def split: cb_outcome.split)
  let ?s = "forget_code (transactionCode p) s"
  have parked: "parkedMessages ?s = parkedMessages s" by (simp add: forget_code_def)
  have "(cb_state ?r = None \<longleftrightarrow> messageQueue s = [] \<and> resolves env (servicesEndpointsMap s) (resend_service e)) \<and>
    (cb_state ?r = Some s' \<longrightarrow> (messageQueue s' = [] \<longleftrightarrow> messageQueue s = []) \<and>
      servicesEndpointsMap s' = servicesEndpointsMap s \<and> parkedMessages s' = parkedMessages s)"
    using assms(1)
    by (rule findDestination_resolves [of env "resend_service e" ?s])
      (auto simp: r resend_effect_def locked_resend_def cb_state_def resend_service_def \<open>entry_parked e = p\<close>
        forget_code_frame parked Let_def)
  then show "cb_state ?r = None \<longleftrightarrow> messageQueue s = [] \<and> resolves env (servicesEndpointsMap s) (resend_service e)"
    and "cb_state ?r = Some s' \<Longrightarrow> (messageQueue s' = [] \<longleftrightarrow> messageQueue s = []) \<and>
      servicesEndpointsMap s' = servicesEndpointsMap s \<and> parkedMessages s' = parkedMessages s"
    by blast+
qed

interpretation own_progress: round_progress databaseInitialised resend_like "\<lambda>env endpoints e. resolves env endpoints (resend_service e)"
  by unfold_locales (simp_all add: run_resend_like)

section \<open>Property\<close>

text \<open>
  In every reachable state of a module whose database is initialised, whose handlers are no null
  pointers and whose cache has a free timer identifier: every request returns or throws, the
  completion of a send and of a receive return, none of them waits for ever, loops for ever or
  is undefined. The one operation that may never return is the round of the timers thread, and it
  does not exactly when nothing is queued and a resend timer is due whose service can be found.
\<close>
lemma server_progress:
  assumes "server_reachable env y" and "databaseInitialised env" and "events_ok (eventsCache (srv y))"
    and "length (timers (timersCache (srv y))) < 2 ^ 32 - 1"
  shows "leaves (sendRequest env i any (srv y)) \<noteq> None \<and> leaves (sendSubscribeRequest env i ty (srv y)) \<noteq> None \<and>
    leaves (sendRequestMessage env i m (srv y)) \<noteq> None \<and>
    (inFlight (srv y) \<noteq> [] \<longrightarrow> (\<exists>s'. postSendToDestination env failed (srv y) = Done () s')) \<and>
    (\<exists>s'. postReceive env datagram (srv y) = Done () s') \<and>
    (server_timers_round env tp restarts (srv y) = None \<longleftrightarrow> messageQueue (srv y) = [] \<and>
      (\<exists>e \<in> set (timers (timersCache (srv y))). due tp (snd e) \<and> resolves env (servicesEndpointsMap (srv y)) (resend_service e)))"
proof -
  have ok: "server_ok (srv y)" using assms(1) by (rule server_reachable_ok)
  then have room: "timers_room (srv y)" and parked: "parkedMessages (srv y) = []"
    using server_okD [OF ok] assms(4) by simp_all
  have "inFlight (srv y) \<noteq> [] \<longrightarrow> messageQueue (srv y) \<noteq> []"
    using server_reachable_sending [OF assms(1)] by (auto simp: sending_inv_def traffic_ok_def split: list.splits)
  then show ?thesis
    using postSend_returns [OF _ room]
    by (intro conjI send_leaves [OF assms(2) parked room] postReceive_returns [OF server_okD(3) [OF ok] assms(3)]
        own_progress.round_stuck [OF assms(2) ok]) blast
qed

text \<open>A run that sends one request and leaves it unanswered: its timer expires five seconds later.\<close>

lemma sample_unanswered:
  obtains y e where "server_reachable sample_env y" and "messageQueue (srv y) = []" and "eventsCache (srv y) = []"
    and "servicesEndpointsMap (srv y) = [872415233 \<mapsto> (1, 7)]" and "timers (timersCache (srv y)) = [e]"
    and "resend_service e = 872415233" and "due 6000000000 (snd e)" and "now (srv y) = 0"
proof -
  let ?s = "srv sample_start" and ?d = "\<lparr>serviceIdentifier = 872415233, endpoint = (1 :: nat, 7 :: u16)\<rparr>"
  let ?m = "next_request sample_env (Some 9) ?s" and ?s1 = "?s\<lparr>randCalls := Suc (randCalls ?s)\<rparr>"
  have s: "servicesEndpointsMap ?s = [872415233 \<mapsto> (1, 7)]" "messageQueue ?s = []" "parkedMessages ?s = []"
    "timersCache ?s = empty_timers_cache" "eventsCache ?s = []" "now ?s = 0" "inFlight ?s = []" "accepted sample_start = []"
    by (simp_all add: sample_start_def started_server_def new_server_def startReading_def)
  have "timers_room ?s1" using s(4) by (simp add: cache_inv_empty) (simp add: empty_timers_cache_def)
  then obtain i c where reg: "registerTimer (Some (resend_timer sample_env 0 ?d ?m)) empty_timers_cache = Some (i, c)"
    by (rule registered_in_room [of ?s1 "resend_timer sample_env 0 ?d ?m"]) (simp add: s)
  let ?s2 = "after_send sample_env ?d ?m i c (?s1\<lparr>messageQueue := [(?d, ?m)]\<rparr>)"
  have "sendRequest sample_env 872415233 (Some 9) ?s = Done True ?s2"
    using send_found(1) [OF known_destination s(3), of 872415233 "(1, 7)" sample_env "Some 9"] reg
    by (simp add: s pushAndSend_result next_request_def)
  then have "server_step sample_env sample_start (advance sample_start ?s2)"
    by (intro server_step.request [where i = 872415233 and any = "Some 9"]) simp
  with sample_start_reachable have "server_reachable sample_env (advance sample_start ?s2)" by (rule server_reachable.step)
  moreover have "postSendToDestination sample_env False ?s2 = Done () (?s2\<lparr>inFlight := [], messageQueue := []\<rparr>)"
    by (simp add: postSendToDestination_def after_send_def pop_def queue_empty_def s Let_def)
  then have "server_step sample_env (advance sample_start ?s2) (settle (advance sample_start ?s2) (?s2\<lparr>inFlight := [], messageQueue := []\<rparr>))"
    by (intro server_step.sent) (simp_all add: advance_def after_send_def)
  ultimately have "server_reachable sample_env (settle (advance sample_start ?s2) (?s2\<lparr>inFlight := [], messageQueue := []\<rparr>))"
    by (rule server_reachable.step)
  moreover from reg have "timers c = [(5000000000, setTimerID i (resend_timer sample_env 0 ?d ?m))]"
    by (simp add: registerTimer_iff empty_timers_cache_def resend_timer_def sample_env_def op_defs seconds_def)
  moreover have "resend_service (5000000000, setTimerID i (resend_timer sample_env 0 ?d ?m)) = 872415233"
    and "due 6000000000 (setTimerID i (resend_timer sample_env 0 ?d ?m))"
    by (simp_all add: resend_service_def entry_parked_def resend_timer_def due_def op_defs sample_env_def seconds_def)
  ultimately show ?thesis
    by (intro that [of "settle (advance sample_start ?s2) (?s2\<lparr>inFlight := [], messageQueue := []\<rparr>)"
        "(5000000000, setTimerID i (resend_timer sample_env 0 ?d ?m))"])
      (simp_all add: settle_def after_send_def s del: One_nat_def)
qed

end
