(* ===== verification/Server_Bounds.thy ===== *)
theory Server_Bounds
  imports Server_Codes
begin

text \<open>
  How much the server can hold in any run: every timer of the cache was set for a datagram that
  was handed to the socket, and every open transaction code has a timer of its own.
\<close>

section \<open>A timer for a datagram\<close>

text \<open>From s to s' no more timers were added than datagrams handed over.\<close>

definition timers_paid :: "('addr, 'any, 'h, 'w) server \<Rightarrow> ('addr, 'any, 'h, 'w) server \<Rightarrow> bool" where
  "timers_paid s s' \<longleftrightarrow> length (timers (timersCache s')) + length (handedOver s) \<le> length (timers (timersCache s)) + length (handedOver s')"

lemma timers_paid_same: "timers (timersCache s') = timers (timersCache s) \<Longrightarrow> handedOver s' = handedOver s \<Longrightarrow> timers_paid s s'"
  by (simp add: timers_paid_def)

lemma after_send_paid:
  "registerTimer (Some t) (timersCache s) = Some (i, c) \<Longrightarrow> timers_paid s (after_send env d m i c s)"
  by (simp add: timers_paid_def after_send_def registerTimer_iff)

lemma pushAndSend_paid: "leaves (pushAndSend env d m s) = Some s' \<Longrightarrow> timers_paid s s'"
proof (cases "messageQueue s")
  case Nil
  assume "leaves (pushAndSend env d m s) = Some s'"
  with Nil obtain i c where "registerTimer (Some (resend_timer env (now s) d m)) (timersCache s) = Some (i, c)"
    and "s' = after_send env d m i c (s\<lparr>messageQueue := [(d, m)]\<rparr>)"
    by (auto simp: pushAndSend_result split: option.splits)
  then show ?thesis by (simp add: timers_paid_def after_send_def registerTimer_iff)
next
  case (Cons dm q)
  assume "leaves (pushAndSend env d m s) = Some s'"
  with Cons show ?thesis by (auto simp: pushAndSend_result Let_def timers_paid_def)
qed

lemma request_paid:
  "leaves (sendRequest env i any s) = Some s' \<Longrightarrow> timers_paid s s'"
  "leaves (sendSubscribeRequest env i ty s) = Some s' \<Longrightarrow> timers_paid s s'"
  "leaves (sendRequestMessage env i m s) = Some s' \<Longrightarrow> timers_paid s s'"
proof -
  have frame: "timers_paid (s\<lparr>randCalls := n\<rparr>) s' = timers_paid s s'" for n by (simp add: timers_paid_def)
  show "timers_paid s s'" if "leaves (sendRequest env i any s) = Some s'"
    using that [unfolded sendRequest_def]
    by (rule drawn_request_cases) (simp add: timers_paid_same, metis frame pushAndSend_paid)
  show "timers_paid s s'" if "leaves (sendSubscribeRequest env i ty s) = Some s'"
    using that [unfolded sendSubscribeRequest_def]
    by (rule drawn_request_cases) (simp add: timers_paid_same, metis frame pushAndSend_paid)
  show "timers_paid s s'" if "leaves (sendRequestMessage env i m s) = Some s'"
    using that by (rule sendRequestMessage_cases) (simp add: timers_paid_same, rule pushAndSend_paid)
qed

lemma postSend_paid:
  assumes "postSendToDestination env failed s = Done () s'"
  shows "timers_paid s s'"
proof (cases "failed \<or> tl (messageQueue s) = []")
  case True
  with assms show ?thesis
    by (cases "messageQueue s")
      (auto simp: postSendToDestination_def processSendError_def pop_def queue_empty_def timers_paid_def Let_def split: if_splits)
next
  case False
  then obtain dm d m q where q: "messageQueue s = dm # (d, m) # q"
    by (cases "messageQueue s"; cases "tl (messageQueue s)") auto
  let ?s = "s\<lparr>inFlight := tl (inFlight s), messageQueue := (d, m) # q\<rparr>"
  from assms False q have "send env ?s = Done () s'"
    by (simp add: postSendToDestination_def pop_def queue_empty_def Let_def)
  with send_result [of ?s d m q env] obtain i c where
    "registerTimer (Some (resend_timer env (now s) d m)) (timersCache s) = Some (i, c)" and "s' = after_send env d m i c ?s"
    by (auto split: option.splits)
  then show ?thesis by (simp add: timers_paid_def after_send_def registerTimer_iff)
qed

lemma removeTimer_length: "removeTimer i c = Some c' \<Longrightarrow> length (timers c') \<le> length (timers c)"
  by (auto simp: removeTimer_def internalRemoveTimer_def notify_one_def length_erase_first Let_def split: if_splits option.splits)

lemma postReceive_paid:
  assumes "postReceive env datagram s = Done () s'"
  shows "timers_paid s s'"
  using assms
  by (auto simp: postReceive_def processHandleReceiveError_def startReading_def handleRequest_def handleResponse_def
      timers_paid_def Let_def dest: removeTimer_length split: option.splits if_splits)

section \<open>The round of the timers thread\<close>

lemma reinsert_restarted_length: "length (reinsert_restarted nows n ts es) = length ts + length es"
  by (induction nows n ts es rule: reinsert_restarted.induct) (simp_all add: Let_def)

lemma restart_length: "restartRepeatableTimers nows c = Some c' \<Longrightarrow> length (timers c') = length (timers c)"
  using sum_length_filter_compl [of to_restart "timers c"]
  by (auto simp: restartRepeatableTimers_def reinsert_restarted_length split: if_splits)

lemma removeEnded_length: "removeEndedTimers c = Some c' \<Longrightarrow> length (timers c') \<le> length (timers c)"
  by (auto simp: removeEndedTimers_def intro: length_filter_le split: if_splits)

lemma fire_all_length: "fire_all effect tp es w = Some (es', w') \<Longrightarrow> length es' = length es"
proof (induction es arbitrary: es' w)
  case (Cons e es)
  then show ?case by (auto split: if_splits option.splits prod.splits)
qed simp

lemma round_paid:
  assumes "server_ok s" and "server_timers_round env tp restarts s = Some s'"
  shows "timers_paid s s'"
  using assms(2)
proof (rule timers_round_fire_all)
  fix es u c1 c2 c3
  assume fire: "fire_all (resend_effect env) tp (timers (timersCache s)) s = Some (es, u)"
    and c1: "c1 = (timersCache s)\<lparr>timers := es\<rparr>" and "restartRepeatableTimers restarts c1 = Some c2"
    and "removeEndedTimers c2 = Some c3" and s': "s' = u\<lparr>timersCache := c3\<rparr>"
  then have "length (timers c3) \<le> length (timers c1)"
    using restart_length [of restarts c1 c2] removeEnded_length [of c2 c3] by simp
  moreover have "only_queued s u" using fire by (rule fire_all_only_queued)
  ultimately show ?thesis
    using fire_all_length [OF fire] c1 s' by (simp add: timers_paid_def only_queued_def)
qed

lemma server_step_paid:
  "server_step env y z \<Longrightarrow> server_ok (srv y) \<Longrightarrow> timers_paid (srv y) (srv z)"
proof (induction rule: server_step.induct)
  case (request i any y s)
  then show ?case using request_paid(1) by (simp add: advance_def)
next
  case (request_message i m y s)
  then show ?case using request_paid(3) by (simp add: advance_def)
next
  case (subscribe i ty y s)
  then show ?case using request_paid(2) by (simp add: advance_def)
next
  case (sent y s)
  then show ?case using postSend_paid by (simp add: settle_def)
next
  case (send_failed y s)
  then show ?case using postSend_paid by (simp add: settle_def)
next
  case (received y datagram s)
  then show ?case using postReceive_paid by (simp add: settle_def)
next
  case (timers tp restarts y s)
  then show ?case using round_paid by (simp add: advance_def)
next
  case (time y later)
  then show ?case by (simp add: settle_def timers_paid_def)
qed

lemma server_reachable_paid: "server_reachable env y \<Longrightarrow> length (timers (timersCache (srv y))) \<le> length (handedOver (srv y))"
proof (induction rule: server_reachable.induct)
  case (start endpoints events w)
  show ?case by (simp add: started_server_def new_server_def startReading_def empty_timers_cache_def)
next
  case (step y z)
  then show ?case using server_step_paid [OF step.hyps(2) server_reachable_ok [OF step.hyps(1)]] by (simp add: timers_paid_def)
qed

section \<open>A timer for a code\<close>

lemma open_codes_card:
  assumes "codes_ok c codes" and "cache_inv c"
  shows "finite (dom codes)" and "card (dom codes) \<le> length (timers c)"
proof -
  have inj: "inj_on (\<lambda>code. the (codes code)) (dom codes)"
  proof (rule inj_onI)
    fix x y
    assume "x \<in> dom codes" and "y \<in> dom codes" and "the (codes x) = the (codes y)"
    then obtain i where "codes x = Some i" and "codes y = Some i" by auto
    with assms(1) obtain t u where "lookup_timer c i = Some t" "waits_for x t" "lookup_timer c i = Some u" "waits_for y u"
      unfolding codes_ok_def by metis
    then show "x = y" by (auto simp: waits_for_def)
  qed
  have sub: "(\<lambda>code. the (codes code)) ` dom codes \<subseteq> entry_id ` set (timers c)"
  proof
    fix i
    assume "i \<in> (\<lambda>code. the (codes code)) ` dom codes"
    then obtain code where "codes code = Some i" by auto
    with assms(1) obtain t where "lookup_timer c i = Some t" unfolding codes_ok_def by blast
    then show "i \<in> entry_id ` set (timers c)" by (metis lookup_timer_None_iff option.distinct(1) set_map)
  qed
  show "finite (dom codes)" using inj sub by (meson finite_imageD finite_imageI finite_set finite_subset)
  have "card (dom codes) \<le> card (entry_id ` set (timers c))" using inj sub by (intro card_inj_on_le) simp_all
  also have "\<dots> \<le> length (timers c)" using card_image_le [of "set (timers c)" entry_id] card_length [of "timers c"] by simp
  finally show "card (dom codes) \<le> length (timers c)" .
qed

section \<open>Property\<close>

text \<open>C10:
  In every reachable state there are no more open transaction codes than timers in the cache, no
  more timers than datagrams handed to the socket so far, and no more of those than messages
  accepted. So the cache has a free timer identifier as long as fewer than 2^32 - 1 datagrams
  have been sent, however many requests fail, repeat or stay unanswered.
\<close>
theorem server_bounded:
  assumes "server_reachable env y"
  shows "finite (dom (transactionAndTimerID (srv y))) \<and>
    card (dom (transactionAndTimerID (srv y))) \<le> length (timers (timersCache (srv y))) \<and>
    length (timers (timersCache (srv y))) \<le> length (handedOver (srv y)) \<and>
    length (handedOver (srv y)) \<le> length (accepted y)"
proof -
  have ok: "server_ok (srv y)" using assms by (rule server_reachable_ok)
  have "length (handedOver (srv y)) \<le> length (accepted y)"
    using server_reachable_sending [OF assms]
    by (cases "messageQueue (srv y)") (auto simp: sending_inv_def traffic_ok_def)
  then show ?thesis
    using open_codes_card [OF server_okD(5,2) [OF ok]] server_reachable_paid [OF assms] by simp
qed

theorem server_bounded_witness:
  "\<exists>y. server_reachable sample_env y \<and> transactionAndTimerID (srv y) 1 \<noteq> None \<and> 0 < length (timers (timersCache (srv y))) \<and>
     length (timers (timersCache (srv y))) \<le> 1 \<and> 1 \<le> length (accepted y)"
proof (rule sample_sent)
  fix y
  assume y: "server_reachable sample_env y" "handedOver (srv y) = [((1, 7), [1])]" "transactionAndTimerID (srv y) 1 \<noteq> None"
  then have "card (dom (transactionAndTimerID (srv y))) \<noteq> 0"
    using server_bounded [OF y(1)] by (auto simp: card_eq_0_iff)
  with server_bounded [OF y(1)] y show ?thesis by auto
qed

end
