(* ===== verification/Server_Replies.thy ===== *)
theory Server_Replies
  imports Server_Progress Server_Bounds
begin

text \<open>
  Handlers that send requests while they run, through Module::Manager, in the io_context thread:
  they call back into the server in the middle of handleRequest. The dispatch of the cache of
  events does not care what the handlers act on, so here they act on the server itself.
\<close>

section \<open>Handlers that call the server\<close>

definition handleRequest_replying ::
    "('addr, 'any, 'h, 'w) server_env \<Rightarrow> ('h \<Rightarrow> 'any \<Rightarrow> (i32 \<times> 'any option) list) \<Rightarrow> 'any message
      \<Rightarrow> ('addr, 'any, 'h, 'w) server \<Rightarrow> ('addr, 'any, 'h, 'w, unit) server_result" where
  "handleRequest_replying env requests_of requestMessage s =
     (case runRequestsHandlers (handler_validate env) (\<lambda>h any r. andThen r (\<lambda>_ s. send_all env (requests_of h any) s))
             (header_senderidentifier requestMessage) (request_payload (default_any env) requestMessage)
             (eventsCache s) (Done () s) of
        None \<Rightarrow> Undefined
      | Some r \<Rightarrow> r)"

text \<open>All the requests that a message makes the handlers send.\<close>

definition replies ::
    "('addr, 'any, 'h, 'w) server_env \<Rightarrow> ('h \<Rightarrow> 'any \<Rightarrow> (i32 \<times> 'any option) list) \<Rightarrow> 'any message \<Rightarrow> 'h events_cache
      \<Rightarrow> (i32 \<times> 'any option) list" where
  "replies env requests_of m events =
     (let any = request_payload (default_any env) m
      in concat (map (\<lambda>h. requests_of h any)
           (filter (\<lambda>h. handler_validate env h any) (handlers_of (header_senderidentifier m) events))))"

lemma send_all_append: "send_all env (xs @ ys) s = andThen (send_all env xs s) (\<lambda>_ s. send_all env ys s)"
proof (induction env xs s rule: send_all.induct)
  case (2 env i any requests s)
  then have "send_all env (requests @ ys) = (\<lambda>s. andThen (send_all env requests s) (\<lambda>_ s. send_all env ys s))"
    by (intro ext)
  then show ?case by (simp add: andThen_assoc)
qed simp

lemma fold_send_all:
  "fold (\<lambda>h r. andThen r (\<lambda>_ s. send_all env (f h) s)) hs r = andThen r (\<lambda>_ s. send_all env (concat (map f hs)) s)"
proof (induction hs arbitrary: r)
  case Nil
  have "andThen r (\<lambda>_. Done ()) = r" by (cases r) simp_all
  then show ?case by simp
next
  case (Cons h hs)
  then show ?case by (simp add: andThen_assoc send_all_append)
qed

lemma handleRequest_replying_all:
  "events_ok (eventsCache s) \<Longrightarrow>
    handleRequest_replying env requests_of m s = send_all env (replies env requests_of m (eventsCache s)) s"
  by (simp add: handleRequest_replying_def ec.dispatch_law fold_send_all replies_def Let_def)

section \<open>Runs\<close>

lemma request_endpoints: "leaves (sendRequest env i any s) = Some s' \<Longrightarrow> servicesEndpointsMap s' = servicesEndpointsMap s"
proof -
  have push: "leaves (pushAndSend env d m u) = Some s' \<Longrightarrow> servicesEndpointsMap s' = servicesEndpointsMap u" for d m u
    by (cases "messageQueue u") (auto simp: pushAndSend_result after_send_def Let_def split: option.splits)
  assume "leaves (sendRequest env i any s) = Some s'"
  then show ?thesis
    unfolding sendRequest_def by (rule drawn_request_cases) (auto dest: push)
qed

lemma request_timers:
  assumes "leaves (sendRequest env i any s) = Some s'"
  shows "length (timers (timersCache s')) \<le> Suc (length (timers (timersCache s)))"
proof -
  have push: "leaves (pushAndSend env d m u) = Some s' \<Longrightarrow>
      length (timers (timersCache s')) \<le> Suc (length (timers (timersCache u)))" for d m u
    by (cases "messageQueue u") (auto simp: pushAndSend_result after_send_def registerTimer_iff Let_def split: option.splits)
  from assms show ?thesis
    unfolding sendRequest_def by (rule drawn_request_cases) (auto dest: push)
qed

lemma server_steps_reachable: "server_steps env y z \<Longrightarrow> server_reachable env y \<Longrightarrow> server_reachable env z"
  by (induction rule: server_steps.induct) (auto intro: server_reachable.step)

lemma server_steps_first: "server_steps env z v \<Longrightarrow> server_step env y z \<Longrightarrow> server_steps env y v"
  by (induction rule: server_steps.induct) (auto intro: server_steps.intros)

text \<open>
  A run of the server that consists of these requests alone, one after the other, to the last of
  them or to the first that throws; with the exception it ends with.
\<close>

inductive request_run ::
    "('addr, 'any, 'h, 'w) server_env \<Rightarrow> (i32 \<times> 'any option) list \<Rightarrow> ('addr, 'any, 'h, 'w) server_system
      \<Rightarrow> server_error option \<Rightarrow> ('addr, 'any, 'h, 'w) server_system \<Rightarrow> bool" for env where
  all_sent: "request_run env [] y None y"
| answered: "sendRequest env i any (srv y) = Done b s \<Longrightarrow> request_run env requests (advance y s) thrown z \<Longrightarrow>
    request_run env ((i, any) # requests) y thrown z"
| thrown: "sendRequest env i any (srv y) = Throws e s \<Longrightarrow>
    request_run env ((i, any) # requests) y (Some e) (advance y s)"

inductive_cases request_run_NilE: "request_run env [] y thrown z"
inductive_cases request_run_ConsE: "request_run env (r # requests) y thrown z"

lemma request_run_steps: "request_run env requests y thrown z \<Longrightarrow> server_steps env y z"
proof (induction rule: request_run.induct)
  case (answered i any y b s requests thrown z)
  then show ?case by (intro server_steps_first [OF answered.IH] server_step.request [of env i any]) simp_all
next
  case (thrown i any y e s requests)
  then show ?case by (intro server_steps.next_step [OF server_steps.refl] server_step.request [of env i any]) simp_all
qed (rule server_steps.refl)

lemma send_all_run:
  "leaves (send_all env requests (srv y)) = Some s \<Longrightarrow>
    \<exists>thrown z. request_run env requests y thrown z \<and>
      send_all env requests (srv y) = (case thrown of None \<Rightarrow> Done () (srv z) | Some e \<Rightarrow> Throws e (srv z))"
proof (induction requests arbitrary: y)
  case Nil
  show ?case using request_run.all_sent [of env y] by force
next
  case (Cons r requests)
  obtain i any where r: "r = (i, any)" by fastforce
  show ?case
  proof (cases "sendRequest env i any (srv y)")
    case (Done b s1)
    with Cons.prems r Cons.IH [of "advance y s1"] obtain thrown z where "request_run env requests (advance y s1) thrown z"
      and "send_all env requests s1 = (case thrown of None \<Rightarrow> Done () (srv z) | Some e \<Rightarrow> Throws e (srv z))"
      by (auto simp: advance_def)
    with Done r request_run.answered [OF Done] show ?thesis by (intro exI [of _ thrown] exI [of _ z]) simp
  next
    case (Throws e s1)
    with r request_run.thrown [OF Throws] show ?thesis
      by (intro exI [of _ "Some e"] exI [of _ "advance y s1"]) (simp add: advance_def)
  qed (use Cons.prems r in simp_all)
qed

lemma send_all_steps:
  "leaves (send_all env requests (srv y)) = Some s \<Longrightarrow> \<exists>z. server_steps env y z \<and> srv z = s"
  using send_all_run request_run_steps by (fastforce split: option.splits)

context timer_kinds
begin

lemma send_all_leaves:
  assumes "databaseInitialised env"
  shows "server_consistent admissible s \<Longrightarrow> length (timers (timersCache s)) + length requests < 2 ^ 32 \<Longrightarrow> leaves (send_all env requests s) \<noteq> None"
proof (induction requests arbitrary: s)
  case (Cons r requests)
  obtain i any where r: "r = (i, any)" by fastforce
  from Cons.prems have "timers_room s" using server_okD [OF Cons.prems(1)] by simp
  from send_leaves(1) [OF assms server_okD(1) [OF Cons.prems(1)] this] obtain s1 where
    s1: "leaves (sendRequest env i any s) = Some s1" by blast
  have "leaves (send_all env requests s1) \<noteq> None"
    using Cons.IH [OF request_kept(1) [OF Cons.prems(1) s1]] request_timers [OF s1] Cons.prems(2) by simp
  with s1 r show ?case by (cases "sendRequest env i any s") simp_all
qed simp

end

section \<open>Property\<close>

text \<open>C22:
  In every reachable state, a request whose handlers send requests of their own is handled to the
  end, by return or by exception, as long as the cache has room for their timers: nothing in the
  server waits for itself. The run it makes consists of the requests of the accepting handlers of
  the sender and of no other step: in the order of the handlers and of the calls of each, all of
  them when none throws, else up to the first that throws, whose exception leaves handleRequest.
  So whatever holds in every reachable state holds with such handlers too.
\<close>
theorem replying_handlers:
  assumes "server_reachable env y" and "databaseInitialised env" and "events_ok (eventsCache (srv y))"
    and "length (timers (timersCache (srv y))) + length (replies env requests_of m (eventsCache (srv y))) < 2 ^ 32"
  shows "\<exists>thrown z. request_run env (replies env requests_of m (eventsCache (srv y))) y thrown z \<and>
    handleRequest_replying env requests_of m (srv y) =
      (case thrown of None \<Rightarrow> Done () (srv z) | Some e \<Rightarrow> Throws e (srv z)) \<and>
    server_steps env y z \<and> server_reachable env z"
proof -
  have all: "handleRequest_replying env requests_of m (srv y) = send_all env (replies env requests_of m (eventsCache (srv y))) (srv y)"
    using assms(3) by (rule handleRequest_replying_all)
  obtain s where s: "leaves (send_all env (replies env requests_of m (eventsCache (srv y))) (srv y)) = Some s"
    using own.send_all_leaves [OF assms(2) server_reachable_ok [OF assms(1)] assms(4)] by blast
  from send_all_run [OF s] all request_run_steps server_steps_reachable [OF _ assms(1)] show ?thesis by fastforce
qed

text \<open>
  The sample server with a handler of module 704643074 that answers with a request to the first
  service: its datagram has left when the request has been handled.
\<close>

definition sample_replying :: "(nat, nat, unit, nat) server_system" where
  "sample_replying = \<lparr>srv = started_server sample_env [872415233 \<mapsto> (1, 7)]
     [(704643074, Some (MessageReceiveEvent (Some ())))] 0, accepted = []\<rparr>"

theorem replying_handlers_witness:
  "\<exists>z. handleRequest_replying sample_env (\<lambda>h any. [(872415233, Some any)])
       (makeRequestMessage 704643074 (Some 9) 1) (srv sample_replying) = Done () (srv z) \<and>
     handedOver (srv sample_replying) = [] \<and> handedOver (srv z) = [((1, 7), [1])] \<and>
     server_steps sample_env sample_replying z \<and> server_reachable sample_env z"
proof -
  let ?events = "[(704643074, Some (MessageReceiveEvent (Some ())))] :: unit events_cache"
  let ?s = "srv sample_replying" and ?d = "\<lparr>serviceIdentifier = 872415233, endpoint = (1 :: nat, 7 :: u16)\<rparr>"
  have s: "eventsCache ?s = ?events" "timers (timersCache ?s) = []" "messageQueue ?s = []" "parkedMessages ?s = []"
    "randCalls ?s = 0" "handedOver ?s = []" "servicesEndpointsMap ?s 872415233 = Some (1, 7)"
    "timersCache ?s = empty_timers_cache"
    by (simp_all add: sample_replying_def started_server_def new_server_def startReading_def empty_timers_cache_def)
  have ok: "events_ok ?events" by (simp add: events_ok_def)
  have replies: "replies sample_env (\<lambda>h any. [(872415233, Some any)]) (makeRequestMessage 704643074 (Some 9) 1) ?events =
      [(872415233, Some 9)]"
    by (simp add: replies_def handlers_of_def message_defs) (simp add: sample_env_def)
  have "server_reachable sample_env sample_replying" unfolding sample_replying_def by (rule server_reachable.start)
  with replying_handlers [of sample_env sample_replying "\<lambda>h any. [(872415233, Some any)]" "makeRequestMessage 704643074 (Some 9) 1"]
    ok s replies
  obtain thrown z where run: "request_run sample_env [(872415233, Some 9)] sample_replying thrown z"
    and handled: "handleRequest_replying sample_env (\<lambda>h any. [(872415233, Some any)])
       (makeRequestMessage 704643074 (Some 9) 1) ?s = (case thrown of None \<Rightarrow> Done () (srv z) | Some e \<Rightarrow> Throws e (srv z))"
    and reach: "server_steps sample_env sample_replying z" "server_reachable sample_env z"
    by (auto simp: sample_env_def)
  have room: "timers_room ?s" using s(8) by (simp add: cache_inv_empty) (simp add: empty_timers_cache_def)
  obtain s1 where "sendRequest sample_env 872415233 (Some 9) ?s = Done True s1"
    and "handedOver s1 = handedOver ?s @ [(endpoint ?d, serialize sample_env (next_request sample_env (Some 9) ?s))]"
    using sendRequest_alone [OF known_destination [OF s(7)] s(3,4) room, of sample_env "Some 9"] by metis
  moreover have "serialize sample_env (next_request sample_env (Some 9) ?s) = [1]"
    using s(5) by (simp add: sample_env_def next_request_def drawn_code_def)
  ultimately have "thrown = None" and "handedOver (srv z) = [((1, 7), [1])]"
    using run s(6) by (auto elim!: request_run_ConsE request_run_NilE simp: advance_def)
  with handled reach s(6) show ?thesis by (intro exI [of _ z]) simp
qed

end
