(* ===== verification/Watchdog_Heartbeat.thy ===== *)
theory Watchdog_Heartbeat
  imports Watchdog_Connection
begin

text \<open>
  The heartbeat of a connected module, end to end over the connection: the timer sends a ping,
  the ping is written, the response is read, and its handler sets the timer again.
\<close>

section \<open>One beat\<close>

text \<open>Connected, nothing being written, a read of a header pending.\<close>

definition heartbeat_ready :: "watchdog_connection \<Rightarrow> bool" where
  "heartbeat_ready c \<longleftrightarrow> socketPresent c \<and> socketIsOpen c \<and> \<not> sendingInProgress c \<and> messagesQueue c = [] \<and>
     pendingWrites c = [] \<and> pendingReads c = [ReadHeader] \<and> incomingMessage c \<noteq> None \<and>
     connectionState (owner c) = Connected"

definition ping_of :: "watchdog_protocol \<Rightarrow> watchdog_connection \<Rightarrow> watchdog_message" where
  "ping_of P c = make_message PingRequest (serialize_ping_request P (sequenceCode (owner c)))"

text \<open>The completion handlers in the order in which they run; the watchdog's answer is \<open>h\<close> and \<open>body\<close>.\<close>

definition beat ::
    "watchdog_protocol \<Rightarrow> operation \<Rightarrow> operation message_header \<Rightarrow> octets \<Rightarrow> watchdog_connection \<Rightarrow> watchdog_connection option" where
  "beat P op0 h body c =
     Option.bind (timerExpired (watchdog_virtuals P) c) (\<lambda>c.
     Option.bind (postWriteMessageHeader (watchdog_virtuals P) (Some header_bytes) c) (\<lambda>c.
     Option.bind (postWriteMessageBody (watchdog_virtuals P) False c) (\<lambda>c.
     Option.bind (postReadMessageHeader (watchdog_virtuals P) (Some (header_bytes, h)) c)
       (postReadMessageBody (watchdog_virtuals P) True op0 (Some body)))))"

fun beats ::
    "watchdog_protocol \<Rightarrow> operation \<Rightarrow> nat \<Rightarrow> operation message_header \<Rightarrow> octets \<Rightarrow> watchdog_connection \<Rightarrow> watchdog_connection option" where
  "beats P op0 0 h body c = Some c"
| "beats P op0 (Suc n) h body c = Option.bind (beat P op0 h body c) (beats P op0 n h body)"

lemma beat_written:
  assumes "heartbeat_ready c" and "serialize_ping_request P (sequenceCode (owner c)) \<noteq> []"
  shows "Option.bind (timerExpired (watchdog_virtuals P) c) (\<lambda>c.
     Option.bind (postWriteMessageHeader (watchdog_virtuals P) (Some header_bytes) c)
       (postWriteMessageBody (watchdog_virtuals P) False)) =
     Some (c\<lparr>timerWaits := timerWaits c - 1, wire := wire c @ frame (ping_of P c)\<rparr>)"
  using assms
  by (simp add: heartbeat_ready_def timerExpired_def watchdog_virtuals_def wd_onTimerExpiration_def sendPing_def
      sendMessage_def push_def writeMessageHeader_def postWriteMessageHeader_def writeMessageBody_def
      postWriteMessageBody_def front_def pop_def queue_empty_def frame_def ping_of_def make_message_def Let_def)

lemma beat_read:
  assumes "heartbeat_ready c" and "operationCode h = PingResponse" and "bodySize h \<noteq> 0"
  shows "Option.bind (postReadMessageHeader (watchdog_virtuals P) (Some (header_bytes, h)) c)
      (postReadMessageBody (watchdog_virtuals P) True op0 (Some body)) =
    Some (c\<lparr>incomingMessage := Some \<lparr>msgHead = \<lparr>operationCode = op0, bodySize = 0\<rparr>, msgBody = []\<rparr>,
      timerWaits := timerWaits c + (if parse_ping_response P body = sequenceCode (owner c) then 1 else 0)\<rparr>)"
  using assms
  by (auto simp: heartbeat_ready_def postReadMessageHeader_def readMessageBody_def postReadMessageBody_def
      watchdog_virtuals_def wd_handleReceivedMessage_def getResponseHandler_def ping_handleResponse_def
      setTimerExpiration_def startReadingSequence_def readMessageHeader_def Let_def)

lemma beat_result:
  assumes "heartbeat_ready c" and "serialize_ping_request P (sequenceCode (owner c)) \<noteq> []"
    and "operationCode h = PingResponse" and "bodySize h \<noteq> 0"
  shows "\<exists>c'. beat P op0 h body c = Some c' \<and> heartbeat_ready c' \<and> owner c' = owner c \<and>
    wire c' = wire c @ frame (ping_of P c) \<and>
    timerWaits c' = timerWaits c - 1 + (if parse_ping_response P body = sequenceCode (owner c) then 1 else 0)"
proof -
  let ?c = "c\<lparr>timerWaits := timerWaits c - 1, wire := wire c @ frame (ping_of P c)\<rparr>"
  have "heartbeat_ready ?c" using assms(1) by (simp add: heartbeat_ready_def)
  moreover have "beat P op0 h body c =
      Option.bind (Option.bind (timerExpired (watchdog_virtuals P) c) (\<lambda>c.
        Option.bind (postWriteMessageHeader (watchdog_virtuals P) (Some header_bytes) c)
          (postWriteMessageBody (watchdog_virtuals P) False)))
        (\<lambda>c. Option.bind (postReadMessageHeader (watchdog_virtuals P) (Some (header_bytes, h)) c)
          (postReadMessageBody (watchdog_virtuals P) True op0 (Some body)))"
    by (simp add: beat_def bind_assoc)
  ultimately show ?thesis
    using beat_written [OF assms(1,2)] beat_read [OF _ assms(3,4), of ?c P op0 body]
    by (simp add: heartbeat_ready_def)
qed

section \<open>Property\<close>

text \<open>
  While the watchdog answers every ping with the sequence code of the connection, the heartbeat
  goes on for any number of beats: each puts exactly one ping frame on the wire and leaves as
  many timers waiting as there were, the module connected and the next read pending. One answer
  with another code ends a heartbeat and leaves no other trace: one timer fewer waits and the
  module still counts as connected; when it was the only one no ping is ever due again.
\<close>
lemma heartbeat_sustained:
  assumes "heartbeat_ready c" and "0 < timerWaits c" and "serialize_ping_request P (sequenceCode (owner c)) \<noteq> []"
    and "operationCode h = PingResponse" and "bodySize h \<noteq> 0"
  shows "if parse_ping_response P body = sequenceCode (owner c)
    then \<exists>c'. beats P op0 n h body c = Some c' \<and> heartbeat_ready c' \<and> owner c' = owner c \<and>
      timerWaits c' = timerWaits c \<and> wire c' = wire c @ frames (replicate n (ping_of P c))
    else \<exists>c'. beat P op0 h body c = Some c' \<and> heartbeat_ready c' \<and> owner c' = owner c \<and>
      Suc (timerWaits c') = timerWaits c \<and> wire c' = wire c @ frame (ping_of P c)"
proof (cases "parse_ping_response P body = sequenceCode (owner c)")
  case True
  have "\<exists>c'. beats P op0 n h body c = Some c' \<and> heartbeat_ready c' \<and> owner c' = owner c \<and>
      timerWaits c' = timerWaits c \<and> wire c' = wire c @ frames (replicate n (ping_of P c))"
    using assms True
  proof (induction n arbitrary: c)
    case (Suc n)
    from beat_result [OF Suc.prems(1,3,4,5), of op0 body] Suc.prems(2,6) obtain c1 where
      c1: "beat P op0 h body c = Some c1" "heartbeat_ready c1" "owner c1 = owner c"
        "wire c1 = wire c @ frame (ping_of P c)" "timerWaits c1 = timerWaits c" by auto
    then have "ping_of P c1 = ping_of P c" by (simp add: ping_of_def)
    with Suc.IH [of c1] Suc.prems c1 show ?case by simp
  qed simp
  with True show ?thesis by simp
next
  case False
  with beat_result [OF assms(1,3,4,5), of op0 body] assms(2) show ?thesis by auto
qed

end
