(* ===== verification/Shutdown.thy ===== *)
theory Shutdown
  imports Startup
begin

text \<open>
  The shutdown request of moduleShutdownHandler: how far its write gets before the io_context is
  stopped depends on how many completion handlers of writes still run, in poll on the main thread
  or in run on the io_context thread, which goes on until stop.
\<close>

section \<open>How far a number of completions carries the writer\<close>

text \<open>The completions that the first queued message still needs, header and body.\<close>

definition completions_left :: "('op, 's) tcp_connection \<Rightarrow> nat" where
  "completions_left c = 2 * length (messagesQueue c) - (if pendingWrites c = [WriteBody] then 1 else 0)"

lemma writer_progress:
  assumes "writer_open c" and "writer_works written c" and "bodies_ok (messagesQueue c)"
  shows "\<exists>c' n. run_writer v (replicate k WriteCompleted) c = Some c' \<and> writer_open c' \<and>
    messagesQueue c' = drop n (messagesQueue c) \<and> completions_left c' = completions_left c - k \<and>
    (if completions_left c \<le> k then n = length (messagesQueue c) \<and> writer_rests (written @ messagesQueue c) c'
     else n < length (messagesQueue c) \<and> writer_works (written @ take n (messagesQueue c)) c')"
  using assms
proof (induction k arbitrary: c written)
  case 0
  then have "0 < completions_left c" by (cases "messagesQueue c") (auto simp: completions_left_def writer_works_def)
  with 0 show ?case by (intro exI [of _ c] exI [of _ 0]) (simp add: writer_works_def)
next
  case (Suc k)
  obtain m q where q: "messagesQueue c = m # q" using Suc.prems(2) by (auto simp: writer_works_def neq_Nil_conv)
  with Suc.prems(3) have body: "msgBody m \<noteq> []" and ok: "bodies_ok q" by (simp_all add: bodies_ok_def)
  obtain c1 where c1: "do_writer v WriteCompleted c = Some c1" "writer_open c1" and
    step: "if pendingWrites c = [WriteHeader]
      then messagesQueue c1 = m # q \<and> writer_works written c1 \<and> pendingWrites c1 = [WriteBody]
      else messagesQueue c1 = q \<and> (if q = [] then writer_rests (written @ [m]) c1
        else writer_works (written @ [m]) c1 \<and> pendingWrites c1 = [WriteHeader])"
    using WriteCompleted_works [OF Suc.prems(1,2) q body, of v] by blast
  have run: "run_writer v (replicate (Suc k) WriteCompleted) c = run_writer v (replicate k WriteCompleted) c1"
    using c1(1) by (simp del: do_writer.simps)
  consider (header) "pendingWrites c = [WriteHeader]"
    | (last) "pendingWrites c = [WriteBody]" "q = []" | (more) "pendingWrites c = [WriteBody]" "q \<noteq> []"
    using Suc.prems(2) by (auto simp: writer_works_def)
  then show ?case
  proof cases
    case header
    then have "completions_left c = Suc (completions_left c1)" using step q by (simp add: completions_left_def)
    moreover have same: "messagesQueue c1 = messagesQueue c" and works: "writer_works written c1" using header step q by simp_all
    moreover obtain c' n where "run_writer v (replicate k WriteCompleted) c1 = Some c'" "writer_open c'"
      "messagesQueue c' = drop n (messagesQueue c1)" "completions_left c' = completions_left c1 - k"
      "if completions_left c1 \<le> k then n = length (messagesQueue c1) \<and> writer_rests (written @ messagesQueue c1) c'
       else n < length (messagesQueue c1) \<and> writer_works (written @ take n (messagesQueue c1)) c'"
      using Suc.IH [OF c1(2) works] Suc.prems(3) same by auto
    ultimately show ?thesis using run by (intro exI [of _ c'] exI [of _ n]) (simp split: if_splits)
  next
    case last
    then have rests: "writer_rests (written @ [m]) c1" and "messagesQueue c1 = []" using step by simp_all
    moreover have "run_writer v (replicate k WriteCompleted) c1 = Some c1"
      using rests by (induction k) (simp_all add: WriteCompleted_rests del: do_writer.simps)
    ultimately show ?thesis
      using last c1(2) q run by (intro exI [of _ c1] exI [of _ 1]) (simp add: completions_left_def writer_rests_def)
  next
    case more
    then have works: "writer_works (written @ [m]) c1" and queue: "messagesQueue c1 = q" and "pendingWrites c1 = [WriteHeader]"
      using step by simp_all
    then have left: "completions_left c = Suc (completions_left c1)"
      using more q by (cases q) (simp_all add: completions_left_def)
    obtain c' n where "run_writer v (replicate k WriteCompleted) c1 = Some c'" "writer_open c'" "messagesQueue c' = drop n q"
      "completions_left c' = completions_left c1 - k"
      "if completions_left c1 \<le> k then n = length q \<and> writer_rests ((written @ [m]) @ q) c'
       else n < length q \<and> writer_works ((written @ [m]) @ take n q) c'"
      using Suc.IH [OF c1(2) works] ok queue by (auto simp del: append.append_Cons append_assoc)
    then show ?thesis using q run left by (intro exI [of _ c'] exI [of _ "Suc n"]) (simp split: if_splits)
  qed
qed

text \<open>
  What happens to the connection between the send and the stop when k completion handlers of its
  writes run in that time, on whichever of the two threads, and nothing else happens to it.
\<close>

definition completions_before_stop :: "watchdog_protocol \<Rightarrow> nat \<Rightarrow> watchdog_connection \<Rightarrow> watchdog_connection" where
  "completions_before_stop P k c =
     (case run_writer (watchdog_virtuals P) (replicate k WriteCompleted) c of None \<Rightarrow> c | Some c' \<Rightarrow> c')"

definition shutdown_request :: "watchdog_protocol \<Rightarrow> i32 \<Rightarrow> watchdog_message" where
  "shutdown_request P i = make_message ShutdownRequest (serialize_shutdown_request P i)"

text \<open>
  All of the last message has been handed to the socket: its body write is pending, or has
  completed and the message has left the queue.
\<close>

definition last_handed_over :: "watchdog_message \<Rightarrow> watchdog_connection \<Rightarrow> bool" where
  "last_handed_over m c \<longleftrightarrow> messagesQueue c = [] \<or> messagesQueue c = [m] \<and> pendingWrites c = [WriteBody]"

lemma length_frames: "bodies_ok ms \<Longrightarrow> length (frames ms) = 2 * length ms"
  by (induction ms) (auto simp: bodies_ok_def frame_def)

text \<open>The writer when the completions have run that were to run, by how many the last message is short of.\<close>

lemma writer_ends:
  assumes "writer_open c" and "writer_works written c" and ok: "bodies_ok (messagesQueue c)" and m: "last (messagesQueue c) = m"
  obtains c' where "run_writer v (replicate k WriteCompleted) c = Some c'"
    and "if completions_left c \<le> k then messagesQueue c' = [] \<and> pendingWrites c' = [] \<and> wire c' = frames (written @ messagesQueue c)
      else messagesQueue c' \<noteq> [] \<and> last (messagesQueue c') = m \<and> wire c' \<noteq> frames (written @ messagesQueue c) \<and>
        (if completions_left c = Suc k
         then messagesQueue c' = [m] \<and> pendingWrites c' = [WriteBody] \<and>
           wire c' = frames (written @ butlast (messagesQueue c)) @ [WireHeader (msgHead m)]
         else 1 < length (messagesQueue c') \<or> pendingWrites c' = [WriteHeader])"
proof -
  let ?q = "messagesQueue c"
  obtain c' n where run: "run_writer v (replicate k WriteCompleted) c = Some c'" and queue: "messagesQueue c' = drop n ?q"
    and left: "completions_left c' = completions_left c - k"
    and ends: "if completions_left c \<le> k then n = length ?q \<and> writer_rests (written @ ?q) c'
     else n < length ?q \<and> writer_works (written @ take n ?q) c'"
    using writer_progress [OF assms(1-3)] by blast
  show ?thesis
  proof (cases "completions_left c \<le> k")
    case True
    with ends queue run show ?thesis by (intro that [of c']) (simp_all add: writer_rests_def)
  next
    case False
    with ends have n: "n < length ?q" and works: "writer_works (written @ take n ?q) c'" by simp_all
    have ne: "messagesQueue c' \<noteq> []" and last: "last (messagesQueue c') = m" using n queue m by (simp_all add: last_drop)
    from ok have "bodies_ok (take n ?q)" by (auto simp: bodies_ok_def dest: in_set_takeD)
    then have "length (wire c') \<le> length (frames written) + 2 * n + 1"
      using works n by (auto simp: writer_works_def length_frames)
    moreover have "length (frames (written @ ?q)) = length (frames written) + 2 * length ?q" using ok by (simp add: length_frames)
    ultimately have short: "wire c' \<noteq> frames (written @ ?q)" using n by auto
    have body: "messagesQueue c' = [m] \<and> pendingWrites c' = [WriteBody] \<and>
        wire c' = frames (written @ butlast ?q) @ [WireHeader (msgHead m)]" if "completions_left c = Suc k"
    proof -
      from that left have "completions_left c' = 1" by simp
      with ne have one: "length (messagesQueue c') = 1" and pending: "pendingWrites c' = [WriteBody]"
        by (cases "messagesQueue c'"; auto simp: completions_left_def split: if_splits)+
      from one last have single: "messagesQueue c' = [m]" by (cases "messagesQueue c'") simp_all
      from one queue n have "n = length ?q - 1" by simp
      then have "take n ?q = butlast ?q" by (simp add: butlast_conv_take)
      with works single pending show ?thesis by (auto simp: writer_works_def)
    qed
    have "1 < length (messagesQueue c') \<or> pendingWrites c' = [WriteHeader]" if "completions_left c \<noteq> Suc k"
    proof -
      from that False left have "1 < completions_left c'" by simp
      with works show ?thesis by (cases "messagesQueue c'") (auto simp: completions_left_def writer_works_def split: if_splits)
    qed
    with False ne last short body run show ?thesis by (intro that [of c']) simp_all
  qed
qed

section \<open>Property\<close>

text \<open>C27:
  At the end of the user's program, over an open connection: the shutdown request goes behind the
  messages that still wait. Two completion handlers have to run for each of those messages and for
  the request before the whole request is on the wire, and all but the last of these before its
  body is handed to the socket. So when k handlers run, in poll or on the io_context thread, until
  the io_context is stopped: the request is completely written if and only if k is at least that
  number; its body is handed to the socket if and only if k is at least that number less one; with
  exactly one less its header is on the wire and its body write is pending, of which the module
  does not learn whether it leaves; with fewer its body has not been handed to the socket, and with
  the io_context stopped no handler will. In every case the module is marked stopped and the state
  is Shutdown.
\<close>
theorem shutdown_request_sent:
  assumes "writer_open (watchdogConnection b)" and "writer_healthy written (watchdogConnection b)"
    and "bodies_ok (messagesQueue (watchdogConnection b) @ [shutdown_request (protocol E) (moduleIdentifierGlobal b)])"
    and "poll E = completions_before_stop (protocol E) k"
  shows "\<exists>b'. moduleShutdownHandler E b = Done () b' \<and> \<not> runningGlobal b' \<and> ioContextStopped b' \<and>
    getConnectionState (owner (watchdogConnection b')) = Shutdown \<and>
    (let c = watchdogConnection b; c' = watchdogConnection b';
         m = shutdown_request (protocol E) (moduleIdentifierGlobal b); needed = completions_left c + 2
     in (wire c' = frames (written @ messagesQueue c @ [m]) \<longleftrightarrow> needed \<le> k) \<and>
        (last_handed_over m c' \<longleftrightarrow> needed \<le> Suc k) \<and>
        (if needed \<le> k then messagesQueue c' = [] \<and> pendingWrites c' = []
         else if needed = Suc k then messagesQueue c' = [m] \<and> pendingWrites c' = [WriteBody] \<and>
           wire c' = frames (written @ messagesQueue c) @ [WireHeader (msgHead m)]
         else messagesQueue c' \<noteq> [] \<and> last (messagesQueue c') = m \<and>
           (1 < length (messagesQueue c') \<or> pendingWrites c' = [WriteHeader])))"
proof -
  let ?c = "watchdogConnection b" and ?m = "shutdown_request (protocol E) (moduleIdentifierGlobal b)"
  obtain c1 where send: "sendMessage ?m ?c = Some c1" and c1: "writer_open c1" "messagesQueue c1 = messagesQueue ?c @ [?m]"
    "writer_works written c1"
    using sendMessage_works [OF assms(1), of written ?m] assms(2) by (auto simp: writer_healthy_def)
  from send have left: "completions_left c1 = completions_left ?c + 2"
    using assms(2) c1(2)
    by (auto simp: completions_left_def sendMessage_def writeMessageHeader_def writer_healthy_def writer_rests_def
        writer_works_def Let_def split: if_splits option.splits)
  have ok: "bodies_ok (messagesQueue c1)" and last: "last (messagesQueue c1) = ?m" using assms(3) c1(2) by simp_all
  from writer_ends [OF c1(1,3) ok last, of "watchdog_virtuals (protocol E)" k] obtain c2 where
    run: "run_writer (watchdog_virtuals (protocol E)) (replicate k WriteCompleted) c1 = Some c2"
    and ends: "if completions_left ?c + 2 \<le> k
      then messagesQueue c2 = [] \<and> pendingWrites c2 = [] \<and> wire c2 = frames (written @ messagesQueue ?c @ [?m])
      else messagesQueue c2 \<noteq> [] \<and> List.last (messagesQueue c2) = ?m \<and> wire c2 \<noteq> frames (written @ messagesQueue ?c @ [?m]) \<and>
        (if completions_left ?c + 2 = Suc k
         then messagesQueue c2 = [?m] \<and> pendingWrites c2 = [WriteBody] \<and>
           wire c2 = frames (written @ messagesQueue ?c) @ [WireHeader (msgHead ?m)]
         else 1 < length (messagesQueue c2) \<or> pendingWrites c2 = [WriteHeader])"
    unfolding left c1(2) butlast_snoc by blast
  let ?b = "shut_down (b\<lparr>runningGlobal := False, watchdogConnection := c2, ioContextStopped := True\<rparr>)"
  have "moduleShutdownHandler E b = Done () ?b"
    using send run assms(4)
    by (simp add: moduleShutdownHandler_def sendShutdownRequest_def shutdown_request_def completions_before_stop_def Let_def)
  moreover have "\<not> runningGlobal ?b \<and> ioContextStopped ?b"
    and "getConnectionState (owner (watchdogConnection ?b)) = Shutdown"
    by (simp_all add: shut_down_def setConnectionStateAndNotifyAll_def setConnectionState_def getConnectionState_def Let_def)
  moreover have "wire (watchdogConnection ?b) = wire c2" and "pendingWrites (watchdogConnection ?b) = pendingWrites c2"
    and "messagesQueue (watchdogConnection ?b) = messagesQueue c2"
    by (simp_all add: shut_down_def setConnectionStateAndNotifyAll_def setConnectionState_def Let_def)
  ultimately show ?thesis
    using ends by (intro exI [of _ ?b]) (auto simp: last_handed_over_def Let_def)
qed

text \<open>
  Connected and idle: with two completions the request is written, with one its body write is
  pending, with none only its header write is.
\<close>

definition sample_shutdown :: "nat \<Rightarrow> (nat, nat, unit, nat, string, unit) startup_env" where
  "sample_shutdown k = sample_startup\<lparr>protocol := sample_protocol, poll := completions_before_stop sample_protocol k\<rparr>"

definition sample_running :: "(nat, nat, unit, nat) module_base" where
  "sample_running = (new_module_base True True 704643073 None 7 0)\<lparr>watchdogConnection := sample_watchdog\<rparr>"

theorem shutdown_request_sent_witness:
  "(\<exists>b'. moduleShutdownHandler (sample_shutdown 2) sample_running = Done () b' \<and>
      wire (watchdogConnection b') = frames [make_message ShutdownRequest [1]]) \<and>
   (\<exists>b'. moduleShutdownHandler (sample_shutdown 1) sample_running = Done () b' \<and>
      messagesQueue (watchdogConnection b') = [make_message ShutdownRequest [1]] \<and>
      pendingWrites (watchdogConnection b') = [WriteBody]) \<and>
   (\<exists>b'. moduleShutdownHandler (sample_shutdown 0) sample_running = Done () b' \<and>
      \<not> last_handed_over (make_message ShutdownRequest [1]) (watchdogConnection b'))"
proof -
  have c: "watchdogConnection sample_running = sample_watchdog" "moduleIdentifierGlobal sample_running = 704643073"
    by (simp_all add: sample_running_def new_module_base_simps)
  have w: "writer_open sample_watchdog" "writer_healthy [] sample_watchdog" "messagesQueue sample_watchdog = []"
    "completions_left sample_watchdog = 0"
    by (simp_all add: sample_watchdog_def new_watchdog_connection_def new_connection_def writer_open_def writer_healthy_def
        writer_rests_def completions_left_def)
  have P: "protocol (sample_shutdown k) = sample_protocol" "poll (sample_shutdown k) = completions_before_stop (protocol (sample_shutdown k)) k" for k
    by (simp_all add: sample_shutdown_def)
  have m: "shutdown_request sample_protocol 704643073 = make_message ShutdownRequest [1]"
    by code_simp
  have "bodies_ok [make_message ShutdownRequest [1]]" by (simp add: bodies_ok_def make_message_def)
  then show ?thesis
    using shutdown_request_sent [of sample_running "[]" "sample_shutdown 2" 2] shutdown_request_sent [of sample_running "[]" "sample_shutdown 1" 1]
      shutdown_request_sent [of sample_running "[]" "sample_shutdown 0" 0]
    by (auto simp: c w P m Let_def)
qed

end
