(* ===== verification/Events_Registering.thy ===== *)
theory Events_Registering
  imports Events
begin

text \<open>
  runRequestsHandlers with handlers that register further handlers while they run. The loop goes
  from the first to the second iterator of equal_range, which name nodes of the multimap: an
  insertion leaves them valid, so what it puts between the current node and the node after the
  range is visited too.
\<close>

section \<open>The loop over nodes\<close>

text \<open>The place where the multimap puts a new entry: after the entries whose key is not greater.\<close>

definition mm_position :: "'k::linorder \<Rightarrow> ('k \<times> 'v) list \<Rightarrow> nat" where
  "mm_position k es = length (takeWhile (\<lambda>e. \<not> k < fst e) es)"

text \<open>A registration while the loop stands at the entry with index n.\<close>

fun register_at :: "i32 \<times> 'h event option \<Rightarrow> 'h events_cache \<times> nat \<Rightarrow> 'h events_cache \<times> nat" where
  "register_at (i, event) (c, n) = (addEvent i event c, if mm_position (sint i) c \<le> n then Suc n else n)"

text \<open>
  The loop at index n, with \<open>after\<close> entries from the end of the range on. A handler gives the
  registrations it makes, in order. \<^const>\<open>None\<close>: the loop does not end.
\<close>

partial_function (option) dispatch_from ::
    "('h \<Rightarrow> 'm \<Rightarrow> bool) \<Rightarrow> ('h \<Rightarrow> 'm \<Rightarrow> 'w \<Rightarrow> 'w \<times> (i32 \<times> 'h event option) list) \<Rightarrow> 'm \<Rightarrow> nat \<Rightarrow> nat \<Rightarrow> 'h events_cache \<Rightarrow> 'w
      \<Rightarrow> (unit, 'w, 'h events_cache) outcome option" where
  "dispatch_from validate run m after n c w =
     (if n < length c - after then
        (case snd (c ! n) of
           None \<Rightarrow> Some Undefined
         | Some event \<Rightarrow>
             if validateMessage validate event m then
               (case handleReceivedMessage (\<lambda>h m (w, _). run h m w) event m (w, []) of
                  None \<Rightarrow> Some Undefined
                | Some (w', registrations) \<Rightarrow>
                    (let (c', n') = fold register_at registrations (c, n)
                     in dispatch_from validate run m after (Suc n') c' w'))
             else dispatch_from validate run m after (Suc n) c w)
      else Some (Done w c))"

definition dispatch_registering ::
    "('h \<Rightarrow> 'm \<Rightarrow> bool) \<Rightarrow> ('h \<Rightarrow> 'm \<Rightarrow> 'w \<Rightarrow> 'w \<times> (i32 \<times> 'h event option) list) \<Rightarrow> i32 \<Rightarrow> 'm \<Rightarrow> 'h events_cache \<Rightarrow> 'w
      \<Rightarrow> (unit, 'w, 'h events_cache) outcome option" where
  "dispatch_registering validate run i m c w =
     (case find (\<lambda>e. fst e = sint i) c of
        None \<Rightarrow> Some (Done w c)
      | Some _ \<Rightarrow>
          (let first = length (takeWhile (\<lambda>e. fst e < sint i) c);
               after = length (dropWhile (\<lambda>e. \<not> sint i < fst e) (dropWhile (\<lambda>e. fst e < sint i) c))
           in dispatch_from validate run m after first c w))"

section \<open>Where a registration goes\<close>

lemma mm_insert_position: "mm_insert k v es = take (mm_position k es) es @ (k, v) # drop (mm_position k es) es"
  unfolding mm_position_def by (induction es) auto

lemma mm_insert_between:
  "\<forall>e \<in> set xs. \<not> k < fst e \<Longrightarrow> \<forall>e \<in> set ys. k < fst e \<Longrightarrow>
    mm_insert k v (xs @ ys) = xs @ (k, v) # ys \<and> mm_position k (xs @ ys) = length xs"
proof -
  assume xs: "\<forall>e \<in> set xs. \<not> k < fst e" and "\<forall>e \<in> set ys. k < fst e"
  then have "takeWhile (\<lambda>e. \<not> k < fst e) ys = []" by (cases ys) simp_all
  moreover have "takeWhile (\<lambda>e. \<not> k < fst e) (xs @ ys) = xs @ takeWhile (\<lambda>e. \<not> k < fst e) ys"
    using xs by (intro takeWhile_append2) blast
  ultimately have "mm_position k (xs @ ys) = length xs" by (simp add: mm_position_def)
  then show ?thesis by (simp add: mm_insert_position)
qed

section \<open>Handlers that register nothing\<close>

lemma dispatch_from_quiet:
  assumes "\<And>h m w. snd (run h m w) = []" and "after \<le> length c"
  shows "dispatch_from validate run m after n c w =
    (case run_range validate (\<lambda>h m w. fst (run h m w)) m (drop n (take (length c - after) c)) w of
       None \<Rightarrow> Some Undefined | Some w' \<Rightarrow> Some (Done w' c))"
proof (induction "length c - after - n" arbitrary: n w)
  case 0
  then have "drop n (take (length c - after) c) = []" by simp
  moreover have "\<not> n < length c - after" using 0 by simp
  ultimately show ?case by (subst dispatch_from.simps) simp
next
  case (Suc k)
  then have n: "n < length c - after" by simp
  then have rest: "drop n (take (length c - after) c) = c ! n # drop (Suc n) (take (length c - after) c)"
    by (simp add: Cons_nth_drop_Suc [symmetric])
  have IH: "dispatch_from validate run m after (Suc n) c w' =
      (case run_range validate (\<lambda>h m w. fst (run h m w)) m (drop (Suc n) (take (length c - after) c)) w' of
         None \<Rightarrow> Some Undefined | Some w' \<Rightarrow> Some (Done w' c))" for w'
    using Suc.hyps(1) [of "Suc n" w'] Suc.hyps(2) by simp
  have quiet: "run h m w = (fst (run h m w), [])" for h
    using assms(1) [of h m w] by (metis prod.collapse)
  obtain k event where entry: "c ! n = (k, event)" by fastforce
  show ?case
  proof (cases event)
    case None
    with n rest entry show ?thesis by (subst dispatch_from.simps) simp
  next
    case (Some ev)
    show ?thesis
    proof (cases ev)
      case (MessageReceiveEvent cb)
      show ?thesis
      proof (cases cb)
        case None
        with n rest entry Some IH MessageReceiveEvent show ?thesis by (subst dispatch_from.simps) simp
      next
        fix h
        assume "cb = Some h"
        moreover obtain w1 where "run h m w = (w1, [])" using quiet by blast
        ultimately show ?thesis using n rest entry Some IH MessageReceiveEvent by (subst dispatch_from.simps) simp
      qed
    qed
  qed
qed

lemma middle_part: "c = l @ e @ a \<Longrightarrow> drop (length l) (take (length c - length a) c) = e \<and> length a \<le> length c"
  by simp

lemma dispatch_quiet:
  assumes "\<And>h m w. snd (run h m w) = []" and "mm_sorted c"
  shows "dispatch_registering validate run i m c w =
    (case runRequestsHandlers validate (\<lambda>h m w. fst (run h m w)) i m c w of None \<Rightarrow> Some Undefined | Some w' \<Rightarrow> Some (Done w' c))"
proof (cases "find (\<lambda>e. fst e = sint i) c")
  case None
  then show ?thesis by (simp add: dispatch_registering_def runRequestsHandlers_def)
next
  case (Some e)
  let ?l = "takeWhile (\<lambda>e. fst e < sint i) c" and ?r = "dropWhile (\<lambda>e. fst e < sint i) c"
  let ?after = "dropWhile (\<lambda>e. \<not> sint i < fst e) ?r"
  have "c = ?l @ mm_equal_range (sint i) c @ ?after" by (simp add: mm_equal_range_def)
  from middle_part [OF this] show ?thesis
    using Some dispatch_from_quiet [of run "length ?after" c validate m "length ?l" w] assms(1)
    by (simp add: dispatch_registering_def runRequestsHandlers_def Let_def)
qed

section \<open>Handlers that register\<close>

text \<open>A dispatch to the one handler of a sender, between the entries of smaller and of greater senders.\<close>

lemma dispatch_single:
  assumes "\<forall>e \<in> set pre. fst e < sint i" and "\<forall>e \<in> set post. sint i < fst e"
  shows "dispatch_registering validate run i m (pre @ (sint i, ev) # post) w =
    dispatch_from validate run m (length post) (length pre) (pre @ (sint i, ev) # post) w"
proof -
  have "takeWhile (\<lambda>e. fst e < sint i) (pre @ (sint i, ev) # post) = pre"
    and "dropWhile (\<lambda>e. fst e < sint i) (pre @ (sint i, ev) # post) = (sint i, ev) # post"
    using assms(1) by (simp_all add: takeWhile_append2 dropWhile_append2)
  moreover have "dropWhile (\<lambda>e. \<not> sint i < fst e) post = post"
    using assms(2) by (cases post) simp_all
  moreover have "find (\<lambda>e. fst e = sint i) (pre @ (sint i, ev) # post) \<noteq> None"
    by (auto simp: find_None_iff)
  ultimately show ?thesis by (auto simp: dispatch_registering_def)
qed

text \<open>A handler that registers itself again every time it runs.\<close>

definition registers_itself :: "('h \<Rightarrow> 'm \<Rightarrow> 'w \<Rightarrow> 'w \<times> (i32 \<times> 'h event option) list) \<Rightarrow> i32 \<Rightarrow> 'h \<Rightarrow> 'm \<Rightarrow> bool" where
  "registers_itself run i h m \<longleftrightarrow> (\<forall>w. snd (run h m w) = [(i, Some (MessageReceiveEvent (Some h)))])"

lemma self_registering_step:
  assumes "validate h m" and "registers_itself run i h m" and "\<forall>e \<in> set pre. fst e < sint i" and "\<forall>e \<in> set post. sint i < fst e"
    and "length pre \<le> n" and "n < length pre + k"
  obtains w' where "(if n < length (pre @ replicate k (sint i, Some (MessageReceiveEvent (Some h))) @ post) - length post then
        (case snd ((pre @ replicate k (sint i, Some (MessageReceiveEvent (Some h))) @ post) ! n) of
           None \<Rightarrow> Some Undefined
         | Some event \<Rightarrow>
             if validateMessage validate event m then
               (case handleReceivedMessage (\<lambda>h m (w, _). run h m w) event m (w, []) of
                  None \<Rightarrow> Some Undefined
                | Some (w', registrations) \<Rightarrow>
                    (let (c', n') = fold register_at registrations (pre @ replicate k (sint i, Some (MessageReceiveEvent (Some h))) @ post, n)
                     in f (Suc n') c' w'))
             else f (Suc n) (pre @ replicate k (sint i, Some (MessageReceiveEvent (Some h))) @ post) w)
      else Some (Done w (pre @ replicate k (sint i, Some (MessageReceiveEvent (Some h))) @ post))) =
    f (Suc n) (pre @ replicate (Suc k) (sint i, Some (MessageReceiveEvent (Some h))) @ post) w'"
proof -
  let ?e = "(sint i, Some (MessageReceiveEvent (Some h)))"
  let ?c = "pre @ replicate k ?e @ post"
  from assms(5,6) have "n - length pre < k" by simp
  with assms(5) have entry: "?c ! n = ?e" by (simp add: nth_append)
  obtain w' where run: "run h m w = (w', [(i, Some (MessageReceiveEvent (Some h)))])"
    using assms(2) unfolding registers_itself_def by (metis prod.collapse)
  have between: "\<forall>e \<in> set (pre @ replicate k ?e). \<not> sint i < fst e" using assms(3) by auto
  from mm_insert_between [OF between assms(4), of "Some (MessageReceiveEvent (Some h))"]
  have "mm_insert (sint i) (Some (MessageReceiveEvent (Some h))) ?c = pre @ replicate (Suc k) ?e @ post"
    and "mm_position (sint i) ?c = length pre + k"
    by (simp_all add: replicate_append_same)
  with entry run assms(1,5,6) show ?thesis by (intro that [of w']) (simp add: addEvent_def)
qed

lemma self_registering_never_ends:
  assumes "validate h m" and "registers_itself run i h m" and "\<forall>e \<in> set pre. fst e < sint i" and "\<forall>e \<in> set post. sint i < fst e"
  shows "dispatch_from validate run m (length post) (length pre) (pre @ (sint i, Some (MessageReceiveEvent (Some h))) # post) w = None"
proof (cases "dispatch_from validate run m (length post) (length pre) (pre @ (sint i, Some (MessageReceiveEvent (Some h))) # post) w")
  case (Some r)
  let ?e = "(sint i, Some (MessageReceiveEvent (Some h)))"
  define inside where "inside = (\<lambda>validate' (run' :: 'a \<Rightarrow> 'b \<Rightarrow> 'c \<Rightarrow> 'c \<times> (i32 \<times> 'a event option) list) m' after n c.
    validate' = validate \<and> run' = run \<and> m' = m \<and> after = length post \<and>
    (\<exists>k. c = pre @ replicate k ?e @ post \<and> length pre \<le> n \<and> n < length pre + k))"
  have "\<not> inside validate run m (length post) (length pre) (pre @ ?e # post)"
  proof (rule dispatch_from.raw_induct [where P = "\<lambda>validate run m after n c w r. \<not> inside validate run m after n c", OF _ Some], intro notI)
    fix f :: "('a \<Rightarrow> 'b \<Rightarrow> bool) \<Rightarrow> ('a \<Rightarrow> 'b \<Rightarrow> 'c \<Rightarrow> 'c \<times> (i32 \<times> 'a event option) list) \<Rightarrow> 'b \<Rightarrow> nat \<Rightarrow> nat \<Rightarrow> 'a events_cache \<Rightarrow> 'c
        \<Rightarrow> (unit, 'c, 'a events_cache) outcome option"
      and validate' run' m' after n c w r
    assume IH: "\<And>validate' run' m' after n c w r. f validate' run' m' after n c w = Some r \<Longrightarrow> \<not> inside validate' run' m' after n c"
      and body: "(if n < length c - after then
        (case snd (c ! n) of
           None \<Rightarrow> Some Undefined
         | Some event \<Rightarrow>
             if validateMessage validate' event m' then
               (case handleReceivedMessage (\<lambda>h m (w, _). run' h m w) event m' (w, []) of
                  None \<Rightarrow> Some Undefined
                | Some (w', registrations) \<Rightarrow>
                    (let (c', n') = fold register_at registrations (c, n)
                     in f validate' run' m' after (Suc n') c' w'))
             else f validate' run' m' after (Suc n) c w)
        else Some (Done w c)) = Some r"
      and inside: "inside validate' run' m' after n c"
    then obtain k where same: "validate' = validate" "run' = run" "m' = m" "after = length post"
      and k: "c = pre @ replicate k ?e @ post" "length pre \<le> n" "n < length pre + k"
      unfolding inside_def by blast
    obtain w' where "f validate run m (length post) (Suc n) (pre @ replicate (Suc k) ?e @ post) w' = Some r"
      by (rule self_registering_step [where validate = validate and h = h and m = m and run = run and i = i and pre = pre and post = post
          and n = n and k = k, OF assms k(2,3), where f = "f validate run m (length post)" and w = w])
        (use body in \<open>simp only: same k(1)\<close>)
    from IH [OF this] k(2,3) show False unfolding inside_def by (metis Suc_less_eq add_Suc_right le_SucI)
  qed
  moreover have "inside validate run m (length post) (length pre) (pre @ ?e # post)"
    unfolding inside_def by (intro conjI refl exI [of _ 1]) simp_all
  ultimately show ?thesis by blast
qed

text \<open>A handler that registers one handler for a greater sender, which has none yet.\<close>

lemma registered_for_another:
  assumes "\<forall>e \<in> set pre. fst e < sint i" and "\<forall>e \<in> set post. sint j < fst e" and "sint i < sint j"
    and "validate a m" and "run a m w = (w1, [(j, Some (MessageReceiveEvent (Some b)))])"
    and "validate b m" and "run b m w1 = (w2, [])"
  shows "dispatch_from validate run m (length post) (length pre) (pre @ (sint i, Some (MessageReceiveEvent (Some a))) # post) w =
    Some (Done w2 (pre @ [(sint i, Some (MessageReceiveEvent (Some a))), (sint j, Some (MessageReceiveEvent (Some b)))] @ post))"
proof -
  let ?a = "(sint i, Some (MessageReceiveEvent (Some a)))" and ?b = "(sint j, Some (MessageReceiveEvent (Some b)))"
  let ?c = "pre @ ?a # ?b # post"
  have "\<forall>e \<in> set (pre @ [?a]). \<not> sint j < fst e" using assms(1,3) by auto
  from mm_insert_between [OF this assms(2), of "Some (MessageReceiveEvent (Some b))"]
  have insert: "addEvent j (Some (MessageReceiveEvent (Some b))) (pre @ ?a # post) = ?c"
    and place: "mm_position (sint j) (pre @ ?a # post) = Suc (length pre)"
    by (simp_all add: addEvent_def)
  have third: "dispatch_from validate run m (length post) (Suc (Suc (length pre))) ?c w2 = Some (Done w2 ?c)"
    by (subst dispatch_from.simps) simp
  have "?c ! Suc (length pre) = ?b" by (simp add: nth_append)
  with third assms(6,7) have second: "dispatch_from validate run m (length post) (Suc (length pre)) ?c w1 = Some (Done w2 ?c)"
    by (subst dispatch_from.simps) simp
  with assms(4,5) insert place show ?thesis by (subst dispatch_from.simps) simp
qed

section \<open>Property\<close>

text \<open>C30:
  A handler may register handlers while it runs, and the loop of runRequestsHandlers is not
  protected from it. When the one handler of a sender registers another for a greater sender that
  has none yet, and no event of a sender between the two is there, the new handler is run at once
  on the message of the wrong sender. When it registers itself again each time it runs, the loop
  never ends. When no handler registers anything, the loop over any cache of events, whatever the
  number of its handlers, runs exactly the handlers of the sender that accept the message, each
  once and in the order of their registrations, skips those that refuse, and leaves the cache as it
  is; a null event of the sender is dereferenced, as the model of the cache says.
\<close>
theorem registering_handlers:
  assumes "mm_sorted (pre @ (sint i, Some (MessageReceiveEvent (Some a))) # post)" and "validate a m"
    and "\<forall>e \<in> set pre. fst e < sint i" and "sint i < sint j" and "\<forall>e \<in> set post. sint j < fst e"
  shows "(run a m w = (w1, [(j, Some (MessageReceiveEvent (Some b)))]) \<and> validate b m \<and> run b m w1 = (w2, []) \<longrightarrow>
      dispatch_registering validate run i m (pre @ (sint i, Some (MessageReceiveEvent (Some a))) # post) w =
        Some (Done w2 (pre @ [(sint i, Some (MessageReceiveEvent (Some a))), (sint j, Some (MessageReceiveEvent (Some b)))] @ post))) \<and>
    ((\<forall>w. snd (run a m w) = [(i, Some (MessageReceiveEvent (Some a)))]) \<longrightarrow>
      dispatch_registering validate run i m (pre @ (sint i, Some (MessageReceiveEvent (Some a))) # post) w = None) \<and>
    ((\<forall>h m w. snd (run h m w) = []) \<longrightarrow>
      (\<forall>k c w. mm_sorted c \<longrightarrow>
         dispatch_registering validate run k m c w =
           (case runRequestsHandlers validate (\<lambda>h m w. fst (run h m w)) k m c w of
              None \<Rightarrow> Some Undefined | Some w' \<Rightarrow> Some (Done w' c)) \<and>
         (events_ok c \<longrightarrow>
            dispatch_registering validate run k m c w =
              Some (Done (fold (\<lambda>h w. fst (run h m w)) (filter (\<lambda>h. validate h m) (handlers_of k c)) w) c))))"
proof -
  have post: "\<forall>e \<in> set post. sint i < fst e" using assms(4,5) by force
  note single = dispatch_single [OF assms(3) post, of validate run m "Some (MessageReceiveEvent (Some a))" w]
  show ?thesis
  proof (intro conjI impI, goal_cases)
    case 1
    then show ?case
      unfolding single
      by (intro registered_for_another [where validate = validate and m = m, OF assms(3,5,4,2)]) blast+
  next
    case 2
    then show ?case
      unfolding single
      by (intro self_registering_never_ends [where validate = validate and m = m, OF assms(2) _ assms(3) post])
        (simp add: registers_itself_def)
  next
    case 3
    then have quiet: "snd (run h m w) = []" for h m w by blast
    show ?case
    proof (intro allI impI conjI)
      fix k w and c :: "'a events_cache"
      assume "mm_sorted c"
      from dispatch_quiet [of run c validate k m w, OF quiet this]
      show law: "dispatch_registering validate run k m c w =
           (case runRequestsHandlers validate (\<lambda>h m w. fst (run h m w)) k m c w of
              None \<Rightarrow> Some Undefined | Some w' \<Rightarrow> Some (Done w' c))" .
      assume "events_ok c"
      with law ec.dispatch_law [of c validate "\<lambda>h m w. fst (run h m w)" k m w]
      show "dispatch_registering validate run k m c w =
          Some (Done (fold (\<lambda>h w. fst (run h m w)) (filter (\<lambda>h. validate h m) (handlers_of k c)) w) c)"
        by simp
    qed
  qed
qed

text \<open>Handler 0 of sender 1 registers handler 1, for sender 2; handler 2 registers itself.\<close>

definition sample_registering :: "nat \<Rightarrow> unit \<Rightarrow> nat list \<Rightarrow> nat list \<times> (i32 \<times> nat event option) list" where
  "sample_registering h m w =
     (w @ [h], if h = 0 then [(2, Some (MessageReceiveEvent (Some 1)))]
               else if h = 2 then [(1, Some (MessageReceiveEvent (Some 2)))] else [])"

text \<open>Handlers that register nothing: sender 1 has four, of which handler 3 refuses.\<close>

definition sample_quiet_cache :: "nat events_cache" where
  "sample_quiet_cache =
     map (\<lambda>(i, h). (i, Some (MessageReceiveEvent (Some h)))) [(0, 7), (1, 2), (1, 3), (1, 4), (1, 5), (2, 6)]"

theorem registering_handlers_witness:
  "dispatch_registering (\<lambda>h m. True) sample_registering 1 () [(1, Some (MessageReceiveEvent (Some 0)))] [] =
     Some (Done [0, 1] [(1, Some (MessageReceiveEvent (Some 0))), (2, Some (MessageReceiveEvent (Some 1)))]) \<and>
   dispatch_registering (\<lambda>h m. True) sample_registering 1 () [(1, Some (MessageReceiveEvent (Some 2)))] [] = None \<and>
   dispatch_registering (\<lambda>h m. h \<noteq> 3) (\<lambda>h m w. (w @ [h], [])) 1 () sample_quiet_cache [] =
     Some (Done [2, 4, 5] sample_quiet_cache)"
proof (intro conjI)
  show "dispatch_registering (\<lambda>h m. True) sample_registering 1 () [(1, Some (MessageReceiveEvent (Some 0)))] [] =
     Some (Done [0, 1] [(1, Some (MessageReceiveEvent (Some 0))), (2, Some (MessageReceiveEvent (Some 1)))])"
    using registering_handlers [of "[]" 1 0 "[]" "\<lambda>h m. True" "()" 2 sample_registering "[]" "[0]" 1 "[0, 1]"]
    by (simp add: sample_registering_def)
  show "dispatch_registering (\<lambda>h m. True) sample_registering 1 () [(1, Some (MessageReceiveEvent (Some 2)))] [] = None"
    using registering_handlers [of "[]" 1 2 "[]" "\<lambda>h m. True" "()" 2 sample_registering "[]" "[0]" 1 "[0, 1]"]
    by (simp add: sample_registering_def)
  have "events_ok sample_quiet_cache" and "handlers_of 1 sample_quiet_cache = [2, 3, 4, 5]"
    by (simp_all add: events_ok_def sample_quiet_cache_def handlers_of_def)
  moreover have "mm_sorted sample_quiet_cache" by (simp add: sample_quiet_cache_def)
  ultimately show "dispatch_registering (\<lambda>h m. h \<noteq> 3) (\<lambda>h m w. (w @ [h], [])) 1 () sample_quiet_cache [] =
     Some (Done [2, 4, 5] sample_quiet_cache)"
    using registering_handlers [of "[]" 1 "2 :: nat" "[]" "\<lambda>h m. h \<noteq> 3" "()" 2 "\<lambda>h m w. (w @ [h], [])" "[]" "[]" 0 "[]"]
    by (simp add: ec.dispatch_law)
qed

end
