(* ===== verification/Gps_Example.thy ===== *)
theory Gps_Example
  imports Server_Delivery Managers Identifiers "HOL-Library.AList"
begin

text \<open>
  The two example modules of src/Tests/ExampleModuleTests: one that sends its coordinates to the
  first service every five seconds, and one that subscribes to them and keeps the latest of each
  module. The generated GPS classes are parameters; console output is the list of rows printed.
\<close>

section \<open>GpsCoordinatesCache\<close>

text \<open>A std::map is the list of its entries in the order of its keys, which are signed.\<close>

type_synonym coordinates_cache = "(int \<times> i32 \<times> i32) list"

definition gps_update :: "i32 \<Rightarrow> i32 \<times> i32 \<Rightarrow> coordinates_cache \<Rightarrow> coordinates_cache" where
  "gps_update identifier cords coordinatesCache =
     (case find (\<lambda>coordinates. fst coordinates = sint identifier) coordinatesCache of
        Some iter \<Rightarrow> AList.update (sint identifier) cords coordinatesCache
      | None \<Rightarrow> mm_insert (sint identifier) cords coordinatesCache)"

fun gps_print :: "coordinates_cache \<Rightarrow> (int \<times> int \<times> int) list" where
  "gps_print [] = []"
| "gps_print ((identifier, (x, y)) # coordinatesCache) = (identifier, sint x, sint y) # gps_print coordinatesCache"

section \<open>The subscriber\<close>

record subscribe_identifier_request =
  requestIdentifier :: u32
  requestX :: u32
  requestY :: u32

record 'any gps_protocol =
  is_subscribe_request :: "'any \<Rightarrow> bool"
  unpack_subscribe_request :: "'any \<Rightarrow> subscribe_identifier_request"
  pack_update_request :: "u32 \<Rightarrow> i32 \<Rightarrow> i32 \<Rightarrow> 'any"
  update_request_type_name :: string

datatype gps_handler = CoordinatesUpdateSubscriptionHandler

definition gps_validate :: "'any gps_protocol \<Rightarrow> gps_handler \<Rightarrow> 'any \<Rightarrow> bool" where
  "gps_validate G h any = is_subscribe_request G any"

text \<open>The unsigned fields become signed coordinates with the same bits.\<close>

definition gps_run :: "'any gps_protocol \<Rightarrow> gps_handler \<Rightarrow> 'any \<Rightarrow> coordinates_cache \<Rightarrow> coordinates_cache" where
  "gps_run G h any coordinatesCache =
     (let identifierRequest = unpack_subscribe_request G any;
          cords = (requestX identifierRequest, requestY identifierRequest)
      in gps_update (requestIdentifier identifierRequest) cords coordinatesCache)"

text \<open>
  The main of the subscriber up to its loop: the handler is registered for the first service,
  in the cache of events that the server dispatches from, and the subscription is sent.
\<close>

definition subscriber_begin ::
    "('addr, 'any, gps_handler, coordinates_cache) server_env \<Rightarrow> 'any gps_protocol \<Rightarrow> manager_instance \<Rightarrow> bool
      \<Rightarrow> ('addr, 'any, gps_handler, coordinates_cache) server
      \<Rightarrow> ('addr, 'any, gps_handler, coordinates_cache, bool) server_result" where
  "subscriber_begin env G inst manager_set s =
     (let g = registerNewEventHandler 872415233 (Some (MessageReceiveEvent (Some CoordinatesUpdateSubscriptionHandler)))
                \<lparr>eventManager = manager_set, managedEvents = eventsCache s\<rparr>
      in manager_sendSubscribeRequest env inst (toServiceIdentifier 1) (update_request_type_name G)
           (s\<lparr>eventsCache := managedEvents g\<rparr>))"

section \<open>The publisher\<close>

text \<open>One iteration of the loop; what sendRequest answers is not looked at.\<close>

definition publish ::
    "('addr, 'any, 'h, 'w) server_env \<Rightarrow> 'any gps_protocol \<Rightarrow> manager_instance \<Rightarrow> i32
      \<Rightarrow> ('addr, 'any, 'h, 'w) server \<Rightarrow> ('addr, 'any, 'h, 'w, i32) server_result" where
  "publish env G inst newCoordinates s =
     andThen (manager_sendRequest env inst (toServiceIdentifier 1)
                (Some (pack_update_request G (moduleIdentifier env) newCoordinates newCoordinates)) s)
       (\<lambda>_ s. Done (newCoordinates + 1) s)"

section \<open>The cache is a finite map\<close>

definition cache_ordered :: "coordinates_cache \<Rightarrow> bool" where
  "cache_ordered c \<longleftrightarrow> sorted_wrt (<) (map fst c)"

lemma find_key: "find (\<lambda>e. fst e = k) c = None \<longleftrightarrow> k \<notin> set (map fst c)"
  by (force simp: find_None_iff)

lemma map_of_mm_insert: "k \<notin> set (map fst c) \<Longrightarrow> map_of (mm_insert k v c) = (map_of c)(k \<mapsto> v)"
  by (induction c) (auto simp: fun_eq_iff)

lemma mm_insert_ordered: "cache_ordered c \<Longrightarrow> k \<notin> set (map fst c) \<Longrightarrow> cache_ordered (mm_insert k v c)"
  unfolding cache_ordered_def by (induction c) auto

lemma gps_update_cases:
  "gps_update i cords c = (if sint i \<in> set (map fst c) then AList.update (sint i) cords c else mm_insert (sint i) cords c)"
  using find_key [of "sint i" c] by (auto simp: gps_update_def split: option.split)

lemma gps_update_ordered: "cache_ordered c \<Longrightarrow> cache_ordered (gps_update i cords c)"
  by (simp add: gps_update_cases mm_insert_ordered) (simp add: cache_ordered_def update_keys)

lemma gps_update_lookup: "map_of (gps_update i cords c) = (map_of c)(sint i \<mapsto> cords)"
  by (simp add: gps_update_cases map_of_mm_insert update_conv')

text \<open>The latest coordinates of each module, over a list of updates.\<close>

definition gps_updates :: "(i32 \<times> i32 \<times> i32) list \<Rightarrow> coordinates_cache \<Rightarrow> coordinates_cache" where
  "gps_updates us = fold (\<lambda>(i, cords). gps_update i cords) us"

lemma gps_updates_ordered: "cache_ordered c \<Longrightarrow> cache_ordered (gps_updates us c)"
  unfolding gps_updates_def by (induction us arbitrary: c) (auto simp: gps_update_ordered)

lemma gps_updates_lookup: "map_of (gps_updates us []) (sint i) = map_of (rev us) i"
proof -
  have "map_of (gps_updates us c) (sint i) = (case map_of (rev us) i of None \<Rightarrow> map_of c (sint i) | Some u \<Rightarrow> Some u)" for c
    unfolding gps_updates_def
    by (induction us arbitrary: c) (auto simp: gps_update_lookup sint_eq_iff map_add_def split: option.split)
  from this [of "[]"] show ?thesis by (simp split: option.split)
qed

lemma gps_updates_keys: "fst ` set (gps_updates us c) = (\<lambda>u. sint (fst u)) ` set us \<union> fst ` set c"
  unfolding gps_updates_def
proof (induction us arbitrary: c)
  case (Cons u us)
  have "fst ` set (gps_update (fst u) (snd u) c) = insert (sint (fst u)) (fst ` set c)"
    by (auto simp: gps_update_cases dom_update)
  with Cons show ?case by (simp add: case_prod_unfold)
qed simp

lemma gps_print_rows: "gps_print c = map (\<lambda>(i, x, y). (i, sint x, sint y)) c"
  by (induction c rule: gps_print.induct) auto

text \<open>What is printed: one row for each module heard of, in the order of the identifiers.\<close>

lemma gps_printed:
  shows "sorted_wrt (<) (map fst (gps_print (gps_updates us [])))"
    and "set (gps_print (gps_updates us [])) = {(sint i, sint x, sint y) | i x y. map_of (rev us) i = Some (x, y)}"
proof -
  have ordered: "cache_ordered (gps_updates us [])" by (rule gps_updates_ordered) (simp add: cache_ordered_def)
  then show "sorted_wrt (<) (map fst (gps_print (gps_updates us [])))"
    by (simp add: gps_print_rows cache_ordered_def comp_def case_prod_unfold)
  from ordered have distinct: "distinct (map fst (gps_updates us []))" by (simp add: cache_ordered_def strict_sorted_iff)
  have entry: "(k, x, y) \<in> set (gps_updates us []) \<longleftrightarrow> (\<exists>i :: i32. k = sint i \<and> map_of (rev us) i = Some (x, y))" for k x y
  proof -
    have "(k, x, y) \<in> set (gps_updates us []) \<longleftrightarrow> map_of (gps_updates us []) k = Some (x, y)"
      using distinct by (simp add: map_of_eq_Some_iff)
    moreover have "\<exists>i :: i32. k = sint i" if "(k, x, y) \<in> set (gps_updates us [])"
    proof -
      from that have "k \<in> fst ` set (gps_updates us [])" by force
      then have "k \<in> range (sint :: i32 \<Rightarrow> int)" unfolding gps_updates_keys by auto
      then show ?thesis by blast
    qed
    ultimately show ?thesis by (metis gps_updates_lookup)
  qed
  then show "set (gps_print (gps_updates us [])) = {(sint i, sint x, sint y) | i x y. map_of (rev us) i = Some (x, y)}"
    by (auto simp: gps_print_rows image_iff) (metis, force)
qed

section \<open>The subscriber listening\<close>

text \<open>The update that a datagram carries, if it is a subscription message of the service.\<close>

definition coordinates_received ::
    "('addr, 'any, gps_handler, coordinates_cache) server_env \<Rightarrow> 'any gps_protocol \<Rightarrow> nat \<Rightarrow> bytes \<Rightarrow> (i32 \<times> i32 \<times> i32) option" where
  "coordinates_received env G buffer d =
     (case parse env (take buffer d) of
        None \<Rightarrow> None
      | Some m \<Rightarrow>
          (let any = request_payload (default_any env) m; r = unpack_subscribe_request G any
           in if has_header m \<and> has_request m \<and> header_senderidentifier m = 872415233 \<and> is_subscribe_request G any
              then Some (requestIdentifier r, requestX r, requestY r) else None))"

text \<open>The handlers of the subscriber's module.\<close>

definition gps_env ::
    "('addr, 'any, gps_handler, coordinates_cache) server_env \<Rightarrow> 'any gps_protocol \<Rightarrow> ('addr, 'any, gps_handler, coordinates_cache) server_env" where
  "gps_env env G = env\<lparr>handler_validate := gps_validate G, handler_run := gps_run G\<rparr>"

definition gps_listening :: "('addr, 'any, gps_handler, coordinates_cache) server \<Rightarrow> bool" where
  "gps_listening s \<longleftrightarrow> \<not> timersLock (timersCache s) \<and>
     eventsCache s = addEvent 872415233 (Some (MessageReceiveEvent (Some CoordinatesUpdateSubscriptionHandler))) []"

lemma gps_listening_events:
  assumes "gps_listening s"
  shows "events_ok (eventsCache s)"
    and "handlers_of i (eventsCache s) = (if i = 872415233 then [CoordinatesUpdateSubscriptionHandler] else [])"
proof -
  have "events_ok ([] :: gps_handler events_cache)" and "handlers_of i ([] :: gps_handler events_cache) = []"
    by (simp_all add: events_ok_def handlers_of_def)
  with ec.add_law [of "[]" 872415233 CoordinatesUpdateSubscriptionHandler i] assms
  show "events_ok (eventsCache s)"
    and "handlers_of i (eventsCache s) = (if i = 872415233 then [CoordinatesUpdateSubscriptionHandler] else [])"
    by (simp_all add: gps_listening_def)
qed

lemma handleResponse_keeps:
  assumes "\<not> timersLock (timersCache s)"
  obtains s' where "handleResponse m s = Done () s'" and "\<not> timersLock (timersCache s')" and "eventsCache s' = eventsCache s"
    and "messageBufferLength s' = messageBufferLength s" and "handlersWorld s' = handlersWorld s"
proof (cases "has_response m \<and> msgResponse m = Some Success")
  case True
  with assms handleResponse_success [of m s] obtain s' where run: "handleResponse m s = Done () s'"
    and s': "s' = s \<or> (\<exists>i codes. s' = s\<lparr>timersCache := the (removeTimer i (timersCache s)), transactionAndTimerID := codes\<rparr>)"
    by (auto split: option.splits)
  have "\<not> timersLock (the (removeTimer i (timersCache s)))" for i
    using assms by (simp add: removeTimer_def internalRemoveTimer_def notify_one_def Let_def split: option.split)
  with s' assms run that show ?thesis by auto
next
  case False
  then have "handleResponse m s = Done () s" by (auto simp: handleResponse_def)
  with assms show ?thesis by (intro that [of s]) simp_all
qed

lemma postReceive_gps:
  assumes "gps_listening s"
  obtains s' where "postReceive (gps_env env G) (Some d) s = Done () s'" and "gps_listening s'"
    and "messageBufferLength s' = messageBufferLength s"
    and "handlersWorld s' = gps_updates (case coordinates_received env G (messageBufferLength s) d of None \<Rightarrow> [] | Some u \<Rightarrow> [u])
      (handlersWorld s)"
proof (cases "parse env (take (messageBufferLength s) d)")
  case None
  with assms that show ?thesis
    by (simp add: postReceive_def startReading_def gps_env_def gps_listening_def coordinates_received_def gps_updates_def Let_def)
next
  case (Some m)
  let ?s = "s\<lparr>readingStarted := True\<rparr>" and ?any = "request_payload (default_any env) m"
  have run: "postReceive (gps_env env G) (Some d) s =
      (if has_header m then (if has_request m then handleRequest (gps_env env G) m ?s
         else if has_response m then handleResponse m ?s else Done () ?s) else Done () ?s)"
    using Some by (simp add: postReceive_def startReading_def gps_env_def Let_def)
  let ?handled = "?s\<lparr>handlersWorld := (if header_senderidentifier m = 872415233 \<and> is_subscribe_request G ?any
       then gps_run G CoordinatesUpdateSubscriptionHandler ?any (handlersWorld s) else handlersWorld s)\<rparr>"
  have handled: "handleRequest (gps_env env G) m ?s = Done () ?handled"
    using gps_listening_events [OF assms]
    by (simp add: handleRequest_def ec.dispatch_law gps_env_def gps_validate_def)
  have listening: "gps_listening ?s" using assms by (simp add: gps_listening_def)
  consider (request) "has_header m" "has_request m" | (response) "has_header m" "\<not> has_request m" "has_response m"
    | (other) "\<not> has_header m \<or> \<not> has_request m \<and> \<not> has_response m" by blast
  then show ?thesis
  proof cases
    case request
    with Some listening show ?thesis
      by (intro that [of ?handled])
        (simp_all add: run handled coordinates_received_def gps_updates_def gps_run_def gps_listening_def Let_def)
  next
    case response
    with listening obtain s' where "handleResponse m ?s = Done () s'" "\<not> timersLock (timersCache s')"
      "eventsCache s' = eventsCache ?s" "messageBufferLength s' = messageBufferLength ?s" "handlersWorld s' = handlersWorld ?s"
      using handleResponse_keeps [of ?s m] unfolding gps_listening_def by metis
    with response Some listening run show ?thesis
      by (intro that [of s']) (simp_all add: coordinates_received_def gps_updates_def gps_listening_def)
  next
    case other
    with Some listening run show ?thesis
      by (intro that [of ?s]) (auto simp: coordinates_received_def gps_updates_def Let_def)
  qed
qed

lemma deliver_gps:
  assumes "gps_listening s"
  shows "\<exists>s'. deliver (gps_env env G) ds s = Done () s' \<and>
    handlersWorld s' = gps_updates (List.map_filter (coordinates_received env G (messageBufferLength s)) ds) (handlersWorld s)"
  using assms
proof (induction ds arbitrary: s)
  case Nil
  then show ?case by (simp add: gps_updates_def map_filter_simps)
next
  case (Cons d ds)
  obtain s1 where run: "postReceive (gps_env env G) (Some d) s = Done () s1" and s1: "gps_listening s1"
    "messageBufferLength s1 = messageBufferLength s"
    "handlersWorld s1 = gps_updates (case coordinates_received env G (messageBufferLength s) d of None \<Rightarrow> [] | Some u \<Rightarrow> [u])
      (handlersWorld s)"
    using postReceive_gps [OF Cons.prems] by metis
  from Cons.IH [OF s1(1)] run s1 show ?case
    by (auto simp: map_filter_simps gps_updates_def split: option.splits)
qed

lemma first_service: "toServiceIdentifier 1 = 872415233"
  by code_simp

lemma pushAndSend_done:
  assumes "timers_room s"
  obtains s' where "pushAndSend env d m s = Done (messageQueue s = []) s'" and "\<not> timersLock (timersCache s')"
    and "eventsCache s' = eventsCache s" and "messageBufferLength s' = messageBufferLength s" and "handlersWorld s' = handlersWorld s"
proof (cases "messageQueue s = []")
  case True
  obtain i c where "registerTimer (Some (resend_timer env (now s) d m)) (timersCache s) = Some (i, c)" and "\<not> timersLock c"
    by (rule registered_in_room [OF assms])
  with True that show ?thesis by (simp add: pushAndSend_result after_send_def)
next
  case False
  with assms that show ?thesis by (simp add: pushAndSend_result Let_def)
qed

lemma subscriber_begins:
  assumes "servicesEndpointsMap s 872415233 = Some e" and "parkedMessages s = []" and "timers_room s" and "eventsCache s = []"
  obtains s1 where "subscriber_begin env G (Some True) True s = Done (messageQueue s = []) s1" and "gps_listening s1"
    and "messageBufferLength s1 = messageBufferLength s" and "handlersWorld s1 = handlersWorld s"
proof -
  let ?s = "s\<lparr>eventsCache := addEvent 872415233 (Some (MessageReceiveEvent (Some CoordinatesUpdateSubscriptionHandler))) []\<rparr>"
  let ?d = "\<lparr>serviceIdentifier = 872415233, endpoint = e\<rparr>"
  from assms(3) have "timers_room (?s\<lparr>randCalls := Suc (randCalls ?s)\<rparr>)" by simp
  then obtain s1 where push: "pushAndSend env ?d (makeSubscriptionRequestMessage (moduleIdentifier env) (update_request_type_name G)
      (drawn_code (rand env) 1000 (randCalls ?s))) (?s\<lparr>randCalls := Suc (randCalls ?s)\<rparr>) = Done (messageQueue s = []) s1"
    and s1: "\<not> timersLock (timersCache s1)" "eventsCache s1 = eventsCache ?s" "messageBufferLength s1 = messageBufferLength s"
      "handlersWorld s1 = handlersWorld s"
    by (rule pushAndSend_done) simp
  have "findDestination env 872415233 ?s = Done (Some ?d) ?s" using assms(1) by (intro known_destination) simp
  from send_found(2) [OF this] assms(2,4) push
  have "subscriber_begin env G (Some True) True s = Done (messageQueue s = []) s1"
    by (simp add: subscriber_begin_def registerNewEventHandler_def manager_sendSubscribeRequest_def first_service)
  with s1 that show ?thesis by (simp add: gps_listening_def)
qed

section \<open>The publisher with a service that answers\<close>

text \<open>
  One iteration, the completion of its send, and the success response of the service, which
  carries the transaction code of the request.
\<close>

definition answered_publish ::
    "('addr, 'any, 'h, 'w) server_env \<Rightarrow> 'any gps_protocol \<Rightarrow> i32 \<Rightarrow> ('addr, 'any, 'h, 'w) server
      \<Rightarrow> ('addr, 'any, 'h, 'w, i32) server_result" where
  "answered_publish env G n s =
     andThen (publish env G (Some True) n s) (\<lambda>n' s'.
     andThen (postSendToDestination env False s') (\<lambda>_ s'.
     andThen (handleResponse (success_response 872415233 (drawn_code (rand env) 1000 (randCalls s))) s') (\<lambda>_. Done n')))"

fun answered_publishes ::
    "('addr, 'any, 'h, 'w) server_env \<Rightarrow> 'any gps_protocol \<Rightarrow> nat \<Rightarrow> i32 \<Rightarrow> ('addr, 'any, 'h, 'w) server
      \<Rightarrow> ('addr, 'any, 'h, 'w, i32) server_result" where
  "answered_publishes env G 0 n s = Done n s"
| "answered_publishes env G (Suc k) n s = andThen (answered_publish env G n s) (answered_publishes env G k)"

text \<open>Nothing queued, on its way, open or timed.\<close>

definition at_rest :: "'addr endpoint \<Rightarrow> ('addr, 'any, 'h, 'w) server \<Rightarrow> bool" where
  "at_rest e s \<longleftrightarrow> servicesEndpointsMap s 872415233 = Some e \<and> messageQueue s = [] \<and> parkedMessages s = [] \<and>
     inFlight s = [] \<and> timers (timersCache s) = [] \<and> \<not> timersLock (timersCache s) \<and> transactionAndTimerID s = Map.empty"

definition published_datagram ::
    "('addr, 'any, 'h, 'w) server_env \<Rightarrow> 'any gps_protocol \<Rightarrow> 'addr endpoint \<Rightarrow> i32 \<Rightarrow> nat \<Rightarrow> 'addr endpoint \<times> bytes" where
  "published_datagram env G e n draw =
     (e, serialize env (makeRequestMessage (moduleIdentifier env) (Some (pack_update_request G (moduleIdentifier env) n n))
       (drawn_code (rand env) 1000 draw)))"

lemma answered_publish_result:
  assumes "at_rest e s"
  obtains s' where "answered_publish env G n s = Done (n + 1) s'" and "at_rest e s'" and "randCalls s' = Suc (randCalls s)"
    and "handedOver s' = handedOver s @ [published_datagram env G e n (randCalls s)]"
proof -
  let ?d = "\<lparr>serviceIdentifier = 872415233, endpoint = e\<rparr>" and ?code = "drawn_code (rand env) 1000 (randCalls s)"
  let ?m = "next_request env (Some (pack_update_request G (moduleIdentifier env) n n)) s"
  have room: "timers_room s" using assms by (simp add: at_rest_def cache_inv_def)
  obtain i c where reg: "registerTimer (Some (resend_timer env (now s) ?d ?m)) (timersCache s) = Some (i, c)"
    and c: "\<not> timersLock c"
    by (rule registered_in_room [OF room])
  from reg assms have entries: "timers c = [(getExpirationTimestamp (resend_timer env (now s) ?d ?m), setTimerID i (resend_timer env (now s) ?d ?m))]"
    by (simp add: registerTimer_iff at_rest_def)
  let ?s1 = "after_send env ?d ?m i c (s\<lparr>randCalls := Suc (randCalls s), messageQueue := [(?d, ?m)]\<rparr>)"
  let ?s2 = "?s1\<lparr>inFlight := [], messageQueue := []\<rparr>"
  let ?s3 = "?s2\<lparr>timersCache := the (removeTimer i c), transactionAndTimerID := Map.empty\<rparr>"
  have "publish env G (Some True) n s = Done (n + 1) ?s1"
    using send_found(1) [OF known_destination, of s 872415233 e env "Some (pack_update_request G (moduleIdentifier env) n n)"] assms reg
    by (simp add: publish_def manager_sendRequest_def first_service at_rest_def pushAndSend_result next_request_def)
  moreover have "postSendToDestination env False ?s1 = Done () ?s2"
    using assms by (simp add: postSendToDestination_def queue_empty_def pop_def after_send_def at_rest_def Let_def)
  moreover have "handleResponse (success_response 872415233 ?code) ?s2 = Done () ?s3"
    using handleResponse_success [of "success_response 872415233 ?code" ?s2] c assms
    by (simp add: after_send_def at_rest_def map_emplace_def)
  moreover have "timers (the (removeTimer i c)) = []" and "\<not> timersLock (the (removeTimer i c))"
    using c entries by (simp_all add: removeTimer_def internalRemoveTimer_def notify_one_def op_defs)
  with assms have "at_rest e ?s3" by (simp add: at_rest_def after_send_def)
  moreover have "handedOver ?s3 = handedOver s @ [published_datagram env G e n (randCalls s)]" and "randCalls ?s3 = Suc (randCalls s)"
    by (simp_all add: after_send_def published_datagram_def next_request_def)
  ultimately show ?thesis by (intro that [of ?s3]) (simp_all add: answered_publish_def)
qed

text \<open>
  Any number k of answered iterations puts exactly k datagrams on the wire, for the endpoint of
  the service, with the coordinates n, n + 1, ... in order and a fresh draw of the transaction
  code in each; afterwards no message, datagram, timer or open code is left over.
\<close>

lemma answered_publishes_result:
  assumes "at_rest e s"
  shows "\<exists>s'. answered_publishes env G k n s = Done (n + of_nat k) s' \<and> at_rest e s' \<and>
    handedOver s' = handedOver s @ map (\<lambda>j. published_datagram env G e (n + of_nat j) (randCalls s + j)) [0..<k]"
  using assms
proof (induction k arbitrary: n s)
  case (Suc k)
  obtain s1 where s1: "answered_publish env G n s = Done (n + 1) s1" "at_rest e s1" "randCalls s1 = Suc (randCalls s)"
    "handedOver s1 = handedOver s @ [published_datagram env G e n (randCalls s)]"
    by (rule answered_publish_result [OF Suc.prems])
  have "map f [0..<Suc k] = f 0 # map (\<lambda>j. f (Suc j)) [0..<k]" for f :: "nat \<Rightarrow> 'a endpoint \<times> bytes"
    by (simp add: upt_conv_Cons map_Suc_upt [symmetric] comp_def del: upt_Suc)
  from this [of "\<lambda>j. published_datagram env G e (n + of_nat j) (randCalls s + j)"] Suc.IH [OF s1(2), of "n + 1"] s1(1,3,4)
  show ?case by (auto simp: add.assoc add.commute [of 1] simp del: upt_Suc)
qed simp

section \<open>Properties\<close>

text \<open>
  The subscribing example on a fresh server that knows the first service: its set-up returns, and
  after any datagrams have arrived, in whatever number, order and form, what it prints is one row
  for each module named in a subscription message of that service, in ascending order of the
  signed identifiers, with the coordinates of the last such message about it. Messages of other
  senders, with another payload, or that do not parse, leave no trace.
\<close>
lemma subscriber_keeps_latest:
  assumes "servicesEndpointsMap s 872415233 = Some e" and "parkedMessages s = []" and "timers_room s" and "eventsCache s = []"
    and "handlersWorld s = []"
  shows "\<exists>s1 s2. subscriber_begin (gps_env env G) G (Some True) True s = Done (messageQueue s = []) s1 \<and>
    deliver (gps_env env G) ds s1 = Done () s2 \<and> sorted_wrt (<) (map fst (gps_print (handlersWorld s2))) \<and>
    set (gps_print (handlersWorld s2)) = {(sint i, sint x, sint y) | i x y.
      map_of (rev (List.map_filter (coordinates_received env G (messageBufferLength s)) ds)) i = Some (x, y)}"
proof -
  obtain s1 where begun: "subscriber_begin (gps_env env G) G (Some True) True s = Done (messageQueue s = []) s1"
    and s1: "gps_listening s1" "messageBufferLength s1 = messageBufferLength s" "handlersWorld s1 = handlersWorld s"
    by (rule subscriber_begins [OF assms(1-4)])
  from deliver_gps [OF s1(1), of env G ds] s1(2,3) assms(5) obtain s2 where "deliver (gps_env env G) ds s1 = Done () s2"
    and "handlersWorld s2 = gps_updates (List.map_filter (coordinates_received env G (messageBufferLength s)) ds) []" by auto
  with gps_printed [of "List.map_filter (coordinates_received env G (messageBufferLength s)) ds"] begun show ?thesis
    by (intro exI [of _ s1] exI [of _ s2] conjI) simp_all
qed

end
