(* ===== verification/Locking.thy ===== *)
theory Locking
  imports Prelude
begin

text \<open>
  Threads that share mutexes, condition variables and data, at the level of what they lock, await
  and touch: a thread is the list of its next actions, any thread may act next, and a mutex lets
  one thread in. A guard maps data to the mutex that protects it, a rank orders the mutexes.
  Threads whose actions respect the guard never race on guarded data; threads that lock upwards in
  rank and notify what they announce come to rest only where each has finished or awaits a
  notification that nobody owes it.
\<close>

section \<open>Actions and runs\<close>

text \<open>
  \<open>Raise\<close> and \<open>Lower\<close> set and clear the flag of a condition, \<open>Notify\<close> wakes who sleeps on it.
  \<open>WaitFor c m\<close> is the wait with a predicate: with the mutex m held the thread looks at the flag,
  goes on when it is set, else gives m up and sleeps; when it is woken it takes m back and looks
  again. \<open>WaitNotified c m\<close> is the wait without one: the thread gives m up and sleeps in any case,
  and goes on with m when it has been woken.
\<close>

datatype ('m, 'c, 'd) action = Acquire 'm | Release 'm | Load 'd | Store 'd
  | Raise 'c | Lower 'c | Notify 'c | WaitFor 'c 'm | WaitNotified 'c 'm

type_synonym ('m, 'c, 'd) program = "('m, 'c, 'd) action list"

text \<open>Who holds each mutex, what each thread has still to do, who sleeps on what, and the flags that are set.\<close>

record ('m, 'c, 'd) threads =
  holder :: "'m \<rightharpoonup> nat"
  todo :: "('m, 'c, 'd) program list"
  asleep :: "nat \<rightharpoonup> 'c"
  flags :: "'c set"

definition starting :: "('m, 'c, 'd) program list \<Rightarrow> ('m, 'c, 'd) threads" where
  "starting ps = \<lparr>holder = Map.empty, todo = ps, asleep = Map.empty, flags = {}\<rparr>"

definition wake_all :: "'c \<Rightarrow> (nat \<rightharpoonup> 'c) \<Rightarrow> nat \<rightharpoonup> 'c" where
  "wake_all c sleepers = (\<lambda>t. if sleepers t = Some c then None else sleepers t)"

text \<open>Going on with the mutex of a wait, and giving it up to sleep.\<close>

definition go_on :: "nat \<Rightarrow> 'm \<Rightarrow> ('m, 'c, 'd) program \<Rightarrow> ('m, 'c, 'd) threads \<Rightarrow> ('m, 'c, 'd) threads" where
  "go_on t m p s = s\<lparr>todo := (todo s)[t := p], holder := (holder s)(m \<mapsto> t)\<rparr>"

definition fall_asleep :: "nat \<Rightarrow> 'c \<Rightarrow> 'm \<Rightarrow> ('m, 'c, 'd) threads \<Rightarrow> ('m, 'c, 'd) threads" where
  "fall_asleep t c m s = s\<lparr>holder := (holder s)(m := None), asleep := (asleep s)(t \<mapsto> c)\<rparr>"

text \<open>The next action of thread t; no value when it has none or has to wait.\<close>

definition act :: "nat \<Rightarrow> ('m, 'c, 'd) threads \<Rightarrow> ('m, 'c, 'd) threads option" where
  "act t s =
     (if t < length (todo s) then
        (case todo s ! t of
           [] \<Rightarrow> None
         | a # p \<Rightarrow>
            (let s' = s\<lparr>todo := (todo s)[t := p]\<rparr>;
                 may_look = (\<lambda>m. asleep s t = None \<and> (holder s m = None \<or> holder s m = Some t))
             in case a of
                  Acquire m \<Rightarrow> (if holder s m = None then Some (s'\<lparr>holder := (holder s)(m \<mapsto> t)\<rparr>) else None)
                | Release m \<Rightarrow> (if holder s m = Some t then Some (s'\<lparr>holder := (holder s)(m := None)\<rparr>) else None)
                | Load d \<Rightarrow> Some s'
                | Store d \<Rightarrow> Some s'
                | Raise c \<Rightarrow> Some (s'\<lparr>flags := insert c (flags s)\<rparr>)
                | Lower c \<Rightarrow> Some (s'\<lparr>flags := flags s - {c}\<rparr>)
                | Notify c \<Rightarrow> Some (s'\<lparr>asleep := wake_all c (asleep s)\<rparr>)
                | WaitFor c m \<Rightarrow>
                    (if \<not> may_look m then None
                     else if c \<in> flags s then Some (go_on t m p s) else Some (fall_asleep t c m s))
                | WaitNotified c m \<Rightarrow>
                    (if \<not> may_look m then None
                     else if holder s m = None then Some (go_on t m p s) else Some (fall_asleep t c m s))))
      else None)"

text \<open>A schedule names the threads in the order in which they act.\<close>

fun run_schedule :: "nat list \<Rightarrow> ('m, 'c, 'd) threads \<Rightarrow> ('m, 'c, 'd) threads option" where
  "run_schedule [] s = Some s"
| "run_schedule (t # ts) s = Option.bind (act t s) (run_schedule ts)"

definition finished :: "('m, 'c, 'd) threads \<Rightarrow> bool" where
  "finished s \<longleftrightarrow> (\<forall>p \<in> set (todo s). p = [])"

lemma run_schedule_append:
  "run_schedule (ts @ us) s = Option.bind (run_schedule ts s) (run_schedule us)"
  by (induction ts arbitrary: s) (auto split: Option.bind_split)

text \<open>The condition and the mutex of a wait, and the actions that concern no mutex.\<close>

fun waits_on :: "('m, 'c, 'd) action \<Rightarrow> ('c \<times> 'm) option" where
  "waits_on (WaitFor c m) = Some (c, m)"
| "waits_on (WaitNotified c m) = Some (c, m)"
| "waits_on _ = None"

fun lock_free :: "('m, 'c, 'd) action \<Rightarrow> bool" where
  "lock_free (Load d) \<longleftrightarrow> True"
| "lock_free (Store d) \<longleftrightarrow> True"
| "lock_free (Raise c) \<longleftrightarrow> True"
| "lock_free (Lower c) \<longleftrightarrow> True"
| "lock_free (Notify c) \<longleftrightarrow> True"
| "lock_free _ \<longleftrightarrow> False"

text \<open>What a step of no mutex does to the flags and the sleepers.\<close>

fun after_flags :: "('m, 'c, 'd) action \<Rightarrow> 'c set \<Rightarrow> 'c set" where
  "after_flags (Raise c) F = insert c F"
| "after_flags (Lower c) F = F - {c}"
| "after_flags _ F = F"

fun after_asleep :: "('m, 'c, 'd) action \<Rightarrow> (nat \<rightharpoonup> 'c) \<Rightarrow> nat \<rightharpoonup> 'c" where
  "after_asleep (Notify c) z = wake_all c z"
| "after_asleep _ z = z"

lemma act_cases:
  assumes "act t s = Some s'"
  obtains (acquire) m p where "t < length (todo s)" "todo s ! t = Acquire m # p" "holder s m = None"
      "s' = s\<lparr>todo := (todo s)[t := p], holder := (holder s)(m \<mapsto> t)\<rparr>"
  | (release) m p where "t < length (todo s)" "todo s ! t = Release m # p" "holder s m = Some t"
      "s' = s\<lparr>todo := (todo s)[t := p], holder := (holder s)(m := None)\<rparr>"
  | (access) a p where "t < length (todo s)" "todo s ! t = a # p" "lock_free a"
      "s' = s\<lparr>todo := (todo s)[t := p], flags := after_flags a (flags s), asleep := after_asleep a (asleep s)\<rparr>"
  | (proceed) a c m p where "t < length (todo s)" "todo s ! t = a # p" "waits_on a = Some (c, m)" "asleep s t = None"
      "holder s m = None \<or> holder s m = Some t" "s' = go_on t m p s"
  | (sleep) a c m p where "t < length (todo s)" "todo s ! t = a # p" "waits_on a = Some (c, m)" "asleep s t = None"
      "holder s m = None \<or> holder s m = Some t" "a = WaitFor c m \<longrightarrow> c \<notin> flags s" "s' = fall_asleep t c m s"
proof (cases "todo s ! t")
  case Nil
  with assms show ?thesis by (simp add: act_def split: if_splits)
next
  case (Cons a p)
  from assms have t: "t < length (todo s)" by (simp add: act_def split: if_splits)
  show ?thesis
  proof (cases a)
    case (Acquire m)
    with assms t Cons show ?thesis by (intro acquire) (auto simp: act_def Let_def split: if_splits)
  next
    case (Release m)
    with assms t Cons show ?thesis by (intro release) (auto simp: act_def Let_def split: if_splits)
  next
    case (WaitFor c m)
    show ?thesis
    proof (cases "c \<in> flags s")
      case True
      with assms t Cons WaitFor show ?thesis by (intro proceed [of a p c m]) (auto simp: act_def Let_def split: if_splits)
    next
      case False
      with assms t Cons WaitFor show ?thesis by (intro sleep [of a p c m]) (auto simp: act_def Let_def split: if_splits)
    qed
  next
    case (WaitNotified c m)
    show ?thesis
    proof (cases "holder s m = None")
      case True
      with assms t Cons WaitNotified show ?thesis by (intro proceed [of a p c m]) (auto simp: act_def Let_def split: if_splits)
    next
      case False
      with assms t Cons WaitNotified show ?thesis by (intro sleep [of a p c m]) (auto simp: act_def Let_def split: if_splits)
    qed
  qed (use assms t Cons in \<open>intro access [of a p]; auto simp: act_def Let_def\<close>)+
qed

section \<open>The disciplines\<close>

text \<open>
  \<open>guarded G F L p\<close>: with the mutexes L held, p touches guarded data only with its mutex held,
  releases only what is held, and holds F at its end. After a wait the thread has its mutex.
\<close>

fun guarded :: "('d \<Rightarrow> 'm option) \<Rightarrow> 'm list \<Rightarrow> 'm list \<Rightarrow> ('m, 'c, 'd) program \<Rightarrow> bool" where
  "guarded G F L [] \<longleftrightarrow> L = F"
| "guarded G F L (Acquire m # p) \<longleftrightarrow> guarded G F (m # L) p"
| "guarded G F L (Release m # p) \<longleftrightarrow> m \<in> set L \<and> guarded G F (remove1 m L) p"
| "guarded G F L (Load d # p) \<longleftrightarrow> (case G d of None \<Rightarrow> True | Some m \<Rightarrow> m \<in> set L) \<and> guarded G F L p"
| "guarded G F L (Store d # p) \<longleftrightarrow> (case G d of None \<Rightarrow> True | Some m \<Rightarrow> m \<in> set L) \<and> guarded G F L p"
| "guarded G F L (Raise c # p) \<longleftrightarrow> guarded G F L p"
| "guarded G F L (Lower c # p) \<longleftrightarrow> guarded G F L p"
| "guarded G F L (Notify c # p) \<longleftrightarrow> guarded G F L p"
| "guarded G F L (WaitFor c m # p) \<longleftrightarrow> guarded G F (m # removeAll m L) p"
| "guarded G F L (WaitNotified c m # p) \<longleftrightarrow> guarded G F (m # removeAll m L) p"

text \<open>
  \<open>ordered r L p\<close>: every mutex p locks has a higher rank than all it holds by then, and it waits
  with no other mutex than the one it gives up.
\<close>

fun ordered :: "('m \<Rightarrow> nat) \<Rightarrow> 'm list \<Rightarrow> ('m, 'c, 'd) program \<Rightarrow> bool" where
  "ordered r L [] \<longleftrightarrow> True"
| "ordered r L (Acquire m # p) \<longleftrightarrow> (\<forall>m' \<in> set L. r m' < r m) \<and> ordered r (m # L) p"
| "ordered r L (Release m # p) \<longleftrightarrow> ordered r (remove1 m L) p"
| "ordered r L (Load d # p) \<longleftrightarrow> ordered r L p"
| "ordered r L (Store d # p) \<longleftrightarrow> ordered r L p"
| "ordered r L (Raise c # p) \<longleftrightarrow> ordered r L p"
| "ordered r L (Lower c # p) \<longleftrightarrow> ordered r L p"
| "ordered r L (Notify c # p) \<longleftrightarrow> ordered r L p"
| "ordered r L (WaitFor c m # p) \<longleftrightarrow> set L \<subseteq> {m} \<and> ordered r (m # removeAll m L) p"
| "ordered r L (WaitNotified c m # p) \<longleftrightarrow> set L \<subseteq> {m} \<and> ordered r (m # removeAll m L) p"

text \<open>\<open>relocks L p\<close>: p comes to lock a mutex that it still holds.\<close>

fun relocks :: "'m list \<Rightarrow> ('m, 'c, 'd) program \<Rightarrow> bool" where
  "relocks L [] \<longleftrightarrow> False"
| "relocks L (Acquire m # p) \<longleftrightarrow> m \<in> set L \<or> relocks (m # L) p"
| "relocks L (Release m # p) \<longleftrightarrow> relocks (remove1 m L) p"
| "relocks L (Load d # p) \<longleftrightarrow> relocks L p"
| "relocks L (Store d # p) \<longleftrightarrow> relocks L p"
| "relocks L (Raise c # p) \<longleftrightarrow> relocks L p"
| "relocks L (Lower c # p) \<longleftrightarrow> relocks L p"
| "relocks L (Notify c # p) \<longleftrightarrow> relocks L p"
| "relocks L (WaitFor c m # p) \<longleftrightarrow> relocks (m # removeAll m L) p"
| "relocks L (WaitNotified c m # p) \<longleftrightarrow> relocks (m # removeAll m L) p"

text \<open>
  \<open>owes c p\<close>: p notifies c before it waits for anything. \<open>announces p\<close>: it does so whenever it has
  raised the flag of a condition.
\<close>

fun owes :: "'c \<Rightarrow> ('m, 'c, 'd) program \<Rightarrow> bool" where
  "owes c [] \<longleftrightarrow> False"
| "owes c (Notify c' # p) \<longleftrightarrow> c = c' \<or> owes c p"
| "owes c (WaitFor c' m # p) \<longleftrightarrow> False"
| "owes c (WaitNotified c' m # p) \<longleftrightarrow> False"
| "owes c (a # p) \<longleftrightarrow> owes c p"

fun announces :: "('m, 'c, 'd) program \<Rightarrow> bool" where
  "announces [] \<longleftrightarrow> True"
| "announces (Raise c # p) \<longleftrightarrow> owes c p \<and> announces p"
| "announces (a # p) \<longleftrightarrow> announces p"

text \<open>\<open>awaits p\<close>: it waits for a condition.\<close>

definition awaits :: "('m, 'c, 'd) program \<Rightarrow> bool" where
  "awaits p \<longleftrightarrow> list_ex (\<lambda>a. waits_on a \<noteq> None) p"

lemma guarded_append: "guarded G F L p \<Longrightarrow> guarded G F' F q \<Longrightarrow> guarded G F' L (p @ q)"
  by (induction G F L p rule: guarded.induct) auto

lemma guarded_concat: "\<forall>p \<in> set ps. guarded G L L p \<Longrightarrow> guarded G L L (concat ps)"
  by (induction ps) (auto intro: guarded_append)

lemma ordered_append: "guarded G F L p \<Longrightarrow> ordered r L p \<Longrightarrow> ordered r F q \<Longrightarrow> ordered r L (p @ q)"
  by (induction G F L p rule: guarded.induct) auto

lemma ordered_concat:
  "\<forall>p \<in> set ps. guarded G L L p \<and> ordered r L p \<Longrightarrow> ordered r L (concat ps)"
  by (induction ps) (auto intro: ordered_append)

lemma relocks_append: "guarded G F L p \<Longrightarrow> relocks L (p @ q) \<longleftrightarrow> relocks L p \<or> relocks F q"
  by (induction G F L p rule: guarded.induct) auto

lemma relocks_concat:
  "\<forall>p \<in> set ps. guarded G L L p \<Longrightarrow> relocks L (concat ps) \<longleftrightarrow> (\<exists>p \<in> set ps. relocks L p)"
  by (induction ps) (auto simp: relocks_append)

lemma owes_append: "owes c p \<Longrightarrow> owes c (p @ q)"
  by (induction c p rule: owes.induct) auto

lemma announces_append: "announces p \<Longrightarrow> announces q \<Longrightarrow> announces (p @ q)"
  by (induction p rule: announces.induct) (auto intro: owes_append)

lemma announces_concat: "\<forall>p \<in> set ps. announces p \<Longrightarrow> announces (concat ps)"
  by (induction ps) (auto intro: announces_append)

lemma awaits_concat: "awaits (concat ps) \<longleftrightarrow> (\<exists>p \<in> set ps. awaits p)"
  by (auto simp: awaits_def list_ex_iff)

section \<open>What a run keeps\<close>

text \<open>
  \<open>held\<close> lists the mutexes of each thread, and every thread still to run obeys the discipline D
  with them.
\<close>

definition obeying :: "('m list \<Rightarrow> ('m, 'c, 'd) program \<Rightarrow> bool) \<Rightarrow> ('m, 'c, 'd) threads \<Rightarrow> (nat \<Rightarrow> 'm list) \<Rightarrow> bool" where
  "obeying D s held \<longleftrightarrow> (\<forall>t. distinct (held t) \<and> (\<forall>m. m \<in> set (held t) \<longleftrightarrow> holder s m = Some t) \<and>
     (if t < length (todo s) then D (held t) (todo s ! t) else held t = []))"

definition obeys :: "('m list \<Rightarrow> ('m, 'c, 'd) program \<Rightarrow> bool) \<Rightarrow> ('m, 'c, 'd) threads \<Rightarrow> bool" where
  "obeys D s \<longleftrightarrow> (\<exists>held. obeying D s held)"

lemma obeyingD:
  assumes "obeying D s held"
  shows "distinct (held t)" and "m \<in> set (held t) \<longleftrightarrow> holder s m = Some t"
    and "t < length (todo s) \<Longrightarrow> D (held t) (todo s ! t)" and "length (todo s) \<le> t \<Longrightarrow> held t = []"
proof -
  from assms have h: "distinct (held t) \<and> (\<forall>m. m \<in> set (held t) \<longleftrightarrow> holder s m = Some t) \<and>
     (if t < length (todo s) then D (held t) (todo s ! t) else held t = [])"
    unfolding obeying_def by (rule spec)
  then show "distinct (held t)" and "m \<in> set (held t) \<longleftrightarrow> holder s m = Some t"
    and "t < length (todo s) \<Longrightarrow> D (held t) (todo s ! t)" and "length (todo s) \<le> t \<Longrightarrow> held t = []"
    by (simp_all split: if_splits)
qed

lemma obeysI:
  assumes "\<And>t. distinct (held t)" and "\<And>t m. m \<in> set (held t) \<longleftrightarrow> holder s m = Some t"
    and "\<And>t. t < length (todo s) \<Longrightarrow> D (held t) (todo s ! t)" and "\<And>t. length (todo s) \<le> t \<Longrightarrow> held t = []"
  shows "obeys D s"
  using assms unfolding obeys_def obeying_def by (intro exI [of _ held]) simp

lemma obeys_starting: "\<forall>p \<in> set ps. D [] p \<Longrightarrow> obeys D (starting ps)"
  by (rule obeysI [where held = "\<lambda>t. []"]) (simp_all add: starting_def)

text \<open>
  A discipline that is handed on from each action to the rest of the program; a wait is also kept
  while the thread sleeps, without its mutex.
\<close>

definition hereditary :: "('m list \<Rightarrow> ('m, 'c, 'd) program \<Rightarrow> bool) \<Rightarrow> bool" where
  "hereditary D \<longleftrightarrow> (\<forall>L m p. D L (Acquire m # p) \<longrightarrow> D (m # L) p) \<and>
     (\<forall>L m p. D L (Release m # p) \<longrightarrow> m \<in> set L \<and> D (remove1 m L) p) \<and>
     (\<forall>L a p. lock_free a \<and> D L (a # p) \<longrightarrow> D L p) \<and>
     (\<forall>L a c m p. waits_on a = Some (c, m) \<and> D L (a # p) \<longrightarrow> D (m # removeAll m L) p \<and> D (removeAll m L) (a # p))"

lemma hereditaryD:
  assumes "hereditary D"
  shows "D L (Acquire m # p) \<Longrightarrow> D (m # L) p" and "D L (Release m # p) \<Longrightarrow> D (remove1 m L) p"
    and "D L (a # p) \<Longrightarrow> lock_free a \<Longrightarrow> D L p"
    and "D L (a # p) \<Longrightarrow> waits_on a = Some (c, m) \<Longrightarrow> D (m # removeAll m L) p"
    and "D L (a # p) \<Longrightarrow> waits_on a = Some (c, m) \<Longrightarrow> D (removeAll m L) (a # p)"
  using assms unfolding hereditary_def by blast+

lemma hereditaryI:
  assumes "\<And>L m p. D L (Acquire m # p) \<Longrightarrow> D (m # L) p"
    and "\<And>L m p. D L (Release m # p) \<Longrightarrow> m \<in> set L \<and> D (remove1 m L) p"
    and "\<And>L a p. D L (a # p) \<Longrightarrow> lock_free a \<Longrightarrow> D L p"
    and "\<And>L a c m p. D L (a # p) \<Longrightarrow> waits_on a = Some (c, m) \<Longrightarrow>
      D (m # removeAll m L) p \<and> D (removeAll m L) (a # p)"
  shows "hereditary D"
  using assms unfolding hereditary_def by blast

lemma hereditary_guarded: "hereditary (guarded G [])"
proof (rule hereditaryI)
  show "guarded G [] L p" if "guarded G [] L (a # p)" "lock_free a" for L a p using that by (cases a) simp_all
  show "guarded G [] (m # removeAll m L) p \<and> guarded G [] (removeAll m L) (a # p)"
    if "guarded G [] L (a # p)" "waits_on a = Some (c, m)" for L a c m p using that by (cases a) simp_all
qed simp_all

text \<open>What a thread that comes to rest obeys.\<close>

definition calm :: "('d \<Rightarrow> 'm option) \<Rightarrow> ('m \<Rightarrow> nat) \<Rightarrow> 'm list \<Rightarrow> ('m, 'c, 'd) program \<Rightarrow> bool" where
  "calm G r L p \<longleftrightarrow> guarded G [] L p \<and> ordered r L p \<and> announces p"

lemma hereditary_calm: "hereditary (calm G r)"
proof (rule hereditaryI)
  show "calm G r L p" if "calm G r L (a # p)" "lock_free a" for L a p using that by (cases a) (simp_all add: calm_def)
  show "calm G r (m # removeAll m L) p \<and> calm G r (removeAll m L) (a # p)"
    if "calm G r L (a # p)" "waits_on a = Some (c, m)" for L a c m p using that by (cases a) (auto simp: calm_def)
qed (simp_all add: calm_def)

lemma obeys_act:
  assumes D: "hereditary D" and s: "obeys D s" and act: "act t s = Some s'"
  shows "obeys D s'"
proof -
  from s obtain held where "obeying D s held" unfolding obeys_def by blast
  note held = obeyingD [OF this]
  from act show ?thesis
  proof (cases rule: act_cases)
    case (acquire m p)
    have now: "D (m # held t) p" using held(3) [OF acquire(1)] hereditaryD(1) [OF D] unfolding acquire(2) by blast
    have free: "m \<notin> set (held u)" for u using held(2) acquire(3) by simp
    show ?thesis
    proof (rule obeysI [where held = "held(t := m # held t)"])
      show "distinct ((held(t := m # held t)) u)" for u using held(1) free by simp
      show "k \<in> set ((held(t := m # held t)) u) \<longleftrightarrow> holder s' k = Some u" for u k
        using held(2) free by (cases "k = m"; simp add: acquire(4))
      show "D ((held(t := m # held t)) u) (todo s' ! u)" if "u < length (todo s')" for u
        using held(3) [of u] now that acquire(1) by (simp add: acquire(4))
      show "(held(t := m # held t)) u = []" if "length (todo s') \<le> u" for u
        using held(4) [of u] that acquire(1) by (simp add: acquire(4))
    qed
  next
    case (release m p)
    have now: "D (remove1 m (held t)) p" using held(3) [OF release(1)] hereditaryD(2) [OF D] unfolding release(2) by blast
    show ?thesis
    proof (rule obeysI [where held = "held(t := remove1 m (held t))"])
      show "distinct ((held(t := remove1 m (held t))) u)" for u using held(1) by simp
      show "k \<in> set ((held(t := remove1 m (held t))) u) \<longleftrightarrow> holder s' k = Some u" for u k
        using held(1,2) release(3) by (cases "k = m"; simp add: release(4))
      show "D ((held(t := remove1 m (held t))) u) (todo s' ! u)" if "u < length (todo s')" for u
        using held(3) [of u] now that release(1) by (simp add: release(4))
      show "(held(t := remove1 m (held t))) u = []" if "length (todo s') \<le> u" for u
        using held(4) [of u] that release(1) by (simp add: release(4))
    qed
  next
    case (access a p)
    have now: "D (held t) p" using held(3) [OF access(1)] access(2,3) hereditaryD(3) [OF D] by metis
    show ?thesis
    proof (rule obeysI [where held = held])
      show "D (held u) (todo s' ! u)" if "u < length (todo s')" for u
        using held(3) [of u] now that access(1) by (cases "u = t"; simp add: access(4))
    qed (use held in \<open>simp_all add: access(4)\<close>)
  next
    case (proceed a c m p)
    have now: "D (m # removeAll m (held t)) p"
      using held(3) [OF proceed(1)] hereditaryD(4) [OF D _ proceed(3)] unfolding proceed(2) by blast
    have free: "m \<notin> set (held u)" if "u \<noteq> t" for u using held(2) proceed(5) that by auto
    show ?thesis
    proof (rule obeysI [where held = "held(t := m # removeAll m (held t))"])
      show "distinct ((held(t := m # removeAll m (held t))) u)" for u
        using held(1) [of u] held(1) [of t] by (auto simp: distinct_removeAll)
      show "k \<in> set ((held(t := m # removeAll m (held t))) u) \<longleftrightarrow> holder s' k = Some u" for u k
        using held(2) free by (cases "k = m"; simp add: proceed(6) go_on_def)
      show "D ((held(t := m # removeAll m (held t))) u) (todo s' ! u)" if "u < length (todo s')" for u
        using held(3) [of u] now that proceed(1) by (simp add: proceed(6) go_on_def)
      show "(held(t := m # removeAll m (held t))) u = []" if "length (todo s') \<le> u" for u
        using held(4) [of u] that proceed(1) by (simp add: proceed(6) go_on_def)
    qed
  next
    case (sleep a c m p)
    have now: "D (removeAll m (held t)) (a # p)"
      using held(3) [OF sleep(1)] hereditaryD(5) [OF D _ sleep(3)] unfolding sleep(2) by blast
    have free: "m \<notin> set (held u)" if "u \<noteq> t" for u using held(2) sleep(5) that by auto
    show ?thesis
    proof (rule obeysI [where held = "held(t := removeAll m (held t))"])
      show "distinct ((held(t := removeAll m (held t))) u)" for u using held(1) [of u] held(1) [of t] by (auto simp: distinct_removeAll)
      show "k \<in> set ((held(t := removeAll m (held t))) u) \<longleftrightarrow> holder s' k = Some u" for u k
        using held(2) free by (cases "k = m"; simp add: sleep(7) fall_asleep_def)
      show "D ((held(t := removeAll m (held t))) u) (todo s' ! u)" if "u < length (todo s')" for u
        using held(3) [of u] now that sleep(1,2) by (simp add: sleep(7) fall_asleep_def)
      show "(held(t := removeAll m (held t))) u = []" if "length (todo s') \<le> u" for u
        using held(4) [of u] that sleep(1) by (simp add: sleep(7) fall_asleep_def)
    qed
  qed
qed

lemma obeys_run: "hereditary D \<Longrightarrow> obeys D s \<Longrightarrow> run_schedule ts s = Some s' \<Longrightarrow> obeys D s'"
  by (induction ts arbitrary: s) (auto intro: obeys_act split: Option.bind_splits)

section \<open>Races\<close>

text \<open>Two threads whose next actions touch the same data, one of them to change it.\<close>

fun touches :: "('m, 'c, 'd) action \<Rightarrow> 'd \<Rightarrow> bool" where
  "touches (Load d) e \<longleftrightarrow> d = e"
| "touches (Store d) e \<longleftrightarrow> d = e"
| "touches _ e \<longleftrightarrow> False"

definition racing :: "'d \<Rightarrow> ('m, 'c, 'd) threads \<Rightarrow> bool" where
  "racing d s \<longleftrightarrow> (\<exists>t < length (todo s). \<exists>u < length (todo s). t \<noteq> u \<and>
     (\<exists>a p q. todo s ! t = Store d # p \<and> todo s ! u = a # q \<and> touches a d))"

lemma guarded_not_racing:
  assumes "obeys (guarded G []) s" and "G d = Some m"
  shows "\<not> racing d s"
proof
  assume "racing d s"
  then obtain t u a p q where tu: "t < length (todo s)" "u < length (todo s)" "t \<noteq> u"
    and heads: "todo s ! t = Store d # p" "todo s ! u = a # q" "touches a d"
    unfolding racing_def by blast
  from assms(1) obtain held where "obeying (guarded G []) s held" unfolding obeys_def by blast
  note held = obeyingD(2,3) [OF this]
  from held(2) [OF tu(1)] heads(1) assms(2) have "m \<in> set (held t)" by simp
  moreover from held(2) [OF tu(2)] heads(2,3) assms(2) have "m \<in> set (held u)" by (cases a) auto
  ultimately show False using held(1) tu(3) by auto
qed

section \<open>Coming to rest\<close>

text \<open>
  Nobody can act: each thread has made all its actions, or sleeps at a wait, with no mutex taken;
  and where it waits with a predicate, the flag is clear.
\<close>

definition resting :: "('m, 'c, 'd) threads \<Rightarrow> bool" where
  "resting s \<longleftrightarrow> (\<forall>m. holder s m = None) \<and>
     (\<forall>t < length (todo s).
        case todo s ! t of [] \<Rightarrow> True
        | a # p \<Rightarrow> (case waits_on a of None \<Rightarrow> False
            | Some (c, m) \<Rightarrow> asleep s t = Some c \<and> (a = WaitFor c m \<longrightarrow> c \<notin> flags s)))"

lemma resting_heads:
  assumes "resting s" and "p \<in> set (todo s)"
  shows "p = [] \<or> (\<exists>a \<in> set p. waits_on a \<noteq> None)"
proof (cases p)
  case (Cons a q)
  from assms(2) obtain t where t: "t < length (todo s)" "todo s ! t = p" by (auto simp: in_set_conv_nth)
  from assms(1) t(1) have "case todo s ! t of [] \<Rightarrow> True | a # p \<Rightarrow> (case waits_on a of None \<Rightarrow> False
      | Some (c, m) \<Rightarrow> asleep s t = Some c \<and> (a = WaitFor c m \<longrightarrow> c \<notin> flags s))"
    unfolding resting_def by blast
  with t(2) Cons show ?thesis by (cases "waits_on a") simp_all
qed simp

text \<open>Who sleeps does so at a wait and without its mutex; a flag it would go on with is still to be notified.\<close>

definition sleepers_wait :: "('m, 'c, 'd) threads \<Rightarrow> bool" where
  "sleepers_wait s \<longleftrightarrow> (\<forall>t c. asleep s t = Some c \<longrightarrow>
     (\<exists>a m p. t < length (todo s) \<and> todo s ! t = a # p \<and> waits_on a = Some (c, m) \<and> holder s m \<noteq> Some t))"

definition flags_owed :: "('m, 'c, 'd) threads \<Rightarrow> bool" where
  "flags_owed s \<longleftrightarrow> (\<forall>t c m p. asleep s t = Some c \<and> todo s ! t = WaitFor c m # p \<and> c \<in> flags s \<longrightarrow>
     (\<exists>u < length (todo s). owes c (todo s ! u)))"

lemma sleepers_waitD:
  assumes "sleepers_wait s" and "asleep s t = Some c"
  obtains a m p where "t < length (todo s)" and "todo s ! t = a # p" and "waits_on a = Some (c, m)" and "holder s m \<noteq> Some t"
  using assms unfolding sleepers_wait_def by blast

lemma asleep_access: "after_asleep a z t = Some c \<Longrightarrow> z t = Some c \<and> a \<noteq> Notify c"
  by (cases a) (auto simp: wake_all_def split: if_splits)

lemma sleepers_wait_act:
  assumes s: "sleepers_wait s" and act: "act t s = Some s'"
  shows "sleepers_wait s'"
proof -
  have others: "u \<noteq> t" if "asleep s u = Some c" and "todo s ! t = a # p" and "waits_on a = None" for u c a p
    using sleepers_waitD [OF s that(1)] that(2,3) by force
  show ?thesis
    unfolding sleepers_wait_def
  proof (intro allI impI)
    fix u c
    assume z: "asleep s' u = Some c"
    from act show "\<exists>a m p. u < length (todo s') \<and> todo s' ! u = a # p \<and> waits_on a = Some (c, m) \<and> holder s' m \<noteq> Some u"
    proof (cases rule: act_cases)
      case (acquire m p)
      with z have zs: "asleep s u = Some c" by simp
      with others acquire(2) have "u \<noteq> t" by force
      obtain b m1 q where "u < length (todo s)" "todo s ! u = b # q" "waits_on b = Some (c, m1)" "holder s m1 \<noteq> Some u"
        using sleepers_waitD [OF s zs] by blast
      with \<open>u \<noteq> t\<close> acquire show ?thesis by (intro exI [of _ b] exI [of _ m1] exI [of _ q]) simp
    next
      case (release m p)
      with z have zs: "asleep s u = Some c" by simp
      with others release(2) have "u \<noteq> t" by force
      obtain b m1 q where "u < length (todo s)" "todo s ! u = b # q" "waits_on b = Some (c, m1)" "holder s m1 \<noteq> Some u"
        using sleepers_waitD [OF s zs] by blast
      with \<open>u \<noteq> t\<close> release show ?thesis by (intro exI [of _ b] exI [of _ m1] exI [of _ q]) simp
    next
      case (access a p)
      with z asleep_access have zs: "asleep s u = Some c" by fastforce
      moreover have "waits_on a = None" using access(3) by (cases a) simp_all
      ultimately have "u \<noteq> t" using others access(2) by blast
      obtain b m1 q where "u < length (todo s)" "todo s ! u = b # q" "waits_on b = Some (c, m1)" "holder s m1 \<noteq> Some u"
        using sleepers_waitD [OF s zs] by blast
      with \<open>u \<noteq> t\<close> access show ?thesis by (intro exI [of _ b] exI [of _ m1] exI [of _ q]) simp
    next
      case (proceed a c' m p)
      with z have zs: "asleep s u = Some c" by (simp add: go_on_def)
      with proceed(4) have "u \<noteq> t" by auto
      obtain b m1 q where "u < length (todo s)" "todo s ! u = b # q" "waits_on b = Some (c, m1)" "holder s m1 \<noteq> Some u"
        using sleepers_waitD [OF s zs] by blast
      with \<open>u \<noteq> t\<close> proceed show ?thesis by (intro exI [of _ b] exI [of _ m1] exI [of _ q]) (simp add: go_on_def)
    next
      case (sleep a c' m p)
      show ?thesis
      proof (cases "u = t")
        case True
        with sleep z show ?thesis by (auto simp: fall_asleep_def)
      next
        case False
        with sleep z have zs: "asleep s u = Some c" by (simp add: fall_asleep_def)
        obtain b m1 q where "u < length (todo s)" "todo s ! u = b # q" "waits_on b = Some (c, m1)" "holder s m1 \<noteq> Some u"
          using sleepers_waitD [OF s zs] by blast
        with sleep(7) show ?thesis by (intro exI [of _ b] exI [of _ m1] exI [of _ q]) (simp add: fall_asleep_def)
      qed
    qed
  qed
qed

lemma owes_step: "owes c (a # p) \<Longrightarrow> a \<noteq> Notify c \<Longrightarrow> owes c p \<and> waits_on a = None"
  by (cases a) auto

lemma flags_owed_act:
  assumes s: "sleepers_wait s" and owed: "flags_owed s" and announced: "announces (todo s ! t)" and act: "act t s = Some s'"
  shows "flags_owed s'"
proof -
  have owedE: "\<exists>v < length (todo s). owes c (todo s ! v)"
    if "asleep s u = Some c" "todo s ! u = WaitFor c m # p" "c \<in> flags s" for u c m p
    using owed that unfolding flags_owed_def by blast
  have moved: "\<exists>v < length ((todo s)[t := p]). owes c ((todo s)[t := p] ! v)"
    if "v < length (todo s)" "owes c (todo s ! v)" "todo s ! t = a # p" "t < length (todo s)" "a \<noteq> Notify c" for c v a p
    using that owes_step [of c a p] by (cases "v = t") (auto intro: exI [of _ v])
  have others: "u \<noteq> t" if "asleep s u = Some c" and "todo s ! t = a # p" and "waits_on a = None" for u c a p
    using sleepers_waitD [OF s that(1)] that(2,3) by force
  show ?thesis
    unfolding flags_owed_def
  proof (intro allI impI; elim conjE)
    fix u c m q
    assume z: "asleep s' u = Some c" and wait: "todo s' ! u = WaitFor c m # q" and flag: "c \<in> flags s'"
    from act show "\<exists>v < length (todo s'). owes c (todo s' ! v)"
    proof (cases rule: act_cases)
      case (acquire m' p)
      with z have zs: "asleep s u = Some c" by simp
      with others acquire(2) have "u \<noteq> t" by force
      with wait flag acquire owedE [OF zs] moved [OF _ _ acquire(2,1)] show ?thesis by auto
    next
      case (release m' p)
      with z have zs: "asleep s u = Some c" by simp
      with others release(2) have "u \<noteq> t" by force
      with wait flag release owedE [OF zs] moved [OF _ _ release(2,1)] show ?thesis by auto
    next
      case (access a p)
      with z asleep_access [of a "asleep s" u c] have zs: "asleep s u = Some c" and other: "a \<noteq> Notify c" by auto
      have "waits_on a = None" using access(3) by (cases a) simp_all
      with others [OF zs access(2)] wait access have waits: "todo s ! u = WaitFor c m # q" by simp
      show ?thesis
      proof (cases "a = Raise c")
        case True
        with announced access have "owes c p" by simp
        with access show ?thesis by (auto intro: exI [of _ t])
      next
        case False
        with flag access(4) have "c \<in> flags s" by (cases a) auto
        with owedE [OF zs waits] moved [OF _ _ access(2,1) other] access(4) show ?thesis by auto
      qed
    next
      case (proceed a c' m' p)
      with z have zs: "asleep s u = Some c" by (simp add: go_on_def)
      with proceed(4) have "u \<noteq> t" by auto
      moreover have "a \<noteq> Notify c" using proceed(3) by auto
      ultimately show ?thesis
        using wait flag proceed owedE [OF zs] moved [OF _ _ proceed(2,1)] by (auto simp: go_on_def)
    next
      case (sleep a c' m' p)
      show ?thesis
      proof (cases "u = t")
        case True
        with sleep z wait have "a = WaitFor c m" and "c' = c" by (auto simp: fall_asleep_def)
        with sleep flag show ?thesis by (auto simp: fall_asleep_def)
      next
        case False
        with sleep z have zs: "asleep s u = Some c" by (simp add: fall_asleep_def)
        with wait flag sleep(7) owedE [OF zs] show ?thesis by (auto simp: fall_asleep_def)
      qed
    qed
  qed
qed

text \<open>
  Among the mutexes that are held, take one of the highest rank: its holder is not waiting. So when
  nobody can act no mutex is held, and who is not finished sleeps; and no flag it waits for is set,
  since nobody owes a notification.
\<close>

lemma calm_act:
  assumes held: "\<And>m. m \<in> set (held t) \<longleftrightarrow> holder s m = Some t" and calm: "calm G r (held t) (a # p)"
    and t: "t < length (todo s)" and p: "todo s ! t = a # p"
    and "\<And>m. a = Acquire m \<Longrightarrow> holder s m = None"
    and "\<And>c m. waits_on a = Some (c, m) \<Longrightarrow> asleep s t = None \<and> (holder s m = None \<or> holder s m = Some t)"
  shows "act t s \<noteq> None"
  using assms(5,6) t p calm held by (cases a) (auto simp: act_def calm_def Let_def)

lemma stuck_rests:
  assumes calm: "obeys (calm G r) s" and z: "sleepers_wait s" and owed: "flags_owed s"
    and fin: "finite {m. holder s m \<noteq> None}" and stuck: "\<And>t. act t s = None"
  shows "resting s"
proof -
  from calm obtain held where "obeying (calm G r) s held" unfolding obeys_def by blast
  note held = obeyingD(2-4) [OF this]
  have only: "set (held t) \<subseteq> {m}" if "t < length (todo s)" "todo s ! t = a # p" "waits_on a = Some (c, m)" for t a p c m
    using held(2) [OF that(1)] that(2,3) by (cases a) (auto simp: calm_def)
  have free: "{m. holder s m \<noteq> None} = {}"
  proof (rule ccontr)
    assume "{m. holder s m \<noteq> None} \<noteq> {}"
    with fin have "Max (r ` {m. holder s m \<noteq> None}) \<in> r ` {m. holder s m \<noteq> None}" by (intro Max_in) auto
    then obtain m where m: "holder s m \<noteq> None" and max: "r m = Max (r ` {m. holder s m \<noteq> None})" by (elim imageE) simp
    have top: "\<not> r m < r m'" if "holder s m' \<noteq> None" for m'
      using Max_ge [of "r ` {m. holder s m \<noteq> None}" "r m'"] fin that max by (simp add: not_less)
    from m obtain t where t: "holder s m = Some t" by blast
    with held(1) have in_held: "m \<in> set (held t)" by blast
    with held(3) have len: "t < length (todo s)" by (metis emptyE list.set(1) not_le)
    from held(2) [OF len] in_held obtain a p where p: "todo s ! t = a # p" by (cases "todo s ! t") (auto simp: calm_def)
    have "act t s \<noteq> None"
    proof (rule calm_act [where held = held and G = G and r = r, OF held(1) _ len p])
      show "calm G r (held t) (a # p)" using held(2) [OF len] p by simp
      show "holder s m' = None" if "a = Acquire m'" for m'
      proof (rule ccontr)
        assume "holder s m' \<noteq> None"
        then have "\<not> r m < r m'" by (rule top)
        with held(2) [OF len] p that in_held show False by (simp add: calm_def)
      qed
      show "asleep s t = None \<and> (holder s m' = None \<or> holder s m' = Some t)" if wait: "waits_on a = Some (c, m')" for c m'
      proof -
        from only [OF len p wait] in_held have same: "m' = m" by auto
        have "asleep s t \<noteq> Some c'" for c'
          using sleepers_waitD [OF z, of t c'] p wait same t by force
        with same t show ?thesis by auto
      qed
    qed
    with stuck [of t] show False by simp
  qed
  then have no_holder: "holder s m = None" for m by blast
  have at_rest: "case todo s ! t of [] \<Rightarrow> True
        | a # p \<Rightarrow> (case waits_on a of None \<Rightarrow> False
            | Some (c, m) \<Rightarrow> asleep s t = Some c)" if t: "t < length (todo s)" for t
  proof (cases "todo s ! t")
    case (Cons a p)
    have "\<exists>c m. waits_on a = Some (c, m) \<and> asleep s t = Some c"
    proof (rule ccontr)
      assume no: "\<not> (\<exists>c m. waits_on a = Some (c, m) \<and> asleep s t = Some c)"
      have "act t s \<noteq> None"
      proof (rule calm_act [where held = held and G = G and r = r, OF held(1) _ t Cons])
        show "calm G r (held t) (a # p)" using held(2) [OF t] Cons by simp
        show "asleep s t = None \<and> (holder s m = None \<or> holder s m = Some t)" if "waits_on a = Some (c, m)" for c m
          using no that no_holder sleepers_waitD [OF z, of t] Cons by (cases "asleep s t") force+
      qed (rule no_holder)
      with stuck [of t] show False by simp
    qed
    with Cons show ?thesis by auto
  qed simp
  have clear: "c \<notin> flags s" if at: "t < length (todo s)" "todo s ! t = WaitFor c m # p" for t c m p
  proof
    assume "c \<in> flags s"
    moreover from at_rest [OF at(1)] at(2) have "asleep s t = Some c" by simp
    ultimately obtain u where u: "u < length (todo s)" and "owes c (todo s ! u)"
      using owed at(2) unfolding flags_owed_def by blast
    with at_rest [OF u] show False by (cases "todo s ! u") (auto dest: owes_step split: option.splits elim: waits_on.elims)
  qed
  show ?thesis
    unfolding resting_def
  proof (intro conjI allI impI)
    show "case todo s ! t of [] \<Rightarrow> True
        | a # p \<Rightarrow> (case waits_on a of None \<Rightarrow> False
            | Some (c, m) \<Rightarrow> asleep s t = Some c \<and> (a = WaitFor c m \<longrightarrow> c \<notin> flags s))"
      if t: "t < length (todo s)" for t
      using at_rest [OF t] clear [OF t] by (auto split: list.splits option.splits)
  qed (rule no_holder)
qed

text \<open>Every action makes the rest of the way shorter: a thread that falls asleep has to be woken by another.\<close>

definition remaining :: "('m, 'c, 'd) threads \<Rightarrow> nat" where
  "remaining s = sum_list (map length (todo s))"

definition awake :: "('m, 'c, 'd) threads \<Rightarrow> nat set" where
  "awake s = {t. t < length (todo s) \<and> asleep s t = None}"

definition effort :: "('m, 'c, 'd) threads \<Rightarrow> nat" where
  "effort s = Suc (length (todo s)) * remaining s + card (awake s)"

lemma sum_list_update_less:
  assumes "t < length ps" and "ps ! t = a # p"
  shows "Suc (sum_list (map length (ps[t := p]))) = sum_list (map length ps)"
  using assms
proof (induction ps arbitrary: t)
  case (Cons x ps)
  then show ?case by (cases t) auto
qed simp

lemma card_awake: "card (awake s) \<le> length (todo s)"
  using card_mono [of "{..<length (todo s)}" "awake s"] by (auto simp: awake_def)

lemma act_effort:
  assumes "act t s = Some s'"
  shows "effort s' < effort s \<and> length (todo s') = length (todo s)"
proof -
  have shorter: "effort s' < effort s" if "todo s' = (todo s)[t := p]" "t < length (todo s)" "todo s ! t = a # p" for a p
  proof -
    from that have "Suc (remaining s') = remaining s" and "length (todo s') = length (todo s)"
      by (simp_all add: remaining_def sum_list_update_less)
    then have "effort s = Suc (length (todo s)) + Suc (length (todo s)) * remaining s' + card (awake s)"
      by (simp add: effort_def flip: \<open>Suc (remaining s') = remaining s\<close>)
    with card_awake [of s'] \<open>length (todo s') = length (todo s)\<close> show ?thesis by (simp add: effort_def)
  qed
  from assms show ?thesis
  proof (cases rule: act_cases)
    case (sleep a c m p)
    then have "awake s' = awake s - {t}" and "t \<in> awake s" by (auto simp: awake_def fall_asleep_def)
    then have "card (awake s') < card (awake s)" by (metis card_Diff1_less awake_def finite_Collect_conjI finite_Collect_less_nat)
    with sleep(7) show ?thesis by (simp add: effort_def remaining_def fall_asleep_def)
  qed (use shorter in \<open>auto simp: go_on_def\<close>)
qed

lemma calm_step:
  assumes "obeys (calm G r) s" and "sleepers_wait s" and "flags_owed s" and "act t s = Some s'"
  shows "obeys (calm G r) s' \<and> sleepers_wait s' \<and> flags_owed s'"
proof -
  from assms(4) have "t < length (todo s)" by (simp add: act_def split: if_splits)
  with assms(1) have "announces (todo s ! t)" unfolding obeys_def obeying_def calm_def by metis
  with assms show ?thesis using obeys_act [OF hereditary_calm] sleepers_wait_act flags_owed_act by blast
qed

lemma calm_run:
  "run_schedule ts s = Some s' \<Longrightarrow> obeys (calm G r) s \<Longrightarrow> sleepers_wait s \<Longrightarrow> flags_owed s \<Longrightarrow>
    obeys (calm G r) s' \<and> sleepers_wait s' \<and> flags_owed s'"
proof (induction ts arbitrary: s)
  case (Cons t ts)
  then obtain u where u: "act t s = Some u" and "run_schedule ts u = Some s'" by (auto split: Option.bind_splits)
  with Cons.IH [of u] calm_step [OF Cons.prems(2-4) u] show ?case by blast
qed simp

lemma comes_to_rest:
  assumes "obeys (calm G r) s" and "sleepers_wait s" and "flags_owed s" and "finite (UNIV :: 'm set)"
  shows "\<exists>ts s'. run_schedule ts (s :: ('m, 'c, 'd) threads) = Some s' \<and> resting s'"
  using assms(1-3)
proof (induction "effort s" arbitrary: s rule: less_induct)
  case less
  have "finite {m. holder s m \<noteq> None}" using assms(4) by (rule rev_finite_subset) simp
  then have "resting s" if "\<And>t. act t s = None" using stuck_rests [OF less.prems] that by blast
  then consider "resting s" | t u where "act t s = Some u" by (metis option.exhaust)
  then show ?case
  proof cases
    case 1
    then show ?thesis by (intro exI [of _ "[]"]) simp
  next
    case (2 t u)
    with less.hyps [of u] act_effort [OF 2] calm_step [OF less.prems 2]
    obtain ts s' where "run_schedule ts u = Some s'" and "resting s'" by blast
    with 2 show ?thesis by (intro exI [of _ "t # ts"] exI [of _ s']) simp
  qed
qed

lemma run_effort: "run_schedule ts s = Some s' \<Longrightarrow> length ts + effort s' \<le> effort s"
proof (induction ts arbitrary: s)
  case (Cons t ts)
  then obtain u where u: "act t s = Some u" and "run_schedule ts u = Some s'" by (auto split: Option.bind_splits)
  with Cons.IH [of u] act_effort [OF u] show ?case by simp
qed simp

lemma resting_stuck:
  assumes "resting s"
  shows "act t s = None"
proof (cases "t < length (todo s)")
  case True
  with assms have "case todo s ! t of [] \<Rightarrow> True | a # p \<Rightarrow> (case waits_on a of None \<Rightarrow> False
      | Some (c, m) \<Rightarrow> asleep s t = Some c \<and> (a = WaitFor c m \<longrightarrow> c \<notin> flags s))"
    unfolding resting_def by blast
  then show ?thesis by (cases "todo s ! t"; cases "hd (todo s ! t)") (simp_all add: act_def)
qed (simp add: act_def)

section \<open>A thread that waits for itself\<close>

text \<open>Thread t holds at least L, and comes to lock one of its own mutexes again.\<close>

definition doomed :: "nat \<Rightarrow> ('m, 'c, 'd) threads \<Rightarrow> bool" where
  "doomed t s \<longleftrightarrow> (\<exists>L. distinct L \<and> (\<forall>m \<in> set L. holder s m = Some t) \<and> t < length (todo s) \<and> relocks L (todo s ! t))"

lemma doomed_not_finished: "doomed t s \<Longrightarrow> \<not> finished s"
  unfolding doomed_def finished_def by (metis nth_mem relocks.simps(1))

lemma doomed_starting: "t < length ps \<Longrightarrow> relocks [] (ps ! t) \<Longrightarrow> doomed t (starting ps)"
  unfolding doomed_def by (intro exI [of _ "[]"]) (simp add: starting_def)

lemma doomed_act:
  assumes "doomed t s" and "act u s = Some s'"
  shows "doomed t s'"
proof -
  from assms(1) obtain L where L: "distinct L" "\<forall>m \<in> set L. holder s m = Some t" "t < length (todo s)"
    "relocks L (todo s ! t)" unfolding doomed_def by blast
  have doomedI: "doomed t s'" if "distinct K" "\<forall>m \<in> set K. holder s' m = Some t" "t < length (todo s')"
    "relocks K (todo s' ! t)" for K
    using that unfolding doomed_def by blast
  from assms(2) show ?thesis
  proof (cases rule: act_cases)
    case (acquire m p)
    have new: "m \<notin> set L" using L(2) acquire(3) by auto
    show ?thesis
    proof (cases "u = t")
      case True
      with L new acquire show ?thesis by (intro doomedI [of "m # L"]) auto
    next
      case False
      with L new acquire show ?thesis by (intro doomedI [of L]) auto
    qed
  next
    case (release m p)
    show ?thesis
    proof (cases "u = t")
      case True
      with L release show ?thesis by (intro doomedI [of "remove1 m L"]) auto
    next
      case False
      with L release show ?thesis by (intro doomedI [of L]) auto
    qed
  next
    case (access a p)
    have next_relocks: "relocks L p" if "relocks L (a # p)" using access(3) that by (cases a) simp_all
    with L next_relocks access show ?thesis by (intro doomedI [of L]; cases "u = t") auto
  next
    case (proceed a c m p)
    have next_relocks: "relocks (m # removeAll m L) p" if "relocks L (a # p)" using proceed(3) that by (cases a) simp_all
    show ?thesis
    proof (cases "u = t")
      case True
      with L next_relocks proceed show ?thesis
        by (intro doomedI [of "m # removeAll m L"]) (auto simp: go_on_def distinct_removeAll)
    next
      case False
      with L proceed show ?thesis by (intro doomedI [of L]) (auto simp: go_on_def)
    qed
  next
    case (sleep a c m p)
    have same: "relocks (removeAll m L) (a # p)" if "relocks L (a # p)" using sleep(3) that by (cases a) simp_all
    show ?thesis
    proof (cases "u = t")
      case True
      with L same sleep show ?thesis
        by (intro doomedI [of "removeAll m L"]) (auto simp: fall_asleep_def distinct_removeAll)
    next
      case False
      with L sleep show ?thesis by (intro doomedI [of L]) (auto simp: fall_asleep_def)
    qed
  qed
qed

lemma doomed_run: "doomed t s \<Longrightarrow> run_schedule ts s = Some s' \<Longrightarrow> \<not> finished s'"
proof (induction ts arbitrary: s)
  case Nil
  then show ?case by (auto dest: doomed_not_finished)
next
  case (Cons u ts)
  then show ?case by (auto split: Option.bind_splits intro: doomed_act)
qed

section \<open>Data that is never stored\<close>

lemma update_suffix:
  assumes "p \<in> set (ps[t := r])" and "t < length ps" and "ps ! t = a # r"
  shows "\<exists>q \<in> set ps. set p \<subseteq> set q"
proof (cases "p = r")
  case True
  with assms nth_mem [OF assms(2)] show ?thesis by (intro bexI [of _ "ps ! t"]) auto
next
  case False
  with assms set_update_subset_insert [of ps t r] show ?thesis by blast
qed

lemma act_suffix:
  assumes "act t s = Some s'" and "p \<in> set (todo s')"
  shows "\<exists>q \<in> set (todo s). set p \<subseteq> set q"
  using assms(1)
proof (cases rule: act_cases)
  case (proceed a c m r)
  with assms(2) update_suffix [of p "todo s" t r a] show ?thesis by (simp add: go_on_def)
next
  case (sleep a c m r)
  with assms(2) show ?thesis by (auto simp: fall_asleep_def)
qed (use assms(2) update_suffix [of p "todo s" t] in \<open>simp add: go_on_def; blast\<close>)+

lemma run_suffix:
  "run_schedule ts s = Some s' \<Longrightarrow> p \<in> set (todo s') \<Longrightarrow> \<exists>q \<in> set (todo s). set p \<subseteq> set q"
proof (induction ts arbitrary: s)
  case (Cons t ts)
  then obtain u where u: "act t s = Some u" and "run_schedule ts u = Some s'" by (auto split: Option.bind_splits)
  with Cons.IH [of u] Cons.prems(2) obtain q where "q \<in> set (todo u)" and "set p \<subseteq> set q" by blast
  with act_suffix [OF u this(1)] show ?case by blast
qed auto

lemma never_stored:
  assumes "\<forall>p \<in> set ps. Store d \<notin> set p" and "run_schedule ts (starting ps) = Some s"
  shows "\<not> racing d s"
proof
  assume "racing d s"
  then obtain t p where t: "t < length (todo s)" and p: "todo s ! t = Store d # p" unfolding racing_def by blast
  with run_suffix [OF assms(2) nth_mem [OF t]] assms(1) show False by (auto simp: starting_def)
qed

section \<open>A program that obeys its discipline\<close>

text \<open>Threads that each make a sequence of calls.\<close>

definition calling :: "('a \<Rightarrow> ('m, 'c, 'd) program) \<Rightarrow> 'a list list \<Rightarrow> ('m, 'c, 'd) threads" where
  "calling actions css = starting (map (\<lambda>cs. concat (map actions cs)) css)"

text \<open>
  The operations of a program: each respects the guard from no mutex to no mutex and notifies what
  it raises. \<open>upward\<close> are those among them that lock upwards in rank.
\<close>

locale lock_discipline =
  fixes guard :: "'d \<Rightarrow> 'm::finite option" and rank :: "'m \<Rightarrow> nat"
    and actions_of :: "'a \<Rightarrow> ('m, 'c, 'd) program" and upward :: "'a \<Rightarrow> bool"
  assumes respects: "guarded guard [] [] (actions_of a)"
    and climbs: "upward a \<Longrightarrow> ordered rank [] (actions_of a)"
    and relocks_unless: "\<not> upward a \<Longrightarrow> relocks [] (actions_of a)"
    and announced: "announces (actions_of a)"
begin

lemma thread_guarded: "guarded guard [] [] (concat (map actions_of cs))"
  by (rule guarded_concat) (simp add: respects)

lemma no_race:
  assumes "run_schedule ts (calling actions_of css) = Some s" and "guard d = Some m"
  shows "\<not> racing d s"
proof -
  have "obeys (guarded guard []) (calling actions_of css)"
    unfolding calling_def by (rule obeys_starting) (simp add: thread_guarded)
  from guarded_not_racing [OF obeys_run [OF hereditary_guarded this assms(1)] assms(2)] show ?thesis .
qed

lemma all_calm:
  assumes "\<forall>cs \<in> set css. \<forall>a \<in> set cs. upward a" and "run_schedule ts (calling actions_of css) = Some s"
  shows "obeys (calm guard rank) s \<and> sleepers_wait s \<and> flags_owed s"
proof (rule calm_run [OF assms(2)])
  have "calm guard rank [] (concat (map actions_of cs))" if "cs \<in> set css" for cs
    unfolding calm_def
  proof (intro conjI)
    show "ordered rank [] (concat (map actions_of cs))"
      by (rule ordered_concat [where G = guard]) (use assms(1) that respects climbs in auto)
    show "announces (concat (map actions_of cs))" by (rule announces_concat) (simp add: announced)
  qed (rule thread_guarded)
  then show "obeys (calm guard rank) (calling actions_of css)"
    unfolding calling_def by (intro obeys_starting) simp
qed (simp_all add: calling_def starting_def sleepers_wait_def flags_owed_def)

lemma stuck_only_at_rest:
  assumes "\<forall>cs \<in> set css. \<forall>a \<in> set cs. upward a" and "run_schedule ts (calling actions_of css) = Some s"
    and "\<forall>t. act t s = None"
  shows "resting s"
  using all_calm [OF assms(1,2)] assms(3) by (intro stuck_rests [where G = guard and r = rank]) simp_all

lemma all_come_to_rest:
  assumes "\<forall>cs \<in> set css. \<forall>a \<in> set cs. upward a" and "run_schedule ts (calling actions_of css) = Some s"
  shows "\<exists>us s'. run_schedule us s = Some s' \<and> resting s'"
  using all_calm [OF assms] by (intro comes_to_rest [where G = guard and r = rank]) simp_all

lemma rest_without_waits:
  assumes "\<forall>cs \<in> set css. \<forall>a \<in> set cs. \<not> awaits (actions_of a)"
    and "run_schedule ts (calling actions_of css) = Some s" and "resting s"
  shows "finished s"
  unfolding finished_def
proof
  fix p
  assume p: "p \<in> set (todo s)"
  from assms(3) p have "p = [] \<or> (\<exists>a \<in> set p. waits_on a \<noteq> None)"
    by (rule resting_heads)
  moreover from run_suffix [OF assms(2) p] obtain cs where "cs \<in> set css" and "set p \<subseteq> set (concat (map actions_of cs))"
    unfolding calling_def starting_def by auto
  moreover from \<open>cs \<in> set css\<close> assms(1) have "\<not> awaits (concat (map actions_of cs))" by (simp add: awaits_concat)
  ultimately show "p = []" unfolding awaits_def list_ex_iff by blast
qed

lemma none_finishes:
  assumes "cs \<in> set css" and "a \<in> set cs" and "\<not> upward a"
    and "run_schedule ts (calling actions_of css) = Some s"
  shows "\<not> finished s"
proof -
  from assms(1) obtain t where t: "t < length css" and "css ! t = cs" by (auto simp: in_set_conv_nth)
  moreover have "relocks [] (concat (map actions_of cs))"
    using relocks_concat [of "map actions_of cs" guard "[]"] respects relocks_unless assms(2,3) by auto
  ultimately have "doomed t (calling actions_of css)" unfolding calling_def by (intro doomed_starting) simp_all
  with assms(4) show ?thesis using doomed_run by blast
qed

end

end
