(* ===== verification/Lock_Usage.thy ===== *)
theory Lock_Usage
  imports Locking
begin

text \<open>
  What each operation of the module locks and touches, as the sequence of its actions, for every
  path through its code: the data that several threads share are the timers, the message queues
  of the server and of the watchdog connection with their front elements, the state of that
  connection, its socket and its timer, the socket of the server, the map of transaction codes, the handlers of
  events. Atomics (isModuleRunning, sendingInProgress, the status of a timer) are left out, and so
  is what only completion handlers use. A wait without a time limit sleeps until it is notified; a
  wait with one ends by itself, so it only gives its mutex up and takes it again. The thread that
  std::async starts for a callback acts in the place of the thread that waits for it, which holds
  timersLock. notify_one wakes whoever sleeps: on timersInvoked that is the timers thread alone, and
  the changes of the connection state use notify_all.
\<close>

section \<open>Mutexes, conditions and data\<close>

datatype module_mutex = TimersLock | QueueLock | TcpQueueLock | ConnectionStateLock

instantiation module_mutex :: finite
begin
instance
proof
  have "(UNIV :: module_mutex set) \<subseteq> {TimersLock, QueueLock, TcpQueueLock, ConnectionStateLock}"
    using module_mutex.exhaust by blast
  then show "finite (UNIV :: module_mutex set)" by (rule finite_subset) simp
qed
end

text \<open>timersInvoked with its flag timersInvokedStatus, and connectionStateCondition, which has none.\<close>

datatype module_condition = TimersInvoked | StateChanged

datatype shared_data = TimersData | QueueData | TcpQueueData | StateData
  | FrontMessage | TcpFrontMessage | TransactionCodes | EventHandlers | UdpSocket | TcpSocket
  | TcpTimer | Endpoints | ParkedMessages

type_synonym actions = "(module_mutex, module_condition, shared_data) program"

text \<open>Each of the classes with a mutex puts its own data behind it.\<close>

fun mutex_of :: "shared_data \<Rightarrow> module_mutex option" where
  "mutex_of TimersData = Some TimersLock"
| "mutex_of QueueData = Some QueueLock"
| "mutex_of TcpQueueData = Some TcpQueueLock"
| "mutex_of StateData = Some ConnectionStateLock"
| "mutex_of _ = None"

text \<open>timersLock is the only mutex under which another is taken.\<close>

fun lock_rank :: "module_mutex \<Rightarrow> nat" where
  "lock_rank TimersLock = 0"
| "lock_rank _ = 1"

section \<open>Message queues\<close>

definition push_actions :: "module_mutex \<Rightarrow> shared_data \<Rightarrow> actions" where
  "push_actions queueLock queue = [Acquire queueLock, Store queue, Load queue, Release queueLock]"

text \<open>front, size and empty; the reference that front returns is used after it.\<close>

definition look_actions :: "module_mutex \<Rightarrow> shared_data \<Rightarrow> actions" where
  "look_actions queueLock queue = [Acquire queueLock, Load queue, Release queueLock]"

definition pop_actions :: "module_mutex \<Rightarrow> shared_data \<Rightarrow> shared_data \<Rightarrow> actions" where
  "pop_actions queueLock queue front = [Acquire queueLock, Store queue, Store front, Release queueLock]"

section \<open>The timer cache\<close>

text \<open>registerTimer, and removeTimer, which stores, raises the flag and notifies only when it finds the timer.\<close>

definition registerTimer_actions :: actions where
  "registerTimer_actions =
     [Acquire TimersLock, Load TimersData, Store TimersData, Raise TimersInvoked, Release TimersLock,
      Notify TimersInvoked]"

definition removeTimer_actions :: "bool \<Rightarrow> actions" where
  "removeTimer_actions found =
     [Acquire TimersLock, Load TimersData] @ (if found then [Store TimersData, Raise TimersInvoked] else []) @
     [Release TimersLock] @ (if found then [Notify TimersInvoked] else [])"

definition nextExpiration_actions :: actions where
  "nextExpiration_actions = [Acquire TimersLock, Load TimersData, Release TimersLock]"

text \<open>waitForNextExpiration, which ends at its deadline at the latest, after any number of wake-ups that find the flag clear.\<close>

definition waitForNextExpiration_actions :: "nat \<Rightarrow> actions" where
  "waitForNextExpiration_actions wakeups =
     [Acquire TimersLock, Load TimersData] @
     concat (replicate wakeups [Release TimersLock, Acquire TimersLock, Load TimersData]) @
     [Lower TimersInvoked, Store TimersData, Release TimersLock]"

text \<open>waitForInvoke, which ends only with the flag set.\<close>

definition waitForInvoke_actions :: actions where
  "waitForInvoke_actions =
     [Acquire TimersLock, Load TimersData, WaitFor TimersInvoked TimersLock, Load TimersData,
      Lower TimersInvoked, Store TimersData, Release TimersLock]"

text \<open>restartRepeatableTimers and removeEndedTimers.\<close>

definition sweep_actions :: "bool \<Rightarrow> actions" where
  "sweep_actions changed =
     [Acquire TimersLock, Load TimersData] @ (if changed then [Store TimersData] else []) @ [Release TimersLock]"

section \<open>The server\<close>

definition startTimerToResend_actions :: actions where
  "startTimerToResend_actions = [Load FrontMessage] @ registerTimer_actions @ [Load TransactionCodes, Store TransactionCodes]"

definition sendToDestination_actions :: actions where
  "sendToDestination_actions = [Load FrontMessage, Store UdpSocket]"

definition send_actions :: actions where
  "send_actions = look_actions QueueLock QueueData @ startTimerToResend_actions @ [Load FrontMessage] @ sendToDestination_actions"

text \<open>The end that the three senders share; \<open>alone\<close>: the queue has only the pushed message.\<close>

definition pushAndSend_actions :: "bool \<Rightarrow> actions" where
  "pushAndSend_actions alone =
     push_actions QueueLock QueueData @ look_actions QueueLock QueueData @ (if alone then send_actions else [])"

text \<open>
  sendRequest and sendSubscribeRequest, which draw a transaction code, and sendRequest of a
  ready message, which does not. \<open>found\<close>: the map or the database has the service.
\<close>

definition sendRequest_actions :: "bool \<Rightarrow> bool \<Rightarrow> actions" where
  "sendRequest_actions found alone =
     [Load Endpoints] @ (if found then [Load ParkedMessages] @ pushAndSend_actions alone else [])"

definition sendRequestMessage_actions :: "bool \<Rightarrow> bool \<Rightarrow> actions" where
  "sendRequestMessage_actions found alone = [Load Endpoints] @ (if found then pushAndSend_actions alone else [])"

definition postSend_actions :: "bool \<Rightarrow> bool \<Rightarrow> actions" where
  "postSend_actions error again =
     (if error then []
      else pop_actions QueueLock QueueData FrontMessage @ look_actions QueueLock QueueData @
           (if again then send_actions else []))"

text \<open>The lambda of startTimerToResend; \<open>known\<close>: the map has the transaction code.\<close>

definition resendMessage_actions :: "bool \<Rightarrow> bool \<Rightarrow> bool \<Rightarrow> actions" where
  "resendMessage_actions known found alone =
     [Load TransactionCodes] @ (if known then [Store TransactionCodes] else []) @ sendRequestMessage_actions found alone"

definition handleResponse_actions :: "bool \<Rightarrow> bool \<Rightarrow> bool \<Rightarrow> actions" where
  "handleResponse_actions success known found =
     (if success then
        [Load TransactionCodes] @ (if known then removeTimer_actions found @ [Store TransactionCodes] else [])
      else [])"

definition runRequestsHandlers_actions :: actions where
  "runRequestsHandlers_actions = [Load EventHandlers]"

definition addEvent_actions :: actions where
  "addEvent_actions = [Store EventHandlers]"

text \<open>The completion of a receive: an error, or the next receive and what the message asks for.\<close>

datatype received = Receive_error | Unreadable | A_request | A_response bool bool bool

definition postReceive_actions :: "received \<Rightarrow> actions" where
  "postReceive_actions r =
     (case r of
        Receive_error \<Rightarrow> []
      | Unreadable \<Rightarrow> [Store UdpSocket]
      | A_request \<Rightarrow> [Store UdpSocket] @ runRequestsHandlers_actions
      | A_response success known found \<Rightarrow> [Store UdpSocket] @ handleResponse_actions success known found)"

section \<open>The round of the timers thread\<close>

text \<open>
  What the callbacks of the timers that are due do, one after the other: the server's resends, and
  what a callback of the user's program does through the managers, which is to send a request, to
  register a timer, to remove one or to register a handler; or it leaves the module alone.
\<close>

datatype callback_path = Resends bool bool bool | Requests bool bool
  | Registers | Removes bool | Adds_handler | Leaves_module_alone

definition callback_actions :: "callback_path \<Rightarrow> actions" where
  "callback_actions cb =
     (case cb of
        Resends known found alone \<Rightarrow> resendMessage_actions known found alone
      | Requests found alone \<Rightarrow> sendRequest_actions found alone
      | Registers \<Rightarrow> registerTimer_actions
      | Removes found \<Rightarrow> removeTimer_actions found
      | Adds_handler \<Rightarrow> addEvent_actions
      | Leaves_module_alone \<Rightarrow> [])"

definition triggerExpiredTimers_actions :: "callback_path list \<Rightarrow> actions" where
  "triggerExpiredTimers_actions cbs =
     [Acquire TimersLock, Load TimersData] @ concat (map callback_actions cbs) @ [Release TimersLock]"

text \<open>\<open>armed\<close>: the cache has a timer, so the wait has a deadline.\<close>

definition timers_wait_actions :: "bool \<Rightarrow> nat \<Rightarrow> actions" where
  "timers_wait_actions armed wakeups = (if armed then waitForNextExpiration_actions wakeups else waitForInvoke_actions)"

definition timers_round_actions :: "bool \<Rightarrow> nat \<Rightarrow> callback_path list \<Rightarrow> bool \<Rightarrow> bool \<Rightarrow> actions" where
  "timers_round_actions armed wakeups cbs restarted removed =
     nextExpiration_actions @ timers_wait_actions armed wakeups @
     triggerExpiredTimers_actions cbs @ sweep_actions restarted @ sweep_actions removed"

section \<open>The watchdog connection\<close>

definition getConnectionState_actions :: actions where
  "getConnectionState_actions = [Acquire ConnectionStateLock, Load StateData, Release ConnectionStateLock]"

definition setConnectionState_actions :: actions where
  "setConnectionState_actions =
     [Acquire ConnectionStateLock, Store StateData, Release ConnectionStateLock, Notify StateChanged]"

text \<open>
  timedWaitForConnection, which ends after its ten seconds at the latest, and
  waitForConnectionStateChange, which sleeps until it is notified or wakes without a reason.
\<close>

definition timedWaitForConnection_actions :: actions where
  "timedWaitForConnection_actions =
     [Acquire ConnectionStateLock, Release ConnectionStateLock, Acquire ConnectionStateLock, Load StateData,
      Release ConnectionStateLock]"

definition waitForConnectionStateChange_actions :: "bool \<Rightarrow> actions" where
  "waitForConnectionStateChange_actions spurious =
     [Acquire ConnectionStateLock] @
     (if spurious then [Release ConnectionStateLock, Acquire ConnectionStateLock]
      else [WaitNotified StateChanged ConnectionStateLock]) @
     [Load StateData, Release ConnectionStateLock]"

definition setTimerExpiration_actions :: actions where
  "setTimerExpiration_actions = [Store TcpTimer]"

definition writeMessageHeader_actions :: actions where
  "writeMessageHeader_actions = [Load TcpSocket] @ look_actions TcpQueueLock TcpQueueData @ [Load TcpFrontMessage, Store TcpSocket]"

definition writeMessageBody_actions :: actions where
  "writeMessageBody_actions =
     look_actions TcpQueueLock TcpQueueData @ [Load TcpFrontMessage] @ look_actions TcpQueueLock TcpQueueData @
     [Load TcpFrontMessage, Store TcpSocket]"

text \<open>\<open>starts\<close>: the socket is there and open, and nobody is sending.\<close>

definition sendMessage_actions :: "bool \<Rightarrow> actions" where
  "sendMessage_actions starts =
     push_actions TcpQueueLock TcpQueueData @ [Load TcpSocket] @ (if starts then writeMessageHeader_actions else [])"

definition disconnect_actions :: "bool \<Rightarrow> bool \<Rightarrow> actions" where
  "disconnect_actions open connected =
     [Load TcpSocket] @ (if open then [Store TcpSocket] else []) @ getConnectionState_actions @
     (if connected then setConnectionState_actions else [])"

text \<open>
  The completion of a body and of a header; \<open>open\<close> and \<open>connected\<close>: what disconnect finds after
  an error, \<open>again\<close>: the queue is not empty after the pop.
\<close>

definition after_pop_actions :: "bool \<Rightarrow> actions" where
  "after_pop_actions again =
     pop_actions TcpQueueLock TcpQueueData TcpFrontMessage @ look_actions TcpQueueLock TcpQueueData @
     (if again then writeMessageHeader_actions else [])"

definition postWriteMessageBody_actions :: "bool \<Rightarrow> bool \<Rightarrow> bool \<Rightarrow> bool \<Rightarrow> actions" where
  "postWriteMessageBody_actions error open connected again =
     (if error then disconnect_actions open connected else after_pop_actions again)"

definition postWriteMessageHeader_actions :: "bool \<Rightarrow> bool \<Rightarrow> bool \<Rightarrow> bool \<Rightarrow> bool \<Rightarrow> bool \<Rightarrow> actions" where
  "postWriteMessageHeader_actions error open connected complete empty_body again =
     (if error then disconnect_actions open connected
      else if \<not> complete then writeMessageHeader_actions
      else look_actions TcpQueueLock TcpQueueData @ [Load TcpFrontMessage] @
           (if empty_body then after_pop_actions again else writeMessageBody_actions))"

definition closeSocket_actions :: "bool \<Rightarrow> actions" where
  "closeSocket_actions open = [Load TcpSocket] @ (if open then [Store TcpSocket] else [])"

definition makeNewSocket_actions :: actions where
  "makeNewSocket_actions = [Store TcpSocket]"

definition connect_actions :: actions where
  "connect_actions = [Load TcpSocket, Store TcpSocket]"

text \<open>The completions of a read: the next read is started on the socket once the message is handled.\<close>

datatype watchdog_says = Connect_answer bool | Ping_answer bool | Other_answer

definition handleReceivedMessage_actions :: "watchdog_says \<Rightarrow> actions" where
  "handleReceivedMessage_actions answer =
     (case answer of
        Connect_answer connected \<Rightarrow> getConnectionState_actions @ (if connected then [] else setConnectionState_actions)
      | Ping_answer right \<Rightarrow> (if right then setTimerExpiration_actions else [])
      | Other_answer \<Rightarrow> [])"

definition postReadMessageHeader_actions :: "bool \<Rightarrow> bool \<Rightarrow> bool \<Rightarrow> bool \<Rightarrow> actions" where
  "postReadMessageHeader_actions error open connected body_follows =
     (if error then disconnect_actions open connected else if body_follows then [Store TcpSocket] else [])"

definition postReadMessageBody_actions :: "bool \<Rightarrow> bool \<Rightarrow> bool \<Rightarrow> watchdog_says \<Rightarrow> actions" where
  "postReadMessageBody_actions error open connected answer =
     (if error then disconnect_actions open connected else handleReceivedMessage_actions answer @ [Store TcpSocket])"

text \<open>What waitForRegisterToWatchdog does.\<close>

definition waitForRegister_actions :: "bool \<Rightarrow> actions" where
  "waitForRegister_actions answered =
     timedWaitForConnection_actions @ (if answered then setTimerExpiration_actions else [])"

text \<open>One turn of the loop of reconnectToWatchdog, with connectModuleToWatchdog.\<close>

definition reconnect_actions :: "bool \<Rightarrow> bool \<Rightarrow> bool \<Rightarrow> bool \<Rightarrow> actions" where
  "reconnect_actions connects starts answered open =
     [Load TcpSocket] @ makeNewSocket_actions @ connect_actions @
     (if connects then
        sendMessage_actions starts @ timedWaitForConnection_actions @ (if answered then setTimerExpiration_actions else closeSocket_actions open)
      else closeSocket_actions open)"

section \<open>The calls of the threads\<close>

text \<open>
  Any of them on any thread: the handlers of the io_context run on the io thread and, in
  moduleShutdownHandler, on the main thread too; the timers thread makes rounds; the watcher
  reconnects; the user's program and its handlers send, register and remove. The main thread that
  shuts the module down sends its request, runs completions and announces the new state.
\<close>

datatype module_call =
    Send_request bool bool
  | Register_timer
  | Remove_timer bool
  | Register_handler
  | Sent bool bool
  | Received received
  | Timers_round bool nat "callback_path list" bool bool
  | Send_to_watchdog bool
  | Header_written bool bool bool bool bool bool
  | Body_written bool bool bool bool
  | Header_read bool bool bool bool
  | Body_read bool bool bool watchdog_says
  | Await_state bool
  | Await_registration bool
  | Reconnect bool bool bool bool
  | Announce_shutdown

fun call_actions :: "module_call \<Rightarrow> actions" where
  "call_actions (Send_request found alone) = sendRequest_actions found alone"
| "call_actions Register_timer = registerTimer_actions"
| "call_actions (Remove_timer found) = removeTimer_actions found"
| "call_actions Register_handler = addEvent_actions"
| "call_actions (Sent error again) = postSend_actions error again"
| "call_actions (Received r) = postReceive_actions r"
| "call_actions (Timers_round armed wakeups cbs restarted removed) = timers_round_actions armed wakeups cbs restarted removed"
| "call_actions (Send_to_watchdog starts) = sendMessage_actions starts"
| "call_actions (Header_written error open connected complete empty_body again) =
     postWriteMessageHeader_actions error open connected complete empty_body again"
| "call_actions (Body_written error open connected again) = postWriteMessageBody_actions error open connected again"
| "call_actions (Header_read error open connected body_follows) = postReadMessageHeader_actions error open connected body_follows"
| "call_actions (Body_read error open connected answer) = postReadMessageBody_actions error open connected answer"
| "call_actions (Await_state spurious) = waitForConnectionStateChange_actions spurious"
| "call_actions (Await_registration answered) = waitForRegister_actions answered"
| "call_actions (Reconnect connects starts answered open) = reconnect_actions connects starts answered open"
| "call_actions Announce_shutdown = setConnectionState_actions"

text \<open>
  A callback that locks timersLock: it sends when nothing else is queued, and so starts a timer to
  resend, or it registers or removes a timer itself.
\<close>

fun locks_timers :: "callback_path \<Rightarrow> bool" where
  "locks_timers (Resends known found alone) \<longleftrightarrow> found \<and> alone"
| "locks_timers (Requests found alone) \<longleftrightarrow> found \<and> alone"
| "locks_timers Registers \<longleftrightarrow> True"
| "locks_timers (Removes found) \<longleftrightarrow> True"
| "locks_timers Adds_handler \<longleftrightarrow> False"
| "locks_timers Leaves_module_alone \<longleftrightarrow> False"

fun waits_for_itself :: "module_call \<Rightarrow> bool" where
  "waits_for_itself (Timers_round armed wakeups cbs restarted removed) \<longleftrightarrow> (\<exists>cb \<in> set cbs. locks_timers cb)"
| "waits_for_itself _ \<longleftrightarrow> False"

text \<open>The calls that sleep until they are notified: the round with no timer, and the watcher's wait.\<close>

fun may_sleep :: "module_call \<Rightarrow> bool" where
  "may_sleep (Timers_round armed wakeups cbs restarted removed) \<longleftrightarrow> \<not> armed"
| "may_sleep (Await_state spurious) \<longleftrightarrow> \<not> spurious"
| "may_sleep _ \<longleftrightarrow> False"

lemmas queue_actions = push_actions_def look_actions_def pop_actions_def
lemmas timer_actions = registerTimer_actions_def removeTimer_actions_def nextExpiration_actions_def sweep_actions_def
lemmas server_actions = queue_actions timer_actions startTimerToResend_actions_def sendToDestination_actions_def
  send_actions_def pushAndSend_actions_def sendRequest_actions_def sendRequestMessage_actions_def postSend_actions_def
  resendMessage_actions_def handleResponse_actions_def runRequestsHandlers_actions_def addEvent_actions_def
  postReceive_actions_def
lemmas watchdog_actions = queue_actions getConnectionState_actions_def setConnectionState_actions_def
  writeMessageHeader_actions_def writeMessageBody_actions_def sendMessage_actions_def disconnect_actions_def
  after_pop_actions_def postWriteMessageBody_actions_def postWriteMessageHeader_actions_def closeSocket_actions_def
  makeNewSocket_actions_def connect_actions_def setTimerExpiration_actions_def postReadMessageHeader_actions_def
  timedWaitForConnection_actions_def waitForConnectionStateChange_actions_def waitForRegister_actions_def
  postReadMessageBody_actions_def handleReceivedMessage_actions_def

section \<open>The discipline of every call\<close>

lemma callback_guarded: "guarded mutex_of [TimersLock] [TimersLock] (callback_actions cb)"
  by (cases cb) (auto simp: callback_actions_def server_actions)

lemma callback_relocks: "relocks [TimersLock] (callback_actions cb) \<longleftrightarrow> locks_timers cb"
  by (cases cb) (auto simp: callback_actions_def server_actions)

lemma callback_ordered: "\<not> locks_timers cb \<Longrightarrow> ordered lock_rank [TimersLock] (callback_actions cb)"
  by (cases cb) (auto simp: callback_actions_def server_actions)

lemma trigger_guarded: "guarded mutex_of [] [] (triggerExpiredTimers_actions cbs)"
proof -
  have "guarded mutex_of [TimersLock] [TimersLock] (concat (map callback_actions cbs))"
    by (rule guarded_concat) (simp add: callback_guarded)
  from guarded_append [OF this, of "[]" "[Release TimersLock]"] show ?thesis
    by (simp add: triggerExpiredTimers_actions_def)
qed

lemma trigger_relocks: "relocks [] (triggerExpiredTimers_actions cbs) \<longleftrightarrow> (\<exists>cb \<in> set cbs. locks_timers cb)"
proof -
  have all: "\<forall>p \<in> set (map callback_actions cbs). guarded mutex_of [TimersLock] [TimersLock] p"
    by (simp add: callback_guarded)
  from relocks_append [OF guarded_concat [OF all], of "[Release TimersLock]"] relocks_concat [OF all]
  show ?thesis by (simp add: triggerExpiredTimers_actions_def callback_relocks)
qed

lemma trigger_ordered:
  assumes "\<not> (\<exists>cb \<in> set cbs. locks_timers cb)"
  shows "ordered lock_rank [] (triggerExpiredTimers_actions cbs)"
proof -
  have all: "\<forall>p \<in> set (map callback_actions cbs). guarded mutex_of [TimersLock] [TimersLock] p \<and> ordered lock_rank [TimersLock] p"
    using assms by (auto simp: callback_guarded callback_ordered)
  then have "guarded mutex_of [TimersLock] [TimersLock] (concat (map callback_actions cbs))"
    by (intro guarded_concat) blast
  from ordered_append [OF this ordered_concat [OF all], of "[Release TimersLock]"] show ?thesis
    by (simp add: triggerExpiredTimers_actions_def)
qed

text \<open>Waiting gives the mutex up and takes it again.\<close>

lemma wakeups_guarded:
  "guarded mutex_of [m] [m] p \<Longrightarrow> guarded mutex_of [m] [m] (concat (replicate n ([Release m, Acquire m] @ p)))"
  by (rule guarded_concat) auto

lemma wakeups_ordered:
  "guarded mutex_of [m] [m] p \<Longrightarrow> ordered lock_rank [m] p \<Longrightarrow>
    ordered lock_rank [m] (concat (replicate n ([Release m, Acquire m] @ p)))"
  by (rule ordered_concat [where G = mutex_of]) auto

lemma waitForNextExpiration_ok:
  "guarded mutex_of [] [] (waitForNextExpiration_actions n)" "ordered lock_rank [] (waitForNextExpiration_actions n)"
proof -
  have g: "guarded mutex_of [TimersLock] [TimersLock] ([Load TimersData] :: actions)"
    and o: "ordered lock_rank [TimersLock] ([Load TimersData] :: actions)" by simp_all
  have last: "guarded mutex_of [] [TimersLock] ([Lower TimersInvoked, Store TimersData, Release TimersLock] :: actions)"
    "ordered lock_rank [TimersLock] ([Lower TimersInvoked, Store TimersData, Release TimersLock] :: actions)" by simp_all
  show "guarded mutex_of [] [] (waitForNextExpiration_actions n)"
    using guarded_append [OF wakeups_guarded [OF g, of n] last(1)] by (simp add: waitForNextExpiration_actions_def)
  show "ordered lock_rank [] (waitForNextExpiration_actions n)"
    using ordered_append [OF wakeups_guarded [OF g, of n] wakeups_ordered [OF g o, of n] last(2)]
    by (simp add: waitForNextExpiration_actions_def)
qed

lemma timers_wait_ok:
  "guarded mutex_of [] [] (timers_wait_actions armed n)" "ordered lock_rank [] (timers_wait_actions armed n)"
  by (simp_all add: timers_wait_actions_def waitForNextExpiration_ok waitForInvoke_actions_def)

lemma simple_ok:
  "guarded mutex_of [] [] nextExpiration_actions" "ordered lock_rank [] nextExpiration_actions"
  "guarded mutex_of [] [] (sweep_actions b)" "ordered lock_rank [] (sweep_actions b)"
  by (simp_all add: timer_actions)

lemma timers_round_guarded: "guarded mutex_of [] [] (timers_round_actions armed n cbs restarted removed)"
  unfolding timers_round_actions_def
  by (intro guarded_append [where F = "[]"] simple_ok timers_wait_ok trigger_guarded)

lemma timers_round_ordered:
  "\<not> (\<exists>cb \<in> set cbs. locks_timers cb) \<Longrightarrow> ordered lock_rank [] (timers_round_actions armed n cbs restarted removed)"
  unfolding timers_round_actions_def
  by (intro ordered_append [where F = "[]" and G = mutex_of] guarded_append [where F = "[]"] simple_ok
      timers_wait_ok trigger_guarded trigger_ordered)

lemma timers_round_relocks:
  assumes "\<exists>cb \<in> set cbs. locks_timers cb"
  shows "relocks [] (timers_round_actions armed n cbs restarted removed)"
  using assms
  by (simp add: timers_round_actions_def relocks_append [OF simple_ok(1)] relocks_append [OF timers_wait_ok(1)]
      relocks_append [OF trigger_guarded] trigger_relocks)

lemma reconnect_ok:
  "guarded mutex_of [] [] (reconnect_actions connects starts answered open)"
  "ordered lock_rank [] (reconnect_actions connects starts answered open)"
  by (simp_all add: reconnect_actions_def watchdog_actions)

lemma read_ok:
  "guarded mutex_of [] [] (postReadMessageBody_actions error open connected answer)"
  "ordered lock_rank [] (postReadMessageBody_actions error open connected answer)"
  by (cases answer; simp add: watchdog_actions)+

lemma received_ok:
  "guarded mutex_of [] [] (postReceive_actions r)" "ordered lock_rank [] (postReceive_actions r)"
  by (cases r; simp add: server_actions)+

lemma call_guarded: "guarded mutex_of [] [] (call_actions c)"
  by (cases c) (simp_all add: timers_round_guarded reconnect_ok received_ok read_ok,
      simp_all add: server_actions watchdog_actions)

lemma call_ordered: "\<not> waits_for_itself c \<Longrightarrow> ordered lock_rank [] (call_actions c)"
  by (cases c) (simp_all add: timers_round_ordered reconnect_ok received_ok read_ok,
      simp_all add: server_actions watchdog_actions)

lemma call_relocks: "waits_for_itself c \<Longrightarrow> relocks [] (call_actions c)"
  by (cases c) (simp_all add: timers_round_relocks)

text \<open>Whoever raises the flag of timersInvoked notifies, and only the two waits without a limit sleep.\<close>

lemma wakeups_announce: "announces p \<Longrightarrow> announces (concat (replicate n p))"
  by (rule announces_concat) simp

lemma callback_announces: "announces (callback_actions cb)"
  by (cases cb) (auto simp: callback_actions_def server_actions)

lemma trigger_announces: "announces (triggerExpiredTimers_actions cbs)"
proof -
  have "announces (concat (map callback_actions cbs))" by (rule announces_concat) (simp add: callback_announces)
  from announces_append [OF this, of "[Release TimersLock]"] show ?thesis by (simp add: triggerExpiredTimers_actions_def)
qed

lemma timers_wait_announces: "announces (timers_wait_actions armed n)"
proof -
  have "announces (concat (replicate n ([Release TimersLock, Acquire TimersLock, Load TimersData] :: actions)))"
    by (rule wakeups_announce) simp
  from announces_append [OF this, of "[Lower TimersInvoked, Store TimersData, Release TimersLock]"] show ?thesis
    by (simp add: timers_wait_actions_def waitForNextExpiration_actions_def waitForInvoke_actions_def)
qed

lemma timers_round_announces: "announces (timers_round_actions armed n cbs restarted removed)"
  unfolding timers_round_actions_def
  by (intro announces_append timers_wait_announces trigger_announces; simp add: timer_actions)

lemma call_announces: "announces (call_actions c)"
proof (cases c)
  case (Received r)
  then show ?thesis by (cases r) (simp_all add: server_actions)
next
  case (Body_read error is_open connected answer)
  then show ?thesis by (cases answer) (simp_all add: watchdog_actions)
qed (simp_all add: timers_round_announces, simp_all add: server_actions watchdog_actions reconnect_actions_def)

lemma callback_never_waits: "\<not> awaits (callback_actions cb)"
  by (cases cb) (auto simp: callback_actions_def server_actions awaits_def)

lemma timers_round_awaits: "awaits (timers_round_actions armed n cbs restarted removed) \<longleftrightarrow> \<not> armed"
proof -
  have "\<not> awaits (concat (map callback_actions cbs))" by (simp add: awaits_concat callback_never_waits)
  moreover have "\<not> awaits (concat (replicate n ([Release TimersLock, Acquire TimersLock, Load TimersData] :: actions)))"
    by (induction n) (simp_all add: awaits_def)
  ultimately show ?thesis
    by (auto simp: timers_round_actions_def timers_wait_actions_def triggerExpiredTimers_actions_def waitForNextExpiration_actions_def
        waitForInvoke_actions_def timer_actions awaits_def)
qed

lemma call_awaits: "awaits (call_actions c) \<longleftrightarrow> may_sleep c"
proof (cases c)
  case (Received r)
  then show ?thesis by (cases r) (simp_all add: server_actions awaits_def)
next
  case (Body_read error is_open connected answer)
  then show ?thesis by (cases answer) (simp_all add: watchdog_actions awaits_def)
qed (simp_all add: timers_round_awaits, simp_all add: server_actions watchdog_actions reconnect_actions_def awaits_def)

interpretation locks: lock_discipline mutex_of lock_rank call_actions "\<lambda>c. \<not> waits_for_itself c"
  by unfold_locales (simp_all add: call_guarded call_ordered call_relocks call_announces)

end
