(* ===== verification/Data_Races.thy ===== *)
theory Data_Races
  imports Lock_Usage
begin

text \<open>
  What the locking of the module gives, for any number of threads that make any calls in any
  order: which data can race, and where they come to rest.
\<close>

section \<open>Data nobody stores\<close>

lemma callback_never_stores:
  "d \<in> {Endpoints, ParkedMessages} \<Longrightarrow> Store d \<notin> set (callback_actions cb)"
  by (cases cb) (auto simp: callback_actions_def server_actions)

lemma call_never_stores:
  assumes "d \<in> {Endpoints, ParkedMessages}"
  shows "Store d \<notin> set (call_actions c)"
proof (cases c)
  case (Timers_round armed n cbs restarted removed)
  with assms callback_never_stores [OF assms] show ?thesis
    by (auto simp: timers_round_actions_def triggerExpiredTimers_actions_def timers_wait_actions_def
        waitForNextExpiration_actions_def waitForInvoke_actions_def timer_actions)
next
  case (Received r)
  with assms show ?thesis by (cases r) (auto simp: server_actions)
next
  case (Body_read e b connected answer)
  with assms show ?thesis by (cases answer) (auto simp: watchdog_actions)
qed (use assms in \<open>auto simp: server_actions watchdog_actions reconnect_actions_def\<close>)

section \<open>Schedules that race\<close>

text \<open>Two threads with one call each, and a schedule after which they race.\<close>

definition race_after :: "shared_data \<Rightarrow> module_call \<Rightarrow> module_call \<Rightarrow> nat list \<Rightarrow> bool" where
  "race_after d c c' ts \<longleftrightarrow>
     (case run_schedule ts (calling call_actions [[c], [c']]) of None \<Rightarrow> False | Some s \<Rightarrow> racing d s)"

lemmas race_eval = race_after_def calling_def starting_def act_def racing_def numeral_eq_Suc less_Suc_eq
  ex_disj_distrib conj_disj_distribR

text \<open>A user's request, at the entry it makes for its code, against the response to an earlier one.\<close>

lemma race_TransactionCodes:
  "race_after TransactionCodes (Send_request True True) (Received (A_response True True True)) (replicate 20 0 @ [1])"
  by (simp add: race_eval server_actions)

text \<open>A user's registration of a handler against a request that arrives.\<close>

lemma race_EventHandlers: "race_after EventHandlers Register_handler (Received A_request) [1]"
  by (simp add: race_eval server_actions)

text \<open>The send of a user's request against the next receive.\<close>

lemma race_UdpSocket: "race_after UdpSocket (Send_request True True) (Received Unreadable) (replicate 23 0)"
  by (simp add: race_eval server_actions)

text \<open>The new socket of a reconnect against a ping that looks whether the socket is open.\<close>

lemma race_TcpSocket:
  "race_after TcpSocket (Reconnect True True True True) (Send_to_watchdog True) ([0] @ replicate 4 1)"
  by (simp add: race_eval watchdog_actions reconnect_actions_def)

text \<open>The answer to a ping sets the timer while the thread that waited for the registration sets it.\<close>

lemma race_TcpTimer:
  "race_after TcpTimer (Body_read False True True (Ping_answer True)) (Await_registration True) [1, 1, 1, 1, 1]"
  by (simp add: race_eval watchdog_actions)

text \<open>A sender that still reads the front message against the completion that pops it.\<close>

lemma race_FrontMessage: "race_after FrontMessage (Sent False False) (Send_request True True) (replicate 12 1 @ [0, 0])"
  by (simp add: race_eval server_actions)

lemma race_TcpFrontMessage:
  "race_after TcpFrontMessage (Body_written False True True False) (Send_to_watchdog True) (replicate 9 1 @ [0, 0])"
  by (simp add: race_eval watchdog_actions)

lemma race_afterD: "race_after d c c' ts \<Longrightarrow> \<exists>css ts s. run_schedule ts (calling call_actions css) = Some s \<and> racing d s"
  by (auto simp: race_after_def split: option.splits)

section \<open>Properties\<close>

text \<open>C3:
  Whatever any number of threads call, in any interleaving, the timers, the two message queues
  and the state of the watchdog connection never race. What can race, for some paths of the calls
  and some schedule, is exactly the data that some call changes and some call touches without a
  mutex: the map of transaction codes, the handlers of events, the two sockets, the timer of the
  watchdog connection, and the front elements of the two queues, which pop destroys under the mutex
  of the queue and which the senders read after it, through the reference that front hands out. What no call stores, the map of endpoints and the parked
  messages, does not race either.
\<close>
theorem racing_data_exact:
  "(\<exists>css ts s. run_schedule ts (calling call_actions css) = Some s \<and> racing d s) \<longleftrightarrow>
    d \<in> {TransactionCodes, EventHandlers, UdpSocket, TcpSocket, TcpTimer, FrontMessage, TcpFrontMessage}"
proof
  assume "\<exists>css ts s. run_schedule ts (calling call_actions css) = Some s \<and> racing d s"
  then obtain css ts s where run: "run_schedule ts (calling call_actions css) = Some s" and race: "racing d s" by blast
  have "mutex_of d = None" using locks.no_race [OF run] race by (cases "mutex_of d") auto
  moreover have "d \<notin> {Endpoints, ParkedMessages}"
  proof
    assume "d \<in> {Endpoints, ParkedMessages}"
    then have "\<forall>p \<in> set (map (\<lambda>cs. concat (map call_actions cs)) css). Store d \<notin> set p"
      using call_never_stores by auto
    from never_stored [OF this run [unfolded calling_def]] race show False by simp
  qed
  ultimately show "d \<in> {TransactionCodes, EventHandlers, UdpSocket, TcpSocket, TcpTimer, FrontMessage, TcpFrontMessage}"
    by (cases d) simp_all
next
  assume "d \<in> {TransactionCodes, EventHandlers, UdpSocket, TcpSocket, TcpTimer, FrontMessage, TcpFrontMessage}"
  then show "\<exists>css ts s. run_schedule ts (calling call_actions css) = Some s \<and> racing d s"
    using race_afterD race_TransactionCodes race_EventHandlers race_UdpSocket race_TcpSocket race_TcpTimer race_FrontMessage race_TcpFrontMessage
    by blast
qed

text \<open>C4:
  Where any finite number of threads with any finite number of calls come to rest. A timer
  callback that locks timersLock (the resend of a message when nothing else is queued, a user's
  callback that then sends a request, or that registers or removes a timer) waits for the timers
  thread, which holds timersLock until it returns: with one such call, no interleaving ever gets
  all calls made. Without one, every interleaving is finite and no thread waits for a mutex for
  ever: from every point all come to rest, and they rest exactly where each thread has made all its
  calls or sleeps at one of the two waits without a time limit, on timersInvoked with its flag
  clear or on a change of the connection state, and holds no mutex. When no call is such a wait, all
  calls are made.
\<close>
theorem module_rests_unless_callback_locks:
  "if \<exists>cs \<in> set css. \<exists>c \<in> set cs. waits_for_itself c
   then \<forall>ts s. run_schedule ts (calling call_actions css) = Some s \<longrightarrow> \<not> finished s
   else \<forall>ts s. run_schedule ts (calling call_actions css) = Some s \<longrightarrow>
     length ts \<le> effort (calling call_actions css) \<and>
     ((\<forall>t. act t s = None) \<longleftrightarrow> resting s) \<and>
     (\<exists>us s'. run_schedule us s = Some s' \<and> resting s' \<and>
       ((\<forall>cs \<in> set css. \<forall>c \<in> set cs. \<not> may_sleep c) \<longrightarrow> finished s'))"
proof (cases "\<exists>cs \<in> set css. \<exists>c \<in> set cs. waits_for_itself c")
  case True
  then have "\<forall>ts s. run_schedule ts (calling call_actions css) = Some s \<longrightarrow> \<not> finished s"
    using locks.none_finishes by (auto simp del: not_not)
  with True show ?thesis by simp
next
  case False
  then have upward: "\<forall>cs \<in> set css. \<forall>c \<in> set cs. \<not> waits_for_itself c" by blast
  have "length ts \<le> effort (calling call_actions css) \<and> ((\<forall>t. act t s = None) \<longleftrightarrow> resting s) \<and>
     (\<exists>us s'. run_schedule us s = Some s' \<and> resting s' \<and>
       ((\<forall>cs \<in> set css. \<forall>c \<in> set cs. \<not> may_sleep c) \<longrightarrow> finished s'))"
    if run: "run_schedule ts (calling call_actions css) = Some s" for ts s
  proof (intro conjI)
    show "length ts \<le> effort (calling call_actions css)" using run_effort [OF run] by simp
    show "(\<forall>t. act t s = None) \<longleftrightarrow> resting s"
      using locks.stuck_only_at_rest [OF upward run] resting_stuck by blast
    from locks.all_come_to_rest [OF upward run]
    obtain us s' where us: "run_schedule us s = Some s'" and rest: "resting s'" by blast
    have "finished s'" if "\<forall>cs \<in> set css. \<forall>c \<in> set cs. \<not> may_sleep c"
      by (rule locks.rest_without_waits [OF _ _ rest, of css "ts @ us"])
        (use that run us in \<open>simp_all add: call_awaits run_schedule_append\<close>)
    with us rest show "\<exists>us s'. run_schedule us s = Some s' \<and> resting s' \<and>
       ((\<forall>cs \<in> set css. \<forall>c \<in> set cs. \<not> may_sleep c) \<longrightarrow> finished s')" by blast
  qed
  with False show ?thesis by simp
qed

text \<open>
  A round whose callback queues a resend, a round with nothing to wait for, the same round with
  a registration that wakes it, and a round whose callback registers a timer.
\<close>

definition quiet_round :: module_call where
  "quiet_round = Timers_round False 0 [] False False"

theorem module_rests_unless_callback_locks_witness:
  "(\<exists>us s'. run_schedule us (calling call_actions
      [[Timers_round True 1 [Resends True True False] False True], [Send_request True True]]) = Some s' \<and> finished s') \<and>
   (\<exists>s'. run_schedule (replicate 6 0) (calling call_actions [[quiet_round]]) = Some s' \<and>
      (\<nexists>t. act t s' \<noteq> None) \<and> \<not> finished s') \<and>
   (\<exists>s'. run_schedule (replicate 6 0 @ replicate 6 1 @ replicate 14 0)
      (calling call_actions [[quiet_round], [Register_timer]]) = Some s' \<and> finished s') \<and>
   (\<nexists>ts s. run_schedule ts (calling call_actions
      [[Timers_round True 0 [Registers] False True], [Register_timer]]) = Some s \<and> finished s)"
proof (intro conjI)
  let ?ok = "[[Timers_round True 1 [Resends True True False] False True], [Send_request True True]]"
  let ?bad = "[[Timers_round True 0 [Registers] False True], [Register_timer]]"
  let ?start = "run_schedule [] (calling call_actions ?ok) = Some (calling call_actions ?ok)"
  from module_rests_unless_callback_locks [of ?ok]
  have "\<exists>us s'. run_schedule us (calling call_actions ?ok) = Some s' \<and> finished s'"
    by (simp del: run_schedule.simps) (metis run_schedule.simps(1))
  then show "\<exists>us s'. run_schedule us (calling call_actions ?ok) = Some s' \<and> finished s'" .
  from module_rests_unless_callback_locks [of ?bad]
  show "\<nexists>ts s. run_schedule ts (calling call_actions ?bad) = Some s \<and> finished s" by simp
  let ?rest = "\<lparr>holder = Map.empty(TimersLock := None), todo = [drop 5 (call_actions quiet_round)],
    asleep = [0 \<mapsto> TimersInvoked], flags = {}\<rparr> :: (module_mutex, module_condition, shared_data) threads"
  have run: "run_schedule (replicate 6 0) (calling call_actions [[quiet_round]]) = Some ?rest"
    by (simp add: numeral_eq_Suc quiet_round_def timers_round_actions_def timers_wait_actions_def waitForInvoke_actions_def
        timer_actions calling_def starting_def act_def fall_asleep_def)
  have "resting ?rest"
    by (simp add: resting_def quiet_round_def timers_round_actions_def timers_wait_actions_def waitForInvoke_actions_def
        timer_actions numeral_eq_Suc)
  with module_rests_unless_callback_locks [of "[[quiet_round]]"] run have "\<forall>t. act t ?rest = None"
    by (simp add: quiet_round_def)
  moreover have "\<not> finished ?rest"
    by (simp add: finished_def quiet_round_def timers_round_actions_def timers_wait_actions_def waitForInvoke_actions_def
        timer_actions numeral_eq_Suc)
  ultimately show "\<exists>s'. run_schedule (replicate 6 0) (calling call_actions [[quiet_round]]) = Some s' \<and>
      (\<nexists>t. act t s' \<noteq> None) \<and> \<not> finished s'"
    by (intro exI [of _ ?rest] conjI run) simp_all
  show "\<exists>s'. run_schedule (replicate 6 0 @ replicate 6 1 @ replicate 14 0)
      (calling call_actions [[quiet_round], [Register_timer]]) = Some s' \<and> finished s'"
    by (simp add: numeral_eq_Suc quiet_round_def timers_round_actions_def timers_wait_actions_def waitForInvoke_actions_def
        triggerExpiredTimers_actions_def timer_actions calling_def starting_def act_def fall_asleep_def go_on_def
        wake_all_def finished_def)
qed

end
