(* ===== verification/Server_Clock.thy ===== *)
theory Server_Clock
  imports Server_Bounds Server_Progress
begin

text \<open>
  The times of the timers as the code represents them: time points and durations of the clock are
  signed 64-bit counts of nanoseconds, and a sum or a difference outside that range is undefined.
  The unbounded times of the other theories are the same as long as nothing overflows; in no run
  of the server does anything overflow before the clock reaches 2^62 nanoseconds, the year 2116.
\<close>

section \<open>64-bit times\<close>

type_synonym i64 = "64 word"

definition checked_add :: "i64 \<Rightarrow> i64 \<Rightarrow> i64 option" where
  "checked_add a b = (if fits_time_rep (sint a + sint b) then Some (a + b) else None)"

definition checked_sub :: "i64 \<Rightarrow> i64 \<Rightarrow> i64 option" where
  "checked_sub a b = (if fits_time_rep (sint a - sint b) then Some (a - b) else None)"

definition checked_mult :: "i64 \<Rightarrow> i64 \<Rightarrow> i64 option" where
  "checked_mult a b = (if fits_time_rep (sint a * sint b) then Some (a * b) else None)"

text \<open>The two time fields of a timer.\<close>

record timer_clock =
  start64 :: i64
  duration64 :: i64

definition getExpirationTimestamp64 :: "timer_clock \<Rightarrow> i64 option" where
  "getExpirationTimestamp64 t = checked_add (start64 t) (duration64 t)"

definition setExpirationTimestamp64 :: "i64 \<Rightarrow> i64 \<Rightarrow> timer_clock \<Rightarrow> timer_clock option" where
  "setExpirationTimestamp64 clock expirationTime t =
     (let t' = t\<lparr>start64 := clock\<rparr>
      in map_option (\<lambda>d. t'\<lparr>duration64 := d\<rparr>) (checked_sub expirationTime (start64 t')))"

definition restartTimer64 :: "i64 \<Rightarrow> timer_clock \<Rightarrow> timer_clock" where
  "restartTimer64 clock t = t\<lparr>start64 := clock\<rparr>"

text \<open>std::chrono::seconds of the configured count, converted to the duration of the clock.\<close>

definition setDurationSeconds64 :: "u32 \<Rightarrow> timer_clock \<Rightarrow> timer_clock option" where
  "setDurationSeconds64 n t = map_option (\<lambda>d. t\<lparr>duration64 := d\<rparr>) (checked_mult (ucast n) 1000000000)"

text \<open>The times of a timer of the other theories, in 64 bits.\<close>

definition clock_of :: "('f, 'p) timer \<Rightarrow> timer_clock" where
  "clock_of t = \<lparr>start64 = word_of_int (startTimestamp t), duration64 = word_of_int (duration t)\<rparr>"

definition clock_fits :: "('f, 'p) timer \<Rightarrow> bool" where
  "clock_fits t \<longleftrightarrow> fits_time_rep (startTimestamp t) \<and> fits_time_rep (duration t)"

lemma sint_word_of_int64: "fits_time_rep x \<Longrightarrow> sint (word_of_int x :: i64) = x"
  by (simp add: fits_time_rep_def signed_of_int signed_take_bit_int_eq_self)

lemma sint_fits: "fits_time_rep (sint (w :: i64))"
  using sint_greater_eq [of w] sint_lt [of w] by (simp add: fits_time_rep_def)

text \<open>Each 64-bit operation is defined exactly when the unbounded result fits, and then it is that result.\<close>

lemma getExpirationTimestamp64_exact:
  assumes "clock_fits t"
  shows "getExpirationTimestamp64 (clock_of t) =
    (if fits_time_rep (getExpirationTimestamp t) then Some (word_of_int (getExpirationTimestamp t)) else None)"
  using assms
  by (simp add: getExpirationTimestamp64_def checked_add_def clock_of_def clock_fits_def sint_word_of_int64
      getExpirationTimestamp_def)

lemma setExpirationTimestamp64_exact:
  assumes "fits_time_rep clock" and "fits_time_rep e"
  shows "setExpirationTimestamp64 (word_of_int clock) (word_of_int e) (clock_of t) =
    (if fits_time_rep (e - clock) then Some (clock_of (setExpirationTimestamp clock e t)) else None)"
  using assms
  by (simp add: setExpirationTimestamp64_def checked_sub_def clock_of_def sint_word_of_int64 setExpirationTimestamp_def Let_def)

lemma restartTimer64_exact: "restartTimer64 (word_of_int clock) (clock_of t) = clock_of (restart_timer clock t)"
  by (simp add: restartTimer64_def clock_of_def restart_timer_def)

lemma seconds_fit: "fits_time_rep (seconds n)"
proof -
  obtain m where "uint n = m" and "0 \<le> m" and "m < 2 ^ 32" using uint_lt2p [of n] by simp
  then show ?thesis by (simp add: fits_time_rep_def seconds_def)
qed

lemma setDurationSeconds64_exact: "setDurationSeconds64 n (clock_of t) = Some (clock_of (setDuration (seconds n) t))"
proof -
  obtain m where m: "uint n = m" and "0 \<le> m" and "m < 2 ^ 32" using uint_lt2p [of n] by simp
  then have "fits_time_rep (uint n)" and "fits_time_rep (1000000000 :: int)" by (simp_all add: fits_time_rep_def)
  from sint_word_of_int64 [OF this(1)] sint_word_of_int64 [OF this(2)]
  have "sint (ucast n :: i64) = uint n" and "sint (1000000000 :: i64) = 1000000000" by simp_all
  then show ?thesis
    using seconds_fit [of n]
    by (simp add: setDurationSeconds64_def checked_mult_def clock_of_def setDuration_def seconds_def mult.commute)
qed

section \<open>The times of the server's timers\<close>

text \<open>
  From s to s' the clock stands still, and every timer has the times of one there was, or starts
  now and lasts the configured time.
\<close>

definition same_times :: "('f, 'p) timer \<Rightarrow> ('f, 'p) timer \<Rightarrow> bool" where
  "same_times t u \<longleftrightarrow> startTimestamp t = startTimestamp u \<and> duration t = duration u"

definition times_from :: "('addr, 'any, 'h, 'w) server_env \<Rightarrow> ('addr, 'any, 'h, 'w) server \<Rightarrow> ('addr, 'any, 'h, 'w) server \<Rightarrow> bool" where
  "times_from env s s' \<longleftrightarrow> now s' = now s \<and> (\<forall>e' \<in> set (timers (timersCache s')).
     (\<exists>e \<in> set (timers (timersCache s)). same_times (snd e') (snd e)) \<or>
     (startTimestamp (snd e') = now s \<and> duration (snd e') = seconds (timeBetweenMessageResendsInSeconds (configured env))))"

lemma times_from_subset:
  "now s' = now s \<Longrightarrow> set (timers (timersCache s')) \<subseteq> set (timers (timersCache s)) \<Longrightarrow> times_from env s s'"
  by (auto simp: times_from_def same_times_def)

lemma after_send_times:
  assumes "registerTimer (Some (resend_timer env (now s) d m)) (timersCache s) = Some (i, c)" and "now u = now s"
  shows "times_from env s (after_send env d m i c u)"
  using assms by (auto simp: times_from_def same_times_def after_send_def registerTimer_iff resend_timer_def op_defs)

lemma pushAndSend_times: "leaves (pushAndSend env d m s) = Some s' \<Longrightarrow> times_from env s s'"
proof (cases "messageQueue s")
  case Nil
  assume "leaves (pushAndSend env d m s) = Some s'"
  with Nil obtain i c where "registerTimer (Some (resend_timer env (now s) d m)) (timersCache s) = Some (i, c)"
    and "s' = after_send env d m i c (s\<lparr>messageQueue := [(d, m)]\<rparr>)"
    by (auto simp: pushAndSend_result split: option.splits)
  with after_send_times [of env s d m i c] show ?thesis by simp
next
  case (Cons dm q)
  assume "leaves (pushAndSend env d m s) = Some s'"
  with Cons show ?thesis by (intro times_from_subset) (auto simp: pushAndSend_result Let_def)
qed

lemma request_times:
  "leaves (sendRequest env i any s) = Some s' \<Longrightarrow> times_from env s s'"
  "leaves (sendSubscribeRequest env i ty s) = Some s' \<Longrightarrow> times_from env s s'"
  "leaves (sendRequestMessage env i m s) = Some s' \<Longrightarrow> times_from env s s'"
proof -
  have frame: "times_from env (s\<lparr>randCalls := n\<rparr>) s' = times_from env s s'" for n by (simp add: times_from_def)
  have same: "s' = s \<Longrightarrow> times_from env s s'" by (simp add: times_from_subset)
  show "times_from env s s'" if "leaves (sendRequest env i any s) = Some s'"
    using that [unfolded sendRequest_def]
    by (rule drawn_request_cases) (erule same, metis frame pushAndSend_times)
  show "times_from env s s'" if "leaves (sendSubscribeRequest env i ty s) = Some s'"
    using that [unfolded sendSubscribeRequest_def]
    by (rule drawn_request_cases) (erule same, metis frame pushAndSend_times)
  show "times_from env s s'" if "leaves (sendRequestMessage env i m s) = Some s'"
    using that by (rule sendRequestMessage_cases) (erule same, rule pushAndSend_times)
qed

lemma postSend_times:
  assumes "postSendToDestination env failed s = Done () s'"
  shows "times_from env s s'"
proof (cases "failed \<or> tl (messageQueue s) = []")
  case True
  with assms show ?thesis
    by (intro times_from_subset; cases "messageQueue s")
      (auto simp: postSendToDestination_def processSendError_def pop_def queue_empty_def Let_def split: if_splits)
next
  case False
  then obtain dm d m q where q: "messageQueue s = dm # (d, m) # q"
    by (cases "messageQueue s"; cases "tl (messageQueue s)") auto
  let ?s = "s\<lparr>inFlight := tl (inFlight s), messageQueue := (d, m) # q\<rparr>"
  from assms False q have "send env ?s = Done () s'"
    by (simp add: postSendToDestination_def pop_def queue_empty_def Let_def)
  with send_result [of ?s d m q env] obtain i c where
    "registerTimer (Some (resend_timer env (now s) d m)) (timersCache s) = Some (i, c)" and "s' = after_send env d m i c ?s"
    by (auto split: option.splits)
  with after_send_times [of env s d m i c ?s] show ?thesis by simp
qed

lemma removeTimer_subset: "removeTimer i c = Some c' \<Longrightarrow> set (timers c') \<subseteq> set (timers c)"
  using set_erase_first_subset [of "\<lambda>e. entry_id e = i" "timers c"] by (auto simp: removeTimer_iff split: if_splits)

lemma handleResponse_times: "handleResponse m s = Done () s' \<Longrightarrow> times_from env s s'"
  by (rule times_from_subset)
    (auto simp: handleResponse_def Let_def dest!: removeTimer_subset split: option.splits if_splits)

lemma postReceive_times:
  assumes "postReceive env datagram s = Done () s'"
  shows "times_from env s s'"
proof -
  have frame: "times_from env (s\<lparr>readingStarted := b\<rparr>) s' = times_from env s s'" for b by (simp add: times_from_def)
  have same: "now s' = now s \<and> timersCache s' = timersCache s \<Longrightarrow> times_from env s s'" by (rule times_from_subset) simp_all
  show ?thesis
    using assms handleResponse_times [of _ "s\<lparr>readingStarted := True\<rparr>" s' env] frame [of True] same
    by (auto simp: postReceive_def processHandleReceiveError_def startReading_def handleRequest_def Let_def
        split: option.splits if_splits)
qed

lemma resend_effect_now: "cb_state (resend_effect env f message s) = Some s' \<Longrightarrow> now s' = now s"
proof (cases f)
  case ResendMessage
  moreover assume "cb_state (resend_effect env f message s) = Some s'"
  ultimately show ?thesis
    by (auto simp: resend_effect_def locked_resend_def cb_state_def forget_code_def Let_def
        split: option.splits outcome.splits if_splits)
next
  case (UserCallback k)
  moreover assume "cb_state (resend_effect env f message s) = Some s'"
  ultimately show ?thesis
    using user_callback_frame [of env k "user_requests env k" s s'] by (auto simp: resend_effect_def)
qed

text \<open>No timer of the server is repeatable, so a round restarts none.\<close>

lemma round_times:
  assumes ok: "server_ok s" and run: "server_timers_round env tp restarts s = Some s'"
  shows "times_from env s s'"
  using run
proof (rule timers_round_fire_all)
  fix es u c1 c2 c3
  assume fire: "fire_all (resend_effect env) tp (timers (timersCache s)) s = Some (es, u)"
    and trig: "triggerExpiredTimers (resend_call env) tp (timersCache s) s = Some (c1, u)"
    and r: "restartRepeatableTimers restarts c1 = Some c2" and e: "removeEndedTimers c2 = Some c3"
    and s': "s' = u\<lparr>timersCache := c3\<rparr>"
  have stands: "now u = now s"
    using fire by (rule fire_all_rel [where R = "\<lambda>s s'. now s' = now s", rotated 3])
      (auto dest: resend_effect_now)
  have from1: "resend_like (snd e1) \<and> (\<exists>e \<in> set (timers (timersCache s)). same_times (snd e1) (snd e))"
    if mem: "e1 \<in> set (timers c1)" for e1
  proof -
    obtain e where e: "e \<in> set (timers (timersCache s))" and fired: "fired (resend_call env) tp e e1"
      using fired_origin [OF trig mem] by blast
    have "resend_like (snd e1)" using own.fired_kind [OF fired server_ok_entries [OF ok e]] .
    moreover have "same_times (snd e1) (snd e)" using fired by (auto simp: fired_def same_times_def split: if_splits)
    ultimately show ?thesis using e by blast
  qed
  have "set (timers c3) \<subseteq> set (timers c1)"
    unfolding restart_then_remove [OF r e]
    using from1 by (auto simp: to_restart_def resend_like_def isRepeatable_def dest!: enumerate_memD)
  with from1 stands s' show ?thesis by (auto simp: times_from_def)
qed

definition times_ok :: "('addr, 'any, 'h, 'w) server_env \<Rightarrow> ('addr, 'any, 'h, 'w) server \<Rightarrow> bool" where
  "times_ok env s \<longleftrightarrow> 0 \<le> now s \<and> (\<forall>e \<in> set (timers (timersCache s)). 0 \<le> startTimestamp (snd e) \<and>
     startTimestamp (snd e) \<le> now s \<and> duration (snd e) = seconds (timeBetweenMessageResendsInSeconds (configured env)))"

lemma times_ok_from: "times_from env s s' \<Longrightarrow> times_ok env s \<Longrightarrow> times_ok env s'"
  by (fastforce simp: times_from_def times_ok_def same_times_def)

lemma server_step_times: "server_step env y z \<Longrightarrow> server_ok (srv y) \<Longrightarrow> times_ok env (srv y) \<Longrightarrow> times_ok env (srv z)"
proof (induction rule: server_step.induct)
  case (request i any y s)
  then show ?case using request_times(1) times_ok_from by (simp add: advance_def) blast
next
  case (request_message i m y s)
  then show ?case using request_times(3) times_ok_from by (simp add: advance_def) blast
next
  case (subscribe i ty y s)
  then show ?case using request_times(2) times_ok_from by (simp add: advance_def) blast
next
  case (sent y s)
  then show ?case using postSend_times times_ok_from by (simp add: settle_def) blast
next
  case (send_failed y s)
  then show ?case using postSend_times times_ok_from by (simp add: settle_def) blast
next
  case (received y datagram s)
  then show ?case using postReceive_times times_ok_from by (simp add: settle_def) blast
next
  case (timers tp restarts y s)
  then show ?case using round_times times_ok_from by (simp add: advance_def) blast
next
  case (time y later)
  then show ?case by (fastforce simp: settle_def times_ok_def)
qed

lemma server_reachable_times: "server_reachable env y \<Longrightarrow> times_ok env (srv y)"
proof (induction rule: server_reachable.induct)
  case (start endpoints events w)
  show ?case by (simp add: times_ok_def started_server_def new_server_def startReading_def empty_timers_cache_def)
next
  case (step y z)
  from step.hyps(2) server_reachable_ok [OF step.hyps(1)] step.IH show ?case by (rule server_step_times)
qed

section \<open>Property\<close>

text \<open>A duration that the user chose can overflow: one nanosecond after the epoch of the clock, the longest one does.\<close>

lemma longest_duration_overflows:
  "getExpirationTimestamp64 (clock_of (setDuration (2 ^ 63 - 1) (new_timer 1 f p))) = None"
  by (subst getExpirationTimestamp64_exact) (simp_all add: clock_fits_def fits_time_rep_def op_defs)

text \<open>C13:
  In every reachable state, as long as the clock shows less than 2^62 nanoseconds, whatever the
  configured 32-bit number of seconds is: every timer of the cache started between the epoch and
  now and lasts the configured time, converted without overflow; the 64-bit sum that
  getExpirationTimestamp forms is defined, is the key under which the cache keeps the timer, and
  lies at most 2^32 - 1 seconds ahead; and so does the one of a timer that is set now.
\<close>
theorem no_time_overflow:
  assumes "server_reachable env y" and "now (srv y) < 2 ^ 62"
  shows "(\<forall>e \<in> set (timers (timersCache (srv y))). clock_fits (snd e) \<and>
      getExpirationTimestamp64 (clock_of (snd e)) = Some (word_of_int (fst e)) \<and>
      sint (word_of_int (fst e) :: i64) = fst e \<and> fst e \<le> now (srv y) + seconds (- 1)) \<and>
    (\<exists>t64. setDurationSeconds64 (timeBetweenMessageResendsInSeconds (configured env))
        (clock_of (new_timer (now (srv y)) f p)) = Some t64 \<and> getExpirationTimestamp64 t64 \<noteq> None)"
proof -
  let ?n = "timeBetweenMessageResendsInSeconds (configured env)"
  have ok: "times_ok env (srv y)" and inv: "cache_inv (timersCache (srv y))"
    using server_reachable_times [OF assms(1)] server_okD(2) [OF server_reachable_ok [OF assms(1)]] by blast+
  obtain k where k: "uint ?n = k" and "0 \<le> k" and "k < 2 ^ 32" using uint_lt2p [of ?n] by simp
  then have n: "seconds ?n = 1000000000 * k" and pos: "0 \<le> now (srv y)" using ok by (simp_all add: seconds_def times_ok_def)
  have top: "seconds (- 1) = 1000000000 * (2 ^ 32 - 1)" by (simp add: seconds_def unsigned_minus_1_eq_mask mask_eq_exp_minus_1)
  have "clock_fits (snd e) \<and> getExpirationTimestamp64 (clock_of (snd e)) = Some (word_of_int (fst e)) \<and>
      sint (word_of_int (fst e) :: i64) = fst e \<and> fst e \<le> now (srv y) + seconds (- 1)"
    if e: "e \<in> set (timers (timersCache (srv y)))" for e
  proof -
    from ok e n have t: "0 \<le> startTimestamp (snd e)" "startTimestamp (snd e) \<le> now (srv y)" "duration (snd e) = 1000000000 * k"
      by (auto simp: times_ok_def)
    from inv e have key: "fst e = getExpirationTimestamp (snd e)" by (simp add: cache_inv_def)
    with t assms(2) \<open>0 \<le> k\<close> \<open>k < 2 ^ 32\<close> have fit: "clock_fits (snd e)" "fits_time_rep (fst e)"
      by (simp_all add: clock_fits_def fits_time_rep_def getExpirationTimestamp_def)
    moreover from key t \<open>k < 2 ^ 32\<close> have "fst e \<le> now (srv y) + seconds (- 1)"
      unfolding top by (simp add: getExpirationTimestamp_def)
    ultimately show ?thesis
      using getExpirationTimestamp64_exact [OF fit(1)] sint_word_of_int64 [OF fit(2)] key by simp
  qed
  moreover have "\<exists>t64. setDurationSeconds64 ?n (clock_of (new_timer (now (srv y)) f p)) = Some t64 \<and>
      getExpirationTimestamp64 t64 \<noteq> None"
  proof -
    let ?t = "setDuration (seconds ?n) (new_timer (now (srv y)) f p)"
    have "clock_fits ?t" and "fits_time_rep (getExpirationTimestamp ?t)"
      using pos assms(2) n \<open>0 \<le> k\<close> \<open>k < 2 ^ 32\<close> by (simp_all add: clock_fits_def fits_time_rep_def op_defs)
    then show ?thesis
      using setDurationSeconds64_exact [of ?n "new_timer (now (srv y)) f p"] getExpirationTimestamp64_exact [of ?t] by simp
  qed
  ultimately show ?thesis by blast
qed

theorem no_time_overflow_witness:
  "\<exists>y e. server_reachable sample_env y \<and> e \<in> set (timers (timersCache (srv y))) \<and>
     getExpirationTimestamp64 (clock_of (snd e)) = Some (word_of_int (fst e))"
proof (rule sample_unanswered)
  fix y e
  assume y: "server_reachable sample_env y" "timers (timersCache (srv y)) = [e]" "now (srv y) = 0"
  then have "now (srv y) < 2 ^ 62" by simp
  from no_time_overflow [OF y(1) this, THEN conjunct1] y(1,2) show ?thesis by (intro exI [of _ y] exI [of _ e]) simp
qed

end
