(* ===== verification/User_Timers.thy ===== *)
theory User_Timers
  imports Managers Server_Bounds
begin

text \<open>
  The timers of the user's program, which share the cache with the resend timers of the server:
  the user registers and removes them through ModuleTimersManager while the server runs. What
  the server keeps when the user removes only timers of his own, and what an identifier that
  has been used before does.
\<close>

section \<open>Runs of the module\<close>

text \<open>
  A step of the server, or a call of the timers manager by the user: a timer of any duration,
  repeatable or not, and the removal of an identifier that is free or still the user's own.
\<close>

inductive module_step ::
    "('addr, 'any, 'h, 'w) server_env \<Rightarrow> ('addr, 'any, 'h, 'w) server_system \<Rightarrow> ('addr, 'any, 'h, 'w) server_system \<Rightarrow> bool"
    for env where
  server: "server_step env y z \<Longrightarrow> module_step env y z"
| user_registers: "user_like t \<Longrightarrow> timers_manager_registerTimer True (Some t) (timersCache (srv y)) = Done i c \<Longrightarrow>
    module_step env y (settle y ((srv y)\<lparr>timersCache := c\<rparr>))"
| user_removes: "(\<And>t. lookup_timer (timersCache (srv y)) i = Some t \<Longrightarrow> user_like t) \<Longrightarrow>
    timers_manager_removeTimer True i (timersCache (srv y)) = Done () c \<Longrightarrow>
    module_step env y (settle y ((srv y)\<lparr>timersCache := c\<rparr>))"

inductive module_reachable :: "('addr, 'any, 'h, 'w) server_env \<Rightarrow> ('addr, 'any, 'h, 'w) server_system \<Rightarrow> bool" for env where
  start: "module_reachable env \<lparr>srv = started_server env endpoints events w, accepted = []\<rparr>"
| step: "module_reachable env y \<Longrightarrow> module_step env y z \<Longrightarrow> module_reachable env z"

abbreviation shared_ok :: "('addr, 'any, 'h, 'w) server \<Rightarrow> bool" where
  "shared_ok \<equiv> server_consistent (\<lambda>t. resend_like t \<or> user_like t)"

lemma user_like_setTimerID: "user_like (setTimerID i t) = user_like t"
  by (simp add: user_like_def setTimerID_def)

lemma register_result:
  "timers_manager_registerTimer True (Some t) c = Done i c' \<longleftrightarrow>
    isCallbackFunctionSet t \<and> registerTimer (Some t) c = Some (i, c')"
  by (auto simp: timers_manager_registerTimer_def split: option.splits)

lemma remove_result: "timers_manager_removeTimer True i c = Done () c' \<longleftrightarrow> removeTimer i c = Some c'"
  by (auto simp: timers_manager_removeTimer_def split: option.splits)

lemma user_register_ok:
  assumes ok: "shared_ok s" and "user_like t" and reg: "registerTimer (Some t) (timersCache s) = Some (i, c)"
  shows "shared_ok (s\<lparr>timersCache := c\<rparr>)"
proof -
  have law: "cache_inv c" "lookup_timer (timersCache s) i = None" "lookup_timer c = (lookup_timer (timersCache s))(i \<mapsto> setTimerID i t)"
    using tc.register_law [OF server_okD(2) [OF ok] reg] by simp_all
  have "codes_ok c (transactionAndTimerID s)"
    unfolding codes_ok_def
  proof (intro allI impI)
    fix code j
    assume "transactionAndTimerID s code = Some j"
    with server_okD(5) [OF ok] obtain u where "lookup_timer (timersCache s) j = Some u" and "waits_for code u"
      unfolding codes_ok_def by blast
    with law(2,3) show "\<exists>u. lookup_timer c j = Some u \<and> waits_for code u" by auto
  qed
  moreover have "\<not> timersLock c" using reg by (simp add: registerTimer_iff)
  moreover have "resend_like u \<or> user_like u" if "lookup_timer c j = Some u" for j u
    using that law(3) server_okD(4) [OF ok] assms(2) by (auto simp: user_like_setTimerID split: if_splits)
  ultimately show ?thesis using law(1) server_okD(1) [OF ok] by (simp add: server_consistent_def)
qed

lemma user_remove_ok:
  assumes ok: "shared_ok s" and own: "\<And>t. lookup_timer (timersCache s) i = Some t \<Longrightarrow> user_like t"
    and rem: "removeTimer i (timersCache s) = Some c"
  shows "shared_ok (s\<lparr>timersCache := c\<rparr>)"
proof -
  have law: "cache_inv c" "lookup_timer c = (lookup_timer (timersCache s))(i := None)"
    using tc.remove_law [OF server_okD(2) [OF ok] rem] by simp_all
  have "codes_ok c (transactionAndTimerID s)"
    unfolding codes_ok_def
  proof (intro allI impI)
    fix code j
    assume "transactionAndTimerID s code = Some j"
    with server_okD(5) [OF ok] obtain u where u: "lookup_timer (timersCache s) j = Some u" "waits_for code u"
      unfolding codes_ok_def by blast
    with own have "j \<noteq> i" by (auto simp: user_like_def waits_for_def)
    with u law(2) show "\<exists>u. lookup_timer c j = Some u \<and> waits_for code u" by simp
  qed
  moreover have "\<not> timersLock c" using rem server_okD(3) [OF ok] by (auto simp: removeTimer_iff split: if_splits)
  moreover have "resend_like u \<or> user_like u" if "lookup_timer c j = Some u" for j u
    using that law(2) server_okD(4) [OF ok] by (auto split: if_splits)
  ultimately show ?thesis using law(1) server_okD(1) [OF ok] by (simp add: server_consistent_def)
qed

lemma module_step_ok: "module_step env y z \<Longrightarrow> shared_ok (srv y) \<Longrightarrow> shared_ok (srv z)"
proof (induction rule: module_step.induct)
  case (server y z)
  then show ?case by (rule shared.server_step_kept)
next
  case (user_registers t y i c)
  then show ?case using user_register_ok [of "srv y" t i c] by (auto simp: settle_def register_result)
next
  case (user_removes y i c)
  then show ?case using user_remove_ok [of "srv y" i c] by (auto simp: settle_def remove_result)
qed

lemma module_reachable_ok: "module_reachable env y \<Longrightarrow> shared_ok (srv y)"
  by (induction rule: module_reachable.induct) (auto simp: server_ok_start module_step_ok)

lemma module_reachable_sending: "module_reachable env y \<Longrightarrow> sending_inv env y"
proof (induction rule: module_reachable.induct)
  case (start endpoints events w)
  show ?case by (rule sending_inv_start)
next
  case (step y z)
  from step.hyps(2) step.IH show ?case
    by (induction rule: module_step.induct) (auto intro: server_step_sending sending_inv_same)
qed

section \<open>A one-shot timer of the user that fires\<close>

text \<open>Nothing else is due, and the callback sends nothing and returns.\<close>

lemma fire_all_one:
  assumes "\<forall>e \<in> set es. \<not> due tp (snd e)" and "due tp t" and "callbackFunction t = Some (UserCallback n)"
    and "user_requests env n = []" and "user_callback env n (handlersWorld s) = Returned w"
  shows "fire_all (resend_effect env) tp (mm_insert k t es) s =
    Some (map (mark tp) (mm_insert k t es), s\<lparr>handlersWorld := w\<rparr>)"
proof -
  have idle: "fire_all (resend_effect env) tp fs u = Some (map (mark tp) fs, u)" if "\<forall>e \<in> set fs. \<not> due tp (snd e)" for fs u
    using that by (induction fs) (simp_all add: mark_def)
  have ran: "runCallbackFunction (resend_effect env) t s = (t\<lparr>actionStatus := Ended\<rparr>, Returned (s\<lparr>handlersWorld := w\<rparr>))"
    using assms(3-5) by (simp add: runCallbackFunction_def resend_effect_def runUserCallback_def Let_def)
  show ?thesis
    using assms(1)
  proof (induction es)
    case Nil
    with ran assms(2) show ?case by (simp add: mark_def cb_state_def)
  next
    case (Cons e es)
    with ran assms(2) idle [of "e # es"] show ?case by (simp add: mark_def cb_state_def)
  qed
qed

lemma one_shot_round:
  assumes "\<not> timersLock (timersCache s)" and "timers (timersCache s) = mm_insert k t es"
    and "\<forall>e \<in> set es. \<not> due tp (snd e) \<and> getActionStatus (snd e) = Waiting" and "due tp t" and "\<not> repeatable t"
    and "callbackFunction t = Some (UserCallback n)" and "user_requests env n = []"
    and "user_callback env n (handlersWorld s) = Returned w"
  shows "server_timers_round env tp restarts s =
    Some (s\<lparr>handlersWorld := w, timersCache := (timersCache s)\<lparr>timers := es\<rparr>\<rparr>)"
proof -
  let ?es = "map (mark tp) (mm_insert k t es)"
  have fire: "fire_all (resend_effect env) tp (timers (timersCache s)) s = Some (?es, s\<lparr>handlersWorld := w\<rparr>)"
    unfolding assms(2) using assms(3,4,6-8) by (intro fire_all_one) auto
  have "filter to_restart ?es = []"
    using assms(3-5) by (auto simp: filter_empty_conv to_restart_def mark_def op_defs)
  then have none: "filter to_restart ?es = []" "filter (\<lambda>e. \<not> to_restart e) ?es = ?es"
    by (simp_all add: filter_empty_conv filter_id_conv)
  have "map (mark tp) es = es" using assms(3) by (intro map_idI) (simp add: mark_def)
  moreover have "map (mark tp) (mm_insert k t es) = mm_insert k (t\<lparr>actionStatus := Ended\<rparr>) (map (mark tp) es)"
    using assms(4) by (induction es) (simp_all add: mark_def)
  ultimately have "?es = mm_insert k (t\<lparr>actionStatus := Ended\<rparr>) es" by simp
  then have "filter (\<lambda>e. \<not> (\<not> isRepeatable (snd e) \<and> getActionStatus (snd e) = Ended)) ?es = es"
    using assms(3,5) by (simp add: filter_mm_insert_other op_defs filter_id_conv)
  with fire none assms(1) show ?thesis
    by (simp add: server_timers_round_def timers_round_def resend.triggerExpiredTimers_fire_all
        restartRepeatableTimers_def removeEndedTimers_def)
qed

section \<open>Properties\<close>

text \<open>C11:
  However the user's program registers timers of its own, repeatable or not, and removes them, and
  whatever their callbacks send and do, as long as it removes no timer of the server: in every
  reachable state the datagrams are the accepted messages in order, the cache is consistent, every
  timer is the server's or the user's, and every transaction code on record belongs to a waiting
  timer of the server that carries the message of that code.
\<close>
theorem user_timers_keep_requests:
  assumes "module_reachable env y"
  shows "handedOver (srv y) = map (datagram_of env) (take (length (handedOver (srv y))) (accepted y)) \<and>
    cache_inv (timersCache (srv y)) \<and>
    (\<forall>e \<in> set (timers (timersCache (srv y))). resend_like (snd e) \<or> user_like (snd e)) \<and>
    (\<forall>code i. transactionAndTimerID (srv y) code = Some i \<longrightarrow>
      (\<exists>t p. lookup_timer (timersCache (srv y)) i = Some t \<and> resend_like t \<and> getActionStatus t = Waiting \<and>
        getCallbackParameters t = Some p \<and> transactionCode p = code))"
proof -
  have ok: "shared_ok (srv y)" using assms by (rule module_reachable_ok)
  have "\<exists>t p. lookup_timer (timersCache (srv y)) i = Some t \<and> resend_like t \<and> getActionStatus t = Waiting \<and>
        getCallbackParameters t = Some p \<and> transactionCode p = code"
    if "transactionAndTimerID (srv y) code = Some i" for code i
  proof -
    from that server_okD(5) [OF ok] obtain t where t: "lookup_timer (timersCache (srv y)) i = Some t" "waits_for code t"
      unfolding codes_ok_def by blast
    with server_okD(4) [OF ok t(1)] show ?thesis by (auto simp: waits_for_def user_like_def op_defs)
  qed
  moreover have "\<forall>e \<in> set (timers (timersCache (srv y))). resend_like (snd e) \<or> user_like (snd e)"
    using server_ok_entries [OF ok] by blast
  ultimately show ?thesis
    using sending_inv_fifo [OF module_reachable_sending [OF assms]] server_okD(2) [OF ok] by blast
qed

theorem user_timers_keep_requests_witness:
  "\<exists>y t. module_reachable sample_env y \<and> user_like t \<and> t \<in> snd ` set (timers (timersCache (srv y))) \<and>
     transactionAndTimerID (srv y) 1 \<noteq> None \<and> handedOver (srv y) = [((1, 7), [1])] \<and>
     (\<forall>i. transactionAndTimerID (srv y) 1 = Some i \<longrightarrow>
       (\<exists>u. lookup_timer (timersCache (srv y)) i = Some u \<and> resend_like u \<and> getActionStatus u = Waiting))"
proof (rule sample_sent)
  fix y
  let ?t = "new_timer 5 (Some (UserCallback 2)) None :: (nat, nat) server_timer"
  assume y: "server_reachable sample_env y" "handedOver (srv y) = [((1, 7), [1])]" "transactionAndTimerID (srv y) 1 \<noteq> None"
  have mod: "module_reachable sample_env y"
    using y(1) by (induction rule: server_reachable.induct) (auto intro: module_reachable.intros module_step.server)
  have "timers_room (srv y)"
    using server_reachable_paid [OF y(1)] y(2) server_okD(2,3) [OF server_reachable_ok [OF y(1)]] by simp
  then obtain i c where reg: "registerTimer (Some ?t) (timersCache (srv y)) = Some (i, c)" by (rule registered_in_room)
  have like: "user_like ?t" by (simp add: user_like_def op_defs)
  let ?z = "settle y ((srv y)\<lparr>timersCache := c\<rparr>)"
  have "module_step sample_env y ?z"
    by (rule module_step.user_registers [OF like, where i = i]) (simp add: register_result reg, simp add: op_defs)
  with mod have reach: "module_reachable sample_env ?z" by (rule module_reachable.step)
  moreover have "setTimerID i ?t \<in> snd ` set (timers (timersCache (srv ?z)))"
    using reg by (simp add: registerTimer_iff settle_def)
  moreover have "\<forall>i. transactionAndTimerID (srv ?z) 1 = Some i \<longrightarrow>
       (\<exists>u. lookup_timer (timersCache (srv ?z)) i = Some u \<and> resend_like u \<and> getActionStatus u = Waiting)"
    using user_timers_keep_requests [OF reach] by blast
  moreover have "user_like (setTimerID i ?t)" using like by (simp add: user_like_setTimerID)
  moreover have "transactionAndTimerID (srv ?z) 1 \<noteq> None" and "handedOver (srv ?z) = [((1, 7), [1])]"
    using y by (simp_all add: settle_def)
  ultimately show ?thesis by blast
qed

text \<open>C12:
  Identifiers are used again. A one-shot timer of the user that has fired is gone, and the next
  request gets its identifier for the resend timer; a user who then removes the timer he had
  registered removes that one: the request stays on record under its transaction code, but the
  cache is what it was before the request, so nothing will ever send it again.
\<close>
theorem reused_identifier_cancels_resend:
  assumes "timers_room s" and "messageQueue s = []" and "parkedMessages s = []"
    and "servicesEndpointsMap s dst = Some e" and "drawn_code (rand env) 1000 (randCalls s) \<notin> dom (transactionAndTimerID s)"
    and "\<forall>e \<in> set (timers (timersCache s)). \<not> due tp (snd e) \<and> getActionStatus (snd e) = Waiting"
    and "due tp t" and "\<not> repeatable t" and "callbackFunction t = Some (UserCallback n)" and "user_requests env n = []"
    and "user_callback env n (handlersWorld s) = Returned w"
  shows "\<exists>i c s2 s3 c4. timers_manager_registerTimer True (Some t) (timersCache s) = Done i c \<and>
    server_timers_round env tp restarts (s\<lparr>timersCache := c\<rparr>) = Some s2 \<and> handlersWorld s2 = w \<and>
    lookup_timer (timersCache s2) i = None \<and>
    sendRequest env dst any s2 = Done True s3 \<and>
    transactionAndTimerID s3 (drawn_code (rand env) 1000 (randCalls s)) = Some i \<and>
    timers_manager_removeTimer True i (timersCache s3) = Done () c4 \<and>
    lookup_timer c4 = lookup_timer (timersCache s)"
proof -
  obtain i c where reg: "registerTimer (Some t) (timersCache s) = Some (i, c)"
    and new: "lookup_timer (timersCache s) i = None"
    using registered_in_room [OF assms(1), of t] by metis
  then have gen: "generateTimerID (timersCache s) = Some i"
    and c: "timers c = mm_insert (getExpirationTimestamp t) (setTimerID i t) (timers (timersCache s))" "\<not> timersLock c"
    by (simp_all add: registerTimer_iff)
  let ?s1 = "s\<lparr>timersCache := c\<rparr>" and ?c2 = "c\<lparr>timers := timers (timersCache s)\<rparr>"
  let ?s2 = "s\<lparr>timersCache := ?c2, handlersWorld := w\<rparr>"
  have "server_timers_round env tp restarts ?s1 = Some (?s1\<lparr>handlersWorld := w, timersCache := (timersCache ?s1)\<lparr>timers := timers (timersCache s)\<rparr>\<rparr>)"
    using assms(6-11) c
    by (intro one_shot_round [where t = "setTimerID i t" and k = "getExpirationTimestamp t" and n = n])
      (simp_all add: setTimerID_def due_def op_defs)
  then have round: "server_timers_round env tp restarts ?s1 = Some ?s2" by simp
  have look2: "lookup_timer ?c2 = lookup_timer (timersCache s)" by (simp add: lookup_timer_def fun_eq_iff)
  have inv2: "cache_inv ?c2" using assms(1) by (simp add: cache_inv_def)
  let ?d = "\<lparr>serviceIdentifier = dst, endpoint = e\<rparr>" and ?m = "next_request env any s"
  let ?u = "resend_timer env (now s) ?d ?m"
  have "generateTimerID ?c2 = Some i" using gen by (simp add: generateTimerID_def)
  with c(2) obtain c3 where reg3: "registerTimer (Some ?u) ?c2 = Some (i, c3)" by (simp add: registerTimer_iff)
  let ?s3 = "after_send env ?d ?m i c3 (?s2\<lparr>randCalls := Suc (randCalls s), messageQueue := [(?d, ?m)]\<rparr>)"
  have sent: "sendRequest env dst any ?s2 = Done True ?s3"
    using send_found(1) [OF known_destination, of ?s2 dst e env any] assms(2-4) reg3
    by (simp add: pushAndSend_result next_request_def)
  obtain c4 where rem: "removeTimer i c3 = Some c4" using reg3 by (simp add: registerTimer_iff removeTimer_iff)
  have "lookup_timer c4 = lookup_timer (timersCache s)"
    using tc.register_then_remove [OF inv2 reg3 rem] look2 by simp
  moreover have "transactionAndTimerID ?s3 (drawn_code (rand env) 1000 (randCalls s)) = Some i"
    using assms(5) by (auto simp: after_send_def map_emplace_def)
  ultimately show ?thesis
    using reg round sent rem new look2 assms(9)
    by (intro exI [of _ i] exI [of _ c] exI [of _ ?s2] exI [of _ ?s3] exI [of _ c4])
      (simp add: register_result remove_result isCallbackFunctionSet_def after_send_def)
qed

theorem reused_identifier_cancels_resend_witness:
  "\<exists>i c s2 s3 c4. timers_manager_registerTimer True (Some (new_timer 0 (Some (UserCallback 2)) None)) (timersCache sample_server) = Done i c \<and>
     server_timers_round sample_env 6 (\<lambda>k. 6) (sample_server\<lparr>timersCache := c\<rparr>) = Some s2 \<and> handlersWorld s2 = 2 \<and>
     sendRequest sample_env 872415233 (Some 9) s2 = Done True s3 \<and> transactionAndTimerID s3 1 = Some i \<and>
     timers_manager_removeTimer True i (timersCache s3) = Done () c4 \<and> lookup_timer c4 = Map.empty"
proof -
  let ?t = "new_timer 0 (Some (UserCallback 2)) None :: (nat, nat) server_timer"
  have room: "timers_room sample_server"
    by (simp add: sample_server_simps cache_inv_empty) (simp add: empty_timers_cache_def)
  have pre: "messageQueue sample_server = []" "parkedMessages sample_server = []"
    "servicesEndpointsMap sample_server 872415233 = Some (1, 7)"
    "drawn_code (rand sample_env) 1000 (randCalls sample_server) \<notin> dom (transactionAndTimerID sample_server)"
    "\<forall>e \<in> set (timers (timersCache sample_server)). \<not> due 6 (snd e) \<and> getActionStatus (snd e) = Waiting"
    "due 6 ?t" "\<not> repeatable ?t" "callbackFunction ?t = Some (UserCallback 2)" "user_requests sample_env 2 = []"
    "user_callback sample_env 2 (handlersWorld sample_server) = Returned 2"
    by (simp_all add: sample_server_simps due_def op_defs sample_env_def empty_timers_cache_def)
      (simp add: sample_server_def new_server_def)
  have empty: "lookup_timer (timersCache sample_server) = Map.empty"
    by (simp add: fun_eq_iff lookup_timer_def sample_server_simps empty_timers_cache_def)
  have code: "drawn_code (rand sample_env) 1000 (randCalls sample_server) = 1"
    by (simp add: sample_server_simps sample_env_def drawn_code_def)
  from reused_identifier_cancels_resend [OF room pre, of "\<lambda>k. 6" "Some 9", unfolded empty code] show ?thesis by blast
qed

end
