(* ===== verification/Module_Progress.thy ===== *)
theory Module_Progress
  imports User_Timers Server_Progress
begin

text \<open>
  Which operations come to an end when the user's program has timers of its own in the cache:
  all of them, the round of the timers thread excepted, and that one exactly when the callback of
  a due timer, the server's or the user's, has a message to send at once.
\<close>

section \<open>Callbacks of the user\<close>

text \<open>Looking a service up can throw: the database does, or its record has an address that cannot be read.\<close>

definition lookup_throws :: "('addr, 'any, 'h, 'w) server_env \<Rightarrow> (i32 \<rightharpoonup> 'addr endpoint) \<Rightarrow> i32 \<Rightarrow> bool" where
  "lookup_throws env endpoints i \<longleftrightarrow> endpoints i = None \<and>
     (case getService (find_one env) i of
        Inl e \<Rightarrow> True
      | Inr None \<Rightarrow> False
      | Inr (Some service) \<Rightarrow> address_from_string env (srIpAddress service) = None)"

text \<open>Requests one after the other: whether one finds its service before one throws.\<close>

fun reaches_service :: "('addr, 'any, 'h, 'w) server_env \<Rightarrow> (i32 \<rightharpoonup> 'addr endpoint) \<Rightarrow> (i32 \<times> 'any option) list \<Rightarrow> bool" where
  "reaches_service env endpoints [] \<longleftrightarrow> False"
| "reaches_service env endpoints ((i, any) # requests) \<longleftrightarrow>
     resolves env endpoints i \<or> \<not> lookup_throws env endpoints i \<and> reaches_service env endpoints requests"

definition callback_sends ::
    "('addr, 'any, 'h, 'w) server_env \<Rightarrow> (i32 \<rightharpoonup> 'addr endpoint) \<Rightarrow> (server_callback, ('addr, 'any) parked_message option) entry \<Rightarrow> bool" where
  "callback_sends env endpoints e \<longleftrightarrow>
     (case callbackFunction (snd e) of
        Some (UserCallback n) \<Rightarrow> reaches_service env endpoints (user_requests env n)
      | _ \<Rightarrow> resolves env endpoints (resend_service e))"

text \<open>The user's own code comes to an end.\<close>

definition callbacks_return :: "('addr, 'any, 'h, 'w) server_env \<Rightarrow> bool" where
  "callbacks_return env \<longleftrightarrow> (\<forall>n w. user_callback env n w \<noteq> NeverReturns)"

lemma lookup_throws_iff:
  "databaseInitialised env \<Longrightarrow>
    lookup_throws env (servicesEndpointsMap s) i \<longleftrightarrow> (\<exists>e. findDestination env i s = Throws e s)"
  by (auto simp: lookup_throws_def findDestination_def split: option.splits sum.splits)

lemma locked_request_outcome:
  assumes "databaseInitialised env" and "parkedMessages s = []"
  obtains (sends) m where "resolves env (servicesEndpointsMap s) i"
      and "locked_request env i any s = (if messageQueue s = [] then Blocks
             else Done False (s\<lparr>randCalls := Suc (randCalls s), messageQueue := messageQueue s @ [m]\<rparr>))"
  | (absent) "\<not> resolves env (servicesEndpointsMap s) i" and "\<not> lookup_throws env (servicesEndpointsMap s) i"
      and "locked_request env i any s = Done False s"
  | (throws) e where "\<not> resolves env (servicesEndpointsMap s) i" and "lookup_throws env (servicesEndpointsMap s) i"
      and "locked_request env i any s = Throws e s"
  using assms(1)
proof (rule findDestination_resolves [of env i s])
  fix d
  assume "findDestination env i s = Done (Some d) s" and "resolves env (servicesEndpointsMap s) i"
  then show thesis
    using sends [of "(d, makeRequestMessage (moduleIdentifier env) any (drawn_code (rand env) 1000 (randCalls s)))"]
      generateTransactionCode_none_parked [OF assms(2), of env] by (simp add: locked_request_def)
next
  assume "findDestination env i s = Done None s" and "\<not> resolves env (servicesEndpointsMap s) i"
  then show thesis
    using absent lookup_throws_iff [OF assms(1), of s i] by (simp add: locked_request_def)
next
  fix e
  assume "findDestination env i s = Throws e s" and "\<not> resolves env (servicesEndpointsMap s) i"
  then show thesis
    using throws lookup_throws_iff [OF assms(1), of s i] by (simp add: locked_request_def)
qed

text \<open>Under the lock, requests block exactly when one is sent at once.\<close>

lemma locked_requests_block:
  assumes "databaseInitialised env"
  shows "parkedMessages s = [] \<Longrightarrow>
    leaves (locked_requests env rs s) = None \<longleftrightarrow>
      messageQueue s = [] \<and> reaches_service env (servicesEndpointsMap s) rs"
proof (induction rs arbitrary: s)
  case (Cons r rs)
  obtain i any where r: "r = (i, any)" by fastforce
  from assms Cons.prems show ?case
  proof (cases rule: locked_request_outcome [of env s i any])
    case (sends m)
    with Cons r show ?thesis by simp
  next
    case absent
    with Cons r show ?thesis by simp
  next
    case (throws e)
    with r show ?thesis by simp
  qed
qed simp

lemma run_user_like:
  assumes "databaseInitialised env" and "callbacks_return env" and "user_like (snd e)" and "parkedMessages s = []"
  shows "cb_state (snd (runCallbackFunction (resend_effect env) (snd e) s)) = None \<longleftrightarrow>
      messageQueue s = [] \<and> callback_sends env (servicesEndpointsMap s) e"
    and "cb_state (snd (runCallbackFunction (resend_effect env) (snd e) s)) = Some s' \<Longrightarrow>
      (messageQueue s' = [] \<longleftrightarrow> messageQueue s = []) \<and> servicesEndpointsMap s' = servicesEndpointsMap s \<and> parkedMessages s' = []"
proof -
  let ?r = "snd (runCallbackFunction (resend_effect env) (snd e) s)"
  from assms(3) obtain n where e: "callbackFunction (snd e) = Some (UserCallback n)" by (auto simp: user_like_def)
  let ?sent = "locked_requests env (user_requests env n) s"
  have r: "?r = runUserCallback env n ?sent"
    using e by (auto simp: runCallbackFunction_def resend_effect_def Let_def split: cb_outcome.split)
  have "cb_state ?r = None \<longleftrightarrow> leaves ?sent = None"
    unfolding r using assms(2)
    by (cases ?sent) (auto simp: runUserCallback_def cb_state_def callbacks_return_def split: cb_outcome.split)
  then show "cb_state ?r = None \<longleftrightarrow> messageQueue s = [] \<and> callback_sends env (servicesEndpointsMap s) e"
    using locked_requests_block [OF assms(1,4)] e by (simp add: callback_sends_def)
  assume "cb_state ?r = Some s'"
  from user_callback_frame [OF this [unfolded r]] assms(4)
  show "(messageQueue s' = [] \<longleftrightarrow> messageQueue s = []) \<and> servicesEndpointsMap s' = servicesEndpointsMap s \<and> parkedMessages s' = []"
    by auto
qed

lemma callback_sends_resend: "resend_like (snd e) \<Longrightarrow> callback_sends env endpoints e = resolves env endpoints (resend_service e)"
  by (simp add: resend_like_def callback_sends_def)

lemma run_shared:
  assumes "databaseInitialised env" and "callbacks_return env" and "resend_like (snd e) \<or> user_like (snd e)"
    and "parkedMessages s = []"
  shows "cb_state (snd (runCallbackFunction (resend_effect env) (snd e) s)) = None \<longleftrightarrow>
      messageQueue s = [] \<and> callback_sends env (servicesEndpointsMap s) e"
    and "cb_state (snd (runCallbackFunction (resend_effect env) (snd e) s)) = Some s' \<Longrightarrow>
      (messageQueue s' = [] \<longleftrightarrow> messageQueue s = []) \<and> servicesEndpointsMap s' = servicesEndpointsMap s \<and> parkedMessages s' = []"
  using assms run_resend_like(1) [of env e s] run_user_like(1) [of env e s] run_resend_like(2) [of env e s s']
    run_user_like(2) [of env e s s'] by (auto simp: callback_sends_resend)

interpretation shared_progress: round_progress "\<lambda>env. databaseInitialised env \<and> callbacks_return env"
  "\<lambda>t. resend_like t \<or> user_like t" callback_sends
  by unfold_locales ((rule run_shared; blast)+)

section \<open>Property\<close>

text \<open>C7:
  In every state that the server and a user's program with timers of its own can reach, when the
  database is initialised, no handler is a null pointer, the cache has a free timer identifier and
  the user's own code returns: every request returns or throws, the completion of a send and of a
  receive return, and so do the user's calls of the timers manager. The round of the timers thread
  never returns exactly when nothing is queued and a timer is due that resends to a service that
  can be found, or whose callback requests such a service before another request of it throws.
\<close>
theorem module_progress:
  assumes "module_reachable env y" and "databaseInitialised env" and "callbacks_return env"
    and "events_ok (eventsCache (srv y))" and "length (timers (timersCache (srv y))) < 2 ^ 32 - 1"
  shows "leaves (sendRequest env i any (srv y)) \<noteq> None \<and> leaves (sendSubscribeRequest env i ty (srv y)) \<noteq> None \<and>
    leaves (sendRequestMessage env i m (srv y)) \<noteq> None \<and>
    (inFlight (srv y) \<noteq> [] \<longrightarrow> (\<exists>s'. postSendToDestination env failed (srv y) = Done () s')) \<and>
    (\<exists>s'. postReceive env datagram (srv y) = Done () s') \<and>
    (\<exists>c. timers_manager_removeTimer True j (timersCache (srv y)) = Done () c) \<and>
    (isCallbackFunctionSet t \<longrightarrow> (\<exists>k c. timers_manager_registerTimer True (Some t) (timersCache (srv y)) = Done k c)) \<and>
    (server_timers_round env tp restarts (srv y) = None \<longleftrightarrow> messageQueue (srv y) = [] \<and>
      (\<exists>e \<in> set (timers (timersCache (srv y))). due tp (snd e) \<and> callback_sends env (servicesEndpointsMap (srv y)) e))"
proof -
  have ok: "shared_ok (srv y)" using assms(1) by (rule module_reachable_ok)
  then have room: "timers_room (srv y)" and parked: "parkedMessages (srv y) = []"
    using server_okD [OF ok] assms(5) by simp_all
  have "inFlight (srv y) \<noteq> [] \<longrightarrow> messageQueue (srv y) \<noteq> []"
    using module_reachable_sending [OF assms(1)] by (auto simp: sending_inv_def traffic_ok_def split: list.splits)
  moreover have "\<exists>c. timers_manager_removeTimer True j (timersCache (srv y)) = Done () c"
    using server_okD(3) [OF ok] by (auto simp: remove_result removeTimer_iff)
  moreover have "\<exists>k c. timers_manager_registerTimer True (Some t) (timersCache (srv y)) = Done k c" if "isCallbackFunctionSet t"
    using registered_in_room [OF room, of t] that by (metis register_result)
  ultimately show ?thesis
    using postSend_returns [OF _ room]
    by (intro conjI send_leaves [OF assms(2) parked room] postReceive_returns [OF server_okD(3) [OF ok] assms(4)]
        shared_progress.round_stuck [OF conjI [OF assms(2,3)] ok]) blast+
qed

lemma sample_user_timer:
  obtains y i where "module_reachable sample_env y" and "messageQueue (srv y) = []" and "eventsCache (srv y) = []"
    and "servicesEndpointsMap (srv y) = [872415233 \<mapsto> (1, 7)]"
    and "timers (timersCache (srv y)) = [(0, setTimerID i (new_timer 0 (Some (UserCallback n)) None))]"
proof -
  let ?t = "new_timer 0 (Some (UserCallback n)) None :: (nat, nat) server_timer" and ?s = "srv sample_start"
  have s: "servicesEndpointsMap ?s = [872415233 \<mapsto> (1, 7)]" "messageQueue ?s = []" "timersCache ?s = empty_timers_cache" "eventsCache ?s = []"
    by (simp_all add: sample_start_def started_server_def new_server_def startReading_def)
  have "timers_room ?s" using s(3) by (simp add: cache_inv_empty) (simp add: empty_timers_cache_def)
  then obtain i c where reg: "registerTimer (Some ?t) (timersCache ?s) = Some (i, c)" by (rule registered_in_room)
  let ?y = "settle sample_start (?s\<lparr>timersCache := c\<rparr>)"
  have "module_reachable sample_env sample_start" unfolding sample_start_def by (rule module_reachable.start)
  moreover have "module_step sample_env sample_start ?y"
    by (rule module_step.user_registers [where t = ?t and i = i]) (simp_all add: register_result reg, simp_all add: user_like_def op_defs)
  ultimately have "module_reachable sample_env ?y" by (rule module_reachable.step)
  moreover have "timers c = [(0, setTimerID i ?t)]"
    using reg s(3) by (simp add: registerTimer_iff empty_timers_cache_def op_defs)
  ultimately show ?thesis using s by (intro that [of ?y i]) (simp_all add: settle_def)
qed

theorem module_progress_witness:
  "\<exists>y z. module_reachable sample_env y \<and> server_timers_round sample_env 5 (\<lambda>k. 5) (srv y) = None \<and>
     module_reachable sample_env z \<and> server_timers_round sample_env 5 (\<lambda>k. 5) (srv z) \<noteq> None \<and>
     leaves (sendRequest sample_env 872415233 (Some 8) (srv y)) \<noteq> None"
proof -
  have env: "databaseInitialised sample_env" "callbacks_return sample_env" by (simp_all add: sample_env_def callbacks_return_def)
  obtain y i where y: "module_reachable sample_env y" "messageQueue (srv y) = []" "eventsCache (srv y) = []"
    "servicesEndpointsMap (srv y) = [872415233 \<mapsto> (1, 7)]"
    "timers (timersCache (srv y)) = [(0, setTimerID i (new_timer 0 (Some (UserCallback 1)) None))]"
    by (rule sample_user_timer)
  obtain z j where z: "module_reachable sample_env z" "messageQueue (srv z) = []" "eventsCache (srv z) = []"
    "servicesEndpointsMap (srv z) = [872415233 \<mapsto> (1, 7)]"
    "timers (timersCache (srv z)) = [(0, setTimerID j (new_timer 0 (Some (UserCallback 2)) None))]"
    by (rule sample_user_timer)
  have sends: "user_requests sample_env 1 = [(872415233, Some 7)]" "user_requests sample_env 2 = []"
    by (simp_all add: sample_env_def)
  have ok: "events_ok (eventsCache (srv y))" "length (timers (timersCache (srv y))) < 2 ^ 32 - 1"
    "events_ok (eventsCache (srv z))" "length (timers (timersCache (srv z))) < 2 ^ 32 - 1"
    using y z by (simp_all add: events_ok_def)
  have "server_timers_round sample_env 5 (\<lambda>k. 5) (srv y) = None"
    and "leaves (sendRequest sample_env 872415233 (Some 8) (srv y)) \<noteq> None"
    using module_progress [OF y(1) env ok(1,2), where tp = 5 and restarts = "\<lambda>k. 5" and i = 872415233 and any = "Some 8"] y sends
    by (simp_all add: callback_sends_def resolves_def due_def op_defs)
  moreover have "server_timers_round sample_env 5 (\<lambda>k. 5) (srv z) \<noteq> None"
    using module_progress [OF z(1) env ok(3,4), where tp = 5 and restarts = "\<lambda>k. 5"] z sends
    by (simp add: callback_sends_def op_defs)
  ultimately show ?thesis using y(1) z(1) by blast
qed

end
