(* ===== verification/Io_Thread.thy ===== *)
theory Io_Thread
  imports Module_Progress Server_Replies Connection_Safety
begin

text \<open>
  The thread that ModuleBase starts for the io_context: it runs the completion handlers of the
  server and of the watchdog connection one after the other. Nothing catches an exception that
  leaves a handler, neither run nor the lambda of the thread, so it terminates the process. Here
  the body of an incoming message can be too big to be allocated, which makes resize throw, and
  the user's handlers send requests, whose services are looked up in the database.
\<close>

section \<open>Completions\<close>

record ('addr, 'any, 'h, 'w) process =
  udpServer :: "('addr, 'any, 'h, 'w) server"
  tcpConnection :: watchdog_connection

datatype completion =
    Datagram_sent bool
  | Datagram_received "bytes option"
  | Header_read "(nat \<times> operation message_header) option"
  | Body_read bool "octets option"
  | Header_written "nat option"
  | Body_written bool
  | Ping_timer_expired

text \<open>The asynchronous operation was started and has not completed yet.\<close>

definition pending :: "completion \<Rightarrow> ('addr, 'any, 'h, 'w) process \<Rightarrow> bool" where
  "pending ev x \<longleftrightarrow>
     (case ev of
        Datagram_sent failed \<Rightarrow> inFlight (udpServer x) \<noteq> []
      | Datagram_received d \<Rightarrow> readingStarted (udpServer x)
      | Header_read r \<Rightarrow> (\<exists>rs. pendingReads (tcpConnection x) = ReadHeader # rs)
      | Body_read allocated r \<Rightarrow> (\<exists>n rs. pendingReads (tcpConnection x) = ReadBody n # rs)
      | Header_written r \<Rightarrow> (\<exists>ws. pendingWrites (tcpConnection x) = WriteHeader # ws)
      | Body_written failed \<Rightarrow> (\<exists>ws. pendingWrites (tcpConnection x) = WriteBody # ws)
      | Ping_timer_expired \<Rightarrow> 0 < timerWaits (tcpConnection x))"

section \<open>Handlers that can throw\<close>

datatype io_error = Server_error server_error | Bad_alloc

text \<open>
  The completion of a receive when the user's handlers send requests; \<open>requests_of\<close>: what a
  handler sends on a message.
\<close>

definition postReceive_replying ::
    "('addr, 'any, 'h, 'w) server_env \<Rightarrow> ('h \<Rightarrow> 'any \<Rightarrow> (i32 \<times> 'any option) list) \<Rightarrow> bytes option
      \<Rightarrow> ('addr, 'any, 'h, 'w) server \<Rightarrow> ('addr, 'any, 'h, 'w, unit) server_result" where
  "postReceive_replying env requests_of datagram s0 =
     (let s = s0\<lparr>readingStarted := False\<rparr>
      in case datagram of
           None \<Rightarrow> Done () (processHandleReceiveError s)
         | Some d \<Rightarrow>
             (let receivedMessage = take (messageBufferLength s) d;
                  s = startReading s
              in case parse env receivedMessage of
                   None \<Rightarrow> Done () s
                 | Some m \<Rightarrow>
                     (if has_header m then
                        (if has_request m then handleRequest_replying env requests_of m s
                         else if has_response m then handleResponse m s
                         else Done () s)
                      else Done () s)))"

text \<open>The completion of a header; \<open>memory n\<close>: a body of n bytes can be allocated.\<close>

definition postReadMessageHeader_resizing ::
    "(nat \<Rightarrow> bool) \<Rightarrow> ('op, 's) tcp_virtuals \<Rightarrow> (nat \<times> 'op message_header) option \<Rightarrow> ('op, 's) tcp_connection
      \<Rightarrow> (io_error, unit, ('op, 's) tcp_connection) outcome" where
  "postReadMessageHeader_resizing memory v result c0 =
     (let c = c0\<lparr>pendingReads := tl (pendingReads c0)\<rparr>
      in case result of
           None \<Rightarrow> Done () (v_disconnect v c)
         | Some (bytes_transferred, h) \<Rightarrow>
             (case incomingMessage c of None \<Rightarrow> Undefined
              | Some m \<Rightarrow>
                 (let c = c\<lparr>incomingMessage := Some (m\<lparr>msgHead := h\<rparr>)\<rparr>
                  in if bytes_transferred \<noteq> header_bytes then Done () c
                     else if bodySize h = 0 then Done () c
                     else if \<not> memory (unat (bodySize h)) then Throws Bad_alloc c
                     else (case readMessageBody (c\<lparr>incomingMessage :=
                             Some (m\<lparr>msgHead := h, msgBody := replicate (unat (bodySize h)) 0\<rparr>)\<rparr>) of
                             None \<Rightarrow> Undefined | Some c \<Rightarrow> Done () c))))"

definition defined :: "'s option \<Rightarrow> ('e, unit, 's) outcome" where
  "defined r = (case r of None \<Rightarrow> Undefined | Some c \<Rightarrow> Done () c)"

definition on_server ::
    "('addr, 'any, 'h, 'w) process \<Rightarrow> ('addr, 'any, 'h, 'w, unit) server_result
      \<Rightarrow> (io_error, unit, ('addr, 'any, 'h, 'w) process) outcome" where
  "on_server x r =
     (case r of
        Done u s \<Rightarrow> Done () (x\<lparr>udpServer := s\<rparr>)
      | Throws e s \<Rightarrow> Throws (Server_error e) (x\<lparr>udpServer := s\<rparr>)
      | Blocks \<Rightarrow> Blocks
      | Undefined \<Rightarrow> Undefined)"

definition on_connection ::
    "('addr, 'any, 'h, 'w) process \<Rightarrow> (io_error, unit, watchdog_connection) outcome
      \<Rightarrow> (io_error, unit, ('addr, 'any, 'h, 'w) process) outcome" where
  "on_connection x r =
     (case r of
        Done u c \<Rightarrow> Done () (x\<lparr>tcpConnection := c\<rparr>)
      | Throws e c \<Rightarrow> Throws e (x\<lparr>tcpConnection := c\<rparr>)
      | Blocks \<Rightarrow> Blocks
      | Undefined \<Rightarrow> Undefined)"

text \<open>The handler of a completion.\<close>

definition run_handler ::
    "('addr, 'any, 'h, 'w) server_env \<Rightarrow> ('h \<Rightarrow> 'any \<Rightarrow> (i32 \<times> 'any option) list) \<Rightarrow> watchdog_protocol \<Rightarrow> (nat \<Rightarrow> bool)
      \<Rightarrow> operation \<Rightarrow> completion \<Rightarrow> ('addr, 'any, 'h, 'w) process
      \<Rightarrow> (io_error, unit, ('addr, 'any, 'h, 'w) process) outcome" where
  "run_handler env requests_of P memory op0 ev x =
     (case ev of
        Datagram_sent failed \<Rightarrow> on_server x (postSendToDestination env failed (udpServer x))
      | Datagram_received d \<Rightarrow> on_server x (postReceive_replying env requests_of d (udpServer x))
      | Header_read r \<Rightarrow> on_connection x (postReadMessageHeader_resizing memory (watchdog_virtuals P) r (tcpConnection x))
      | Body_read allocated r \<Rightarrow>
          on_connection x (defined (postReadMessageBody (watchdog_virtuals P) allocated op0 r (tcpConnection x)))
      | Header_written r \<Rightarrow> on_connection x (defined (postWriteMessageHeader (watchdog_virtuals P) r (tcpConnection x)))
      | Body_written failed \<Rightarrow> on_connection x (defined (postWriteMessageBody (watchdog_virtuals P) failed (tcpConnection x)))
      | Ping_timer_expired \<Rightarrow> on_connection x (defined (timerExpired (watchdog_virtuals P) (tcpConnection x))))"

section \<open>What a handler is asked for\<close>

definition asks_too_much :: "(nat \<Rightarrow> bool) \<Rightarrow> (nat \<times> 'op message_header) option \<Rightarrow> bool" where
  "asks_too_much memory r \<longleftrightarrow>
     (case r of None \<Rightarrow> False
      | Some (n, h) \<Rightarrow> n = header_bytes \<and> bodySize h \<noteq> 0 \<and> \<not> memory (unat (bodySize h)))"

definition incoming_request :: "('addr, 'any, 'h, 'w) server_env \<Rightarrow> bytes option \<Rightarrow> ('addr, 'any, 'h, 'w) server \<Rightarrow> 'any message option" where
  "incoming_request env datagram s =
     (case datagram of None \<Rightarrow> None
      | Some d \<Rightarrow>
          (case parse env (take (messageBufferLength s) d) of None \<Rightarrow> None
           | Some m \<Rightarrow> if has_header m \<and> has_request m then Some m else None))"

text \<open>The requests that the handlers of the user send during a completion.\<close>

definition handler_requests ::
    "('addr, 'any, 'h, 'w) server_env \<Rightarrow> ('h \<Rightarrow> 'any \<Rightarrow> (i32 \<times> 'any option) list) \<Rightarrow> completion
      \<Rightarrow> ('addr, 'any, 'h, 'w) server \<Rightarrow> (i32 \<times> 'any option) list" where
  "handler_requests env requests_of ev s =
     (case ev of
        Datagram_received d \<Rightarrow>
          (case incoming_request env d s of None \<Rightarrow> [] | Some m \<Rightarrow> replies env requests_of m (eventsCache s))
      | _ \<Rightarrow> [])"

lemma resizing_result:
  "incomingMessage c = Some m \<Longrightarrow> postReadMessageHeader_resizing memory v r c =
    (if asks_too_much memory r
     then Throws Bad_alloc (c\<lparr>pendingReads := tl (pendingReads c), incomingMessage := Some (m\<lparr>msgHead := snd (the r)\<rparr>)\<rparr>)
     else defined (postReadMessageHeader v r c))"
proof (cases r)
  case (Some p)
  obtain n h where p: "p = (n, h)" by fastforce
  assume "incomingMessage c = Some m"
  with Some p show ?thesis
    by (cases "n = header_bytes"; cases "bodySize h = 0")
      (simp_all add: postReadMessageHeader_resizing_def asks_too_much_def defined_def postReadMessageHeader_def Let_def)
qed (simp add: postReadMessageHeader_resizing_def asks_too_much_def defined_def postReadMessageHeader_def)

lemma postReceive_replying_result:
  assumes "readingStarted s"
  shows "postReceive_replying env requests_of d s =
    (case incoming_request env d s of None \<Rightarrow> postReceive env d s | Some m \<Rightarrow> handleRequest_replying env requests_of m s)"
proof -
  from assms have "s\<lparr>readingStarted := True\<rparr> = s" by simp
  then show ?thesis
    by (auto simp: postReceive_replying_def postReceive_def incoming_request_def startReading_def Let_def split: option.split)
qed

section \<open>Requests of handlers\<close>

lemma pushAndSend_no_throw: "pushAndSend env d m s \<noteq> Throws e s'"
  by (auto simp: pushAndSend_result Let_def split: option.split)

lemma sendRequest_throws:
  assumes "databaseInitialised env" and "parkedMessages s = []"
  shows "(\<exists>e s'. sendRequest env i any s = Throws e s') \<longleftrightarrow> lookup_throws env (servicesEndpointsMap s) i"
  using assms(1)
proof (rule findDestination_resolves [of env i s])
  fix d
  assume "findDestination env i s = Done (Some d) s"
  then show ?thesis
    using send_found(1) [OF _ assms(2)] lookup_throws_iff [OF assms(1), of s i] by (simp add: pushAndSend_no_throw)
qed (use lookup_throws_iff [OF assms(1), of s i] in \<open>simp_all add: sendRequest_def\<close>)

context timer_kinds
begin

lemma send_all_throws:
  assumes "databaseInitialised env"
  shows "server_consistent admissible s \<Longrightarrow> length (timers (timersCache s)) + length requests < 2 ^ 32 \<Longrightarrow>
    (\<exists>e s'. send_all env requests s = Throws e s') \<longleftrightarrow> (\<exists>r \<in> set requests. lookup_throws env (servicesEndpointsMap s) (fst r))"
proof (induction requests arbitrary: s)
  case (Cons r requests)
  obtain i any where r: "r = (i, any)" by fastforce
  from Cons.prems have room: "timers_room s" using server_okD [OF Cons.prems(1)] by simp
  from send_leaves(1) [OF assms server_okD(1) [OF Cons.prems(1)] room] obtain s1 where
    s1: "leaves (sendRequest env i any s) = Some s1" by blast
  note throws = sendRequest_throws [OF assms server_okD(1) [OF Cons.prems(1)], of i any]
  show ?case
  proof (cases "lookup_throws env (servicesEndpointsMap s) i")
    case True
    with throws r show ?thesis by auto
  next
    case False
    with throws s1 obtain b where "sendRequest env i any s = Done b s1" by (cases "sendRequest env i any s") auto
    moreover have "(\<exists>e s'. send_all env requests s1 = Throws e s') \<longleftrightarrow>
        (\<exists>r \<in> set requests. lookup_throws env (servicesEndpointsMap s1) (fst r))"
      using Cons.IH [OF request_kept(1) [OF Cons.prems(1) s1]] request_timers [OF s1] Cons.prems(2) by simp
    ultimately show ?thesis using False r request_endpoints [OF s1] by simp
  qed
qed simp

end

section \<open>The handlers in every reachable state\<close>

text \<open>The server and the connection share no state; each can be in any state it can reach.\<close>

definition process_reachable :: "('addr, 'any, 'h, 'w) server_env \<Rightarrow> watchdog_protocol \<Rightarrow> ('addr, 'any, 'h, 'w) process \<Rightarrow> bool" where
  "process_reachable env P x \<longleftrightarrow> (\<exists>y. module_reachable env y \<and> srv y = udpServer x) \<and>
     (\<exists>i op0 code c0. set_up_connection P i op0 (new_watchdog_connection code) = Some c0 \<and> connection_steps P c0 (tcpConnection x))"

lemma process_reachable_ok: "process_reachable env P x \<Longrightarrow> conn_ok (tcpConnection x)"
  unfolding process_reachable_def using set_up_ok connection_steps_ok by blast

lemma connection_reachable:
  "process_reachable env P x \<Longrightarrow> connection_step P (tcpConnection x) c \<Longrightarrow> process_reachable env P (x\<lparr>tcpConnection := c\<rparr>)"
  unfolding process_reachable_def using connection_steps.step by fastforce

lemma server_reachable_in:
  "process_reachable env P x \<Longrightarrow> module_reachable env z \<Longrightarrow> process_reachable env P (x\<lparr>udpServer := srv z\<rparr>)"
  unfolding process_reachable_def by auto

lemma module_reachable_steps: "server_steps env y z \<Longrightarrow> module_reachable env y \<Longrightarrow> module_reachable env z"
  by (induction rule: server_steps.induct) (auto intro: module_reachable.step module_step.server)

lemma receive_replying_outcome:
  assumes reach: "module_reachable env y" and db: "databaseInitialised env" and events: "events_ok (eventsCache (srv y))"
    and reading: "readingStarted (srv y)"
    and room: "length (timers (timersCache (srv y))) + length (handler_requests env requests_of (Datagram_received d) (srv y)) < 2 ^ 32"
  shows "(\<exists>e s. postReceive_replying env requests_of d (srv y) = Throws e s) \<longleftrightarrow>
      (\<exists>r \<in> set (handler_requests env requests_of (Datagram_received d) (srv y)).
        lookup_throws env (servicesEndpointsMap (srv y)) (fst r))" (is ?throws)
    and "\<exists>s. leaves (postReceive_replying env requests_of d (srv y)) = Some s \<and> (\<exists>z. module_reachable env z \<and> srv z = s)" (is ?leaves)
proof -
  have ok: "shared_ok (srv y)" using reach by (rule module_reachable_ok)
  have "?throws \<and> ?leaves"
  proof (cases "incoming_request env d (srv y)")
    case None
    obtain s where s: "postReceive env d (srv y) = Done () s"
      using postReceive_returns [OF server_okD(3) [OF ok] events] by blast
    from module_step.server [OF server_step.received [OF reading s]] reach
    have "module_reachable env (settle y s)" using module_reachable.step by blast
    then have "\<exists>z. module_reachable env z \<and> srv z = s" by (intro exI [of _ "settle y s"]) (simp add: settle_def)
    with None s show ?thesis by (simp add: postReceive_replying_result [OF reading] handler_requests_def)
  next
    case (Some m)
    let ?rs = "replies env requests_of m (eventsCache (srv y))"
    have run: "postReceive_replying env requests_of d (srv y) = send_all env ?rs (srv y)"
      using Some by (simp add: postReceive_replying_result [OF reading] handleRequest_replying_all [OF events])
    have rs: "handler_requests env requests_of (Datagram_received d) (srv y) = ?rs" using Some by (simp add: handler_requests_def)
    obtain s where s: "leaves (send_all env ?rs (srv y)) = Some s"
      using shared.send_all_leaves [OF db ok room [unfolded rs]] by blast
    from send_all_steps [OF s] reach have "\<exists>z. module_reachable env z \<and> srv z = s" using module_reachable_steps by blast
    with s shared.send_all_throws [OF db ok room [unfolded rs]] show ?thesis unfolding run rs by blast
  qed
  then show ?throws and ?leaves by blast+
qed

text \<open>A handler of the connection that is a defined step of it.\<close>

lemma on_connection_defined:
  assumes "process_reachable env P x" and "\<exists>c. r = Some c \<and> conn_ok c" and "\<And>c. r = Some c \<Longrightarrow> connection_step P (tcpConnection x) c"
  shows "\<exists>z. on_connection x (defined r) = Done () z \<and> process_reachable env P z"
  using assms connection_reachable by (auto simp: on_connection_def defined_def)

definition kills_process ::
    "('addr, 'any, 'h, 'w) server_env \<Rightarrow> ('h \<Rightarrow> 'any \<Rightarrow> (i32 \<times> 'any option) list) \<Rightarrow> (nat \<Rightarrow> bool) \<Rightarrow> completion
      \<Rightarrow> ('addr, 'any, 'h, 'w) server \<Rightarrow> bool" where
  "kills_process env requests_of memory ev s \<longleftrightarrow>
     (case ev of
        Header_read r \<Rightarrow> asks_too_much memory r
      | _ \<Rightarrow> (\<exists>r \<in> set (handler_requests env requests_of ev s). lookup_throws env (servicesEndpointsMap s) (fst r)))"

lemma connection_handler_outcome:
  assumes reach: "process_reachable env P x" and pend: "pending ev x"
    and ev: "\<And>failed. ev \<noteq> Datagram_sent failed" "\<And>d. ev \<noteq> Datagram_received d"
  shows "if kills_process env requests_of memory ev (udpServer x)
      then \<exists>e z. run_handler env requests_of P memory op0 ev x = Throws e z
    else if \<exists>b. ev = Body_read False (Some b) then run_handler env requests_of P memory op0 ev x = Undefined
    else \<exists>z. run_handler env requests_of P memory op0 ev x = Done () z \<and> process_reachable env P z"
proof -
  have ok: "conn_ok (tcpConnection x)" using reach by (rule process_reachable_ok)
  note step = on_connection_defined [OF reach]
  show ?thesis
  proof (cases ev)
    case (Header_read r)
    with pend obtain rs where rs: "pendingReads (tcpConnection x) = ReadHeader # rs" by (auto simp: pending_def)
    with ok obtain m where "incomingMessage (tcpConnection x) = Some m" by (auto simp: conn_ok_def elim: reads_ok_cases)
    with step [OF header_read_ok [OF ok rs] connection_step.header_read [OF rs]] show ?thesis
      by (simp add: Header_read run_handler_def resizing_result kills_process_def) (simp add: on_connection_def)
  next
    case (Body_read allocated r)
    with pend obtain n rs where rs: "pendingReads (tcpConnection x) = ReadBody n # rs" by (auto simp: pending_def)
    show ?thesis
    proof (cases "allocated \<or> r = None")
      case True
      then have "postReadMessageBody (watchdog_virtuals P) allocated op0 r = postReadMessageBody (watchdog_virtuals P) True op0 r"
        by (cases allocated) (simp_all add: fun_eq_iff postReadMessageBody_def)
      then have "\<exists>c. postReadMessageBody (watchdog_virtuals P) allocated op0 r (tcpConnection x) = Some c \<and> conn_ok c"
        using body_read_ok [OF ok rs, of P op0 r] by simp
      from step [OF this connection_step.body_read [OF rs]] True show ?thesis
        by (auto simp: Body_read run_handler_def kills_process_def handler_requests_def)
    next
      case False
      then have "postReadMessageBody (watchdog_virtuals P) allocated op0 r (tcpConnection x) = None"
        by (auto simp: postReadMessageBody_def startReadingSequence_def readMessageHeader_def Let_def split: option.split)
      with False show ?thesis
        by (auto simp: Body_read run_handler_def kills_process_def handler_requests_def on_connection_def defined_def)
    qed
  next
    case (Header_written r)
    with pend obtain ws where ws: "pendingWrites (tcpConnection x) = WriteHeader # ws" by (auto simp: pending_def)
    from step [OF header_written_ok [OF ok ws] connection_step.header_written [OF ws]] show ?thesis
      by (simp add: Header_written run_handler_def kills_process_def handler_requests_def)
  next
    case (Body_written failed)
    with pend obtain ws where ws: "pendingWrites (tcpConnection x) = WriteBody # ws" by (auto simp: pending_def)
    from step [OF body_written_ok [OF ok ws] connection_step.body_written [OF ws]] show ?thesis
      by (simp add: Body_written run_handler_def kills_process_def handler_requests_def)
  next
    case Ping_timer_expired
    with pend have "0 < timerWaits (tcpConnection x)" by (simp add: pending_def)
    from step [OF timer_ok [OF ok] connection_step.timer [OF this]] show ?thesis
      by (simp add: Ping_timer_expired run_handler_def kills_process_def handler_requests_def)
  qed (use ev in blast)+
qed

section \<open>Property\<close>

text \<open>C18:
  In every reachable state of the process each completion that is pending is handled to the end
  and leaves a reachable state, with these exceptions: the header of a message whose body cannot
  be allocated, and a request whose handlers send one to a service that the database fails to
  give, throw out of the handler, and so end the process; the completion of a body after which no
  message buffer can be allocated is undefined behaviour. No handler waits for ever.
\<close>
theorem io_thread_outcome:
  assumes "process_reachable env P x" and "pending ev x" and "databaseInitialised env"
    and "events_ok (eventsCache (udpServer x))"
    and "length (timers (timersCache (udpServer x))) + length (handler_requests env requests_of ev (udpServer x)) < 2 ^ 32 - 1"
  shows "if kills_process env requests_of memory ev (udpServer x)
      then \<exists>e z. run_handler env requests_of P memory op0 ev x = Throws e z
    else if \<exists>b. ev = Body_read False (Some b) then run_handler env requests_of P memory op0 ev x = Undefined
    else \<exists>z. run_handler env requests_of P memory op0 ev x = Done () z \<and> process_reachable env P z"
proof -
  from assms(1) obtain y where y: "module_reachable env y" "srv y = udpServer x" unfolding process_reachable_def by blast
  have ok: "shared_ok (srv y)" using y(1) by (rule module_reachable_ok)
  show ?thesis
  proof (cases ev)
    case (Datagram_sent failed)
    with assms(2) y(2) have sent: "inFlight (srv y) \<noteq> []" by (simp add: pending_def)
    then have "messageQueue (srv y) \<noteq> []"
      using module_reachable_sending [OF y(1)] by (auto simp: sending_inv_def traffic_ok_def split: list.splits)
    moreover have "timers_room (srv y)" using server_okD [OF ok] assms(5) y(2) by simp
    ultimately obtain s where s: "postSendToDestination env failed (srv y) = Done () s"
      using postSend_returns by blast
    then have "server_step env y (settle y s)"
      using server_step.sent [OF sent] server_step.send_failed [OF sent] by (cases failed) simp_all
    from module_reachable.step [OF y(1) module_step.server [OF this]] assms(1)
    have "process_reachable env P (x\<lparr>udpServer := s\<rparr>)" using server_reachable_in by (fastforce simp: settle_def)
    with s y(2) show ?thesis
      by (simp add: Datagram_sent run_handler_def on_server_def kills_process_def handler_requests_def)
  next
    case (Datagram_received d)
    with assms(2) y(2) have reading: "readingStarted (srv y)" by (simp add: pending_def)
    note out = receive_replying_outcome [OF y(1) assms(3) _ reading, of requests_of d, unfolded y(2)]
    have room: "length (timers (timersCache (udpServer x))) + length (handler_requests env requests_of (Datagram_received d) (udpServer x)) < 2 ^ 32"
      using assms(5) Datagram_received by simp
    obtain s z where s: "leaves (postReceive_replying env requests_of d (udpServer x)) = Some s"
      and z: "module_reachable env z" "srv z = s" using out(2) [OF assms(4) room] by blast
    from server_reachable_in [OF assms(1) z(1)] z(2) have next_state: "process_reachable env P (x\<lparr>udpServer := s\<rparr>)" by simp
    from s next_state out(1) [OF assms(4) room] show ?thesis
      by (cases "postReceive_replying env requests_of d (udpServer x)")
        (simp_all add: Datagram_received run_handler_def on_server_def kills_process_def)
  qed (use connection_handler_outcome [OF assms(1,2), of requests_of memory op0] in simp_all)
qed

theorem io_thread_outcome_witness:
  "\<exists>x. process_reachable sample_env sample_protocol x \<and>
     (\<exists>e z. run_handler sample_env (\<lambda>h a. []) sample_protocol (\<lambda>n. n \<le> 1000000) ConnectRequest
       (Header_read (Some (8, \<lparr>operationCode = PingResponse, bodySize = - 1\<rparr>))) x = Throws e z) \<and>
     (\<exists>z. run_handler sample_env (\<lambda>h a. []) sample_protocol (\<lambda>n. n \<le> 1000000) ConnectRequest
       (Header_read (Some (8, \<lparr>operationCode = PingResponse, bodySize = 5\<rparr>))) x = Done () z \<and>
       process_reachable sample_env sample_protocol z)"
proof -
  obtain c where c: "set_up_connection sample_protocol 704643073 ConnectRequest (new_watchdog_connection 7) = Some c"
    and p: "pendingReads c = [ReadHeader]"
    by (simp add: set_up_connection_def connect_def new_watchdog_connection_def new_connection_def sendConnectRequest_def
        sendMessage_def push_def writeMessageHeader_def startReadingSequence_def readMessageHeader_def)
  let ?x = "\<lparr>udpServer = srv sample_start, tcpConnection = c\<rparr>"
  have "module_reachable sample_env sample_start" unfolding sample_start_def by (rule module_reachable.start)
  then have reach: "process_reachable sample_env sample_protocol ?x"
    using c connection_steps.refl unfolding process_reachable_def by fastforce
  have pend: "pending (Header_read r) ?x" for r using p by (simp add: pending_def)
  have db: "databaseInitialised sample_env" by (simp add: sample_env_def)
  have ok: "events_ok (eventsCache (udpServer ?x))"
    "length (timers (timersCache (udpServer ?x))) + length (handler_requests sample_env (\<lambda>h a. []) (Header_read r) (udpServer ?x)) < 2 ^ 32 - 1" for r
    by (simp_all add: sample_start_def started_server_def new_server_def startReading_def events_ok_def empty_timers_cache_def
        handler_requests_def)
  have out: "if kills_process sample_env (\<lambda>h a. []) (\<lambda>n. n \<le> 1000000) (Header_read r) (udpServer ?x)
      then \<exists>e z. run_handler sample_env (\<lambda>h a. []) sample_protocol (\<lambda>n. n \<le> 1000000) ConnectRequest (Header_read r) ?x = Throws e z
      else \<exists>z. run_handler sample_env (\<lambda>h a. []) sample_protocol (\<lambda>n. n \<le> 1000000) ConnectRequest (Header_read r) ?x = Done () z \<and>
        process_reachable sample_env sample_protocol z" for r
    using io_thread_outcome [OF reach pend db ok] by simp
  have size: "unat (- 1 :: u32) = 4294967295" by (simp add: unsigned_minus_1_eq_mask mask_eq_exp_minus_1)
  have "\<exists>e z. run_handler sample_env (\<lambda>h a. []) sample_protocol (\<lambda>n. n \<le> 1000000) ConnectRequest
       (Header_read (Some (8, \<lparr>operationCode = PingResponse, bodySize = - 1\<rparr>))) ?x = Throws e z"
    using out [of "Some (8, \<lparr>operationCode = PingResponse, bodySize = - 1\<rparr>)"] size
    by (simp add: kills_process_def asks_too_much_def header_bytes_def)
  moreover have "\<exists>z. run_handler sample_env (\<lambda>h a. []) sample_protocol (\<lambda>n. n \<le> 1000000) ConnectRequest
       (Header_read (Some (8, \<lparr>operationCode = PingResponse, bodySize = 5\<rparr>))) ?x = Done () z \<and>
       process_reachable sample_env sample_protocol z"
    using out [of "Some (8, \<lparr>operationCode = PingResponse, bodySize = 5\<rparr>)"]
    by (simp add: kills_process_def asks_too_much_def header_bytes_def)
  ultimately show ?thesis using reach by blast
qed

end
