(* ===== verification/Repository_Tests.thy ===== *)
theory Repository_Tests
  imports Identifiers Server_Requests Watchdog_Connection
begin

text \<open>
  The unit tests of src/Tests on the model: each section of a test is a bool-valued function that
  runs the operations of the section and checks what it requires, and holds whatever rand, the
  serialiser, the configuration and the messages are. The mock of sendToDestination only records
  its argument; the expected call is read off the queue and off what was handed to the socket.
\<close>

section \<open>ModuleServerTests.cpp\<close>

text \<open>The collection with the document that the fixture inserts, and the endpoints of ten services.\<close>

definition fixture_database :: "service_filter \<Rightarrow> db_error + bson_document option" where
  "fixture_database f =
     (if f = ByServiceIdentifier (toServiceIdentifier 100) \<or> f = ByName ''ExampleService''
      then Inr (Some (service_document (toServiceIdentifier 100) ''127.0.0.1'' 101 ''ExampleService''))
      else Inr None)"

definition fixture_endpoints :: "'addr \<Rightarrow> i32 \<rightharpoonup> 'addr endpoint" where
  "fixture_endpoints localhost =
     fold (\<lambda>i. map_emplace (toServiceIdentifier (of_nat i)) (localhost, of_nat i)) [0..<10] Map.empty"

definition fixture_env :: "'addr \<Rightarrow> ('addr, 'any, 'h, 'w) server_env \<Rightarrow> ('addr, 'any, 'h, 'w) server_env" where
  "fixture_env localhost env =
     env\<lparr>databaseInitialised := True, find_one := fixture_database,
         address_from_string := (address_from_string env)(''127.0.0.1'' \<mapsto> localhost)\<rparr>"

definition fixture_server :: "'addr \<Rightarrow> 'w \<Rightarrow> ('addr, 'any, 'h, 'w) server" where
  "fixture_server localhost w = new_server (fixture_endpoints localhost) [] w"

text \<open>What a section requires: no service found, or one message sent, to the expected destination.\<close>

definition requires_nothing_sent :: "('addr, 'any, 'h, 'w, bool) server_result \<Rightarrow> bool" where
  "requires_nothing_sent r =
     (case r of Done ok s \<Rightarrow> \<not> ok \<and> cache_size (timersCache s) = Some 0 \<and> handedOver s = [] | _ \<Rightarrow> False)"

definition requires_sent_to :: "'addr destination \<Rightarrow> ('addr, 'any, 'h, 'w, bool) server_result \<Rightarrow> bool" where
  "requires_sent_to expectedDestination r =
     (case r of
        Done ok s \<Rightarrow> ok \<and> cache_size (timersCache s) = Some 1 \<and>
          map fst (messageQueue s) = [expectedDestination] \<and> map fst (handedOver s) = [endpoint expectedDestination]
      | _ \<Rightarrow> False)"

definition expected_destination :: "'addr \<Rightarrow> i32 \<Rightarrow> u16 \<Rightarrow> 'addr destination" where
  "expected_destination localhost i port = \<lparr>serviceIdentifier = toServiceIdentifier i, endpoint = (localhost, port)\<rparr>"

definition test_unknown_service :: "'addr \<Rightarrow> ('addr, 'any, 'h, 'w) server_env \<Rightarrow> 'any option \<Rightarrow> 'any message \<Rightarrow> 'w \<Rightarrow> bool" where
  "test_unknown_service localhost env anyType message w \<longleftrightarrow>
     requires_nothing_sent (sendRequest (fixture_env localhost env) (toServiceIdentifier 99) anyType (fixture_server localhost w)) \<and>
     requires_nothing_sent (sendRequestMessage (fixture_env localhost env) (toServiceIdentifier 99) message (fixture_server localhost w))"

definition test_service_in_map :: "'addr \<Rightarrow> ('addr, 'any, 'h, 'w) server_env \<Rightarrow> 'any option \<Rightarrow> 'any message \<Rightarrow> 'w \<Rightarrow> bool" where
  "test_service_in_map localhost env anyType message w \<longleftrightarrow>
     requires_sent_to (expected_destination localhost 1 1)
       (sendRequest (fixture_env localhost env) (toServiceIdentifier 1) anyType (fixture_server localhost w)) \<and>
     requires_sent_to (expected_destination localhost 5 5)
       (sendRequestMessage (fixture_env localhost env) (toServiceIdentifier 5) message (fixture_server localhost w))"

definition test_service_in_database :: "'addr \<Rightarrow> ('addr, 'any, 'h, 'w) server_env \<Rightarrow> 'any option \<Rightarrow> 'any message \<Rightarrow> 'w \<Rightarrow> bool" where
  "test_service_in_database localhost env anyType message w \<longleftrightarrow>
     requires_sent_to (expected_destination localhost 100 101)
       (sendRequest (fixture_env localhost env) (toServiceIdentifier 100) anyType (fixture_server localhost w)) \<and>
     requires_sent_to (expected_destination localhost 100 101)
       (sendRequestMessage (fixture_env localhost env) (toServiceIdentifier 100) message (fixture_server localhost w))"

lemma fixture_identifiers:
  "toServiceIdentifier 0 = 0x34000000"
  "toServiceIdentifier 1 = 0x34000001"
  "toServiceIdentifier 2 = 0x34000002"
  "toServiceIdentifier 3 = 0x34000003"
  "toServiceIdentifier 4 = 0x34000004"
  "toServiceIdentifier 5 = 0x34000005"
  "toServiceIdentifier 6 = 0x34000006"
  "toServiceIdentifier 7 = 0x34000007"
  "toServiceIdentifier 8 = 0x34000008"
  "toServiceIdentifier 9 = 0x34000009"
  "toServiceIdentifier 99 = 0x34000063" "toServiceIdentifier 100 = 0x34000064"
  by code_simp+

lemma fixture_endpoints_at:
  "fixture_endpoints localhost 0x34000001 = Some (localhost, 1)" "fixture_endpoints localhost 0x34000005 = Some (localhost, 5)"
  "fixture_endpoints localhost 0x34000063 = None" "fixture_endpoints localhost 0x34000064 = None"
  by (simp_all add: fixture_endpoints_def upt_rec map_emplace_def fixture_identifiers)

lemma fixture_found:
  "findDestination (fixture_env localhost env) 0x34000063 (fixture_server localhost w) = Done None (fixture_server localhost w)"
  "findDestination (fixture_env localhost env) 0x34000001 (fixture_server localhost w) =
     Done (Some (expected_destination localhost 1 1)) (fixture_server localhost w)"
  "findDestination (fixture_env localhost env) 0x34000005 (fixture_server localhost w) =
     Done (Some (expected_destination localhost 5 5)) (fixture_server localhost w)"
  "findDestination (fixture_env localhost env) 0x34000064 (fixture_server localhost w) =
     Done (Some (expected_destination localhost 100 101)) (fixture_server localhost w)"
  by (simp_all add: findDestination_def fixture_server_def new_server_def fixture_endpoints_at fixture_env_def getService_def
      fixture_database_def fixture_identifiers viewToServiceRecord_document expected_destination_def)

lemma fixture_sends:
  fixes env :: "('addr, 'any, 'h, 'w) server_env"
  assumes "findDestination env i (fixture_server localhost w) = Done (Some d) (fixture_server localhost w)"
  shows "requires_sent_to d (sendRequest env i any (fixture_server localhost w))"
    and "requires_sent_to d (sendRequestMessage env i m (fixture_server localhost w))"
proof -
  let ?s = "fixture_server localhost w :: ('addr, 'any, 'h, 'w) server"
  have s: "parkedMessages ?s = []" "messageQueue ?s = []" "handedOver ?s = []" "timersCache ?s = empty_timers_cache"
    by (simp_all add: fixture_server_def new_server_def)
  have pushed: "requires_sent_to d (pushAndSend env d msg (?s\<lparr>randCalls := n\<rparr>))" for msg n
  proof -
    have room: "timers_room (?s\<lparr>randCalls := n\<rparr>)" by (simp add: s(4) cache_inv_empty) (simp add: empty_timers_cache_def)
    let ?t = "resend_timer env (now ?s) d msg"
    from room obtain i c where reg: "registerTimer (Some ?t) empty_timers_cache = Some (i, c)"
      by (rule registered_in_room [where t = ?t]) (simp add: s)
    then have "cache_size c = Some 1" by (simp add: registerTimer_iff cache_size_def empty_timers_cache_def)
    with reg s show ?thesis by (simp add: pushAndSend_result after_send_def requires_sent_to_def)
  qed
  have "?s\<lparr>randCalls := randCalls ?s\<rparr> = ?s" by simp
  with send_found(1,3) [OF assms s(1)] pushed show "requires_sent_to d (sendRequest env i any ?s)"
    and "requires_sent_to d (sendRequestMessage env i m ?s)" by metis+
qed

text \<open>Every section of the test holds.\<close>

lemma module_server_tests:
  "test_unknown_service localhost env anyType message w \<and> test_service_in_map localhost env anyType message w \<and>
   test_service_in_database localhost env anyType message w"
proof -
  have "test_unknown_service localhost env anyType message w"
    by (simp add: test_unknown_service_def fixture_identifiers request_defs fixture_found requires_nothing_sent_def)
      (simp add: fixture_server_def new_server_def cache_size_def empty_timers_cache_def)
  then show ?thesis
    by (simp add: test_service_in_map_def test_service_in_database_def fixture_identifiers fixture_sends fixture_found)
qed

section \<open>ModuleResponseConnectHandlerTest.cpp\<close>

text \<open>
  The handler of a new connection state gets a message whose body parses as the data of the
  section; what the tests look at afterwards is the state and the sequence code.
\<close>

definition connect_response_test ::
    "watchdog_protocol \<Rightarrow> octets \<Rightarrow> ConnectionState \<times> u32" where
  "connect_response_test P body =
     (let c = connect_handleResponse P (Some (make_message ConnectResponse body)) (new_watchdog_connection 0)
      in (getConnectionState (owner c), sequenceCode (owner c)))"

definition connect_protocol :: "connect_response_data \<Rightarrow> watchdog_protocol \<Rightarrow> watchdog_protocol" where
  "connect_protocol connectResponseData P = P\<lparr>parse_connect_response := \<lambda>body. connectResponseData\<rparr>"

lemma connect_handler_tests:
  "connect_response_test (connect_protocol \<lparr>responsecode = ConnectSuccess, sequencecode = Some 3\<rparr> P) body = (Connected, 3)"
  "fst (connect_response_test (connect_protocol \<lparr>responsecode = ConnectSuccess, sequencecode = None\<rparr> P) body) = NotConnected"
  "fst (connect_response_test (connect_protocol \<lparr>responsecode = InvalidConnectionState, sequencecode = None\<rparr> P) body) = NotConnected"
  "fst (connect_response_test (connect_protocol \<lparr>responsecode = NotModuleIdentifier, sequencecode = None\<rparr> P) body) = NotConnected"
  "fst (connect_response_test (connect_protocol \<lparr>responsecode = ModuleNotExists, sequencecode = None\<rparr> P) body) = NotConnected"
  "fst (connect_response_test (connect_protocol \<lparr>responsecode = OtherResponseCode code, sequencecode = None\<rparr> P) body) = NotConnected"
  by (simp_all add: connect_response_test_def connect_protocol_def connect_handleResponse_def connect_handleReceivedMessage_def
      onResponseCodeSuccess_def new_watchdog_connection_def new_connection_def getConnectionState_def
      setConnectionStateAndNotifyAll_def setConnectionState_def make_message_def)

section \<open>ModuleResponsePingHandlerTest.cpp\<close>

text \<open>The one section sends the code of the connection and requires nothing; the timer is set.\<close>

definition ping_response_test :: "watchdog_protocol \<Rightarrow> octets \<Rightarrow> nat" where
  "ping_response_test P body =
     timerWaits (ping_handleResponse (P\<lparr>parse_ping_response := \<lambda>body. 3\<rparr>) (Some (make_message PingResponse body)) (new_watchdog_connection 3))"

lemma ping_handler_test: "ping_response_test P body = 1"
  by (simp add: ping_response_test_def ping_handleResponse_def new_watchdog_connection_def new_connection_def setTimerExpiration_def)

end
