(* ===== verification/Lock_Accounts.thy ===== *)
theory Lock_Accounts
  imports Lock_Usage Server_Codes
begin

text \<open>
  The action sequences of Lock_Usage against the operations of the server themselves: with the
  flags of a path read off the state it starts in, whatever an operation changes of the data that
  are shared, its actions store.
\<close>

section \<open>Changes and stores\<close>

definition accounts_for :: "actions \<Rightarrow> ('addr, 'any, 'h, 'w) server \<Rightarrow> ('addr, 'any, 'h, 'w) server \<Rightarrow> bool" where
  "accounts_for p s s' \<longleftrightarrow>
     (timersCache s' = timersCache s \<or> Store TimersData \<in> set p) \<and>
     (messageQueue s' = messageQueue s \<or> Store QueueData \<in> set p) \<and>
     (transactionAndTimerID s' = transactionAndTimerID s \<or> Store TransactionCodes \<in> set p) \<and>
     (eventsCache s' = eventsCache s \<or> Store EventHandlers \<in> set p) \<and>
     (handedOver s' = handedOver s \<or> Store UdpSocket \<in> set p) \<and>
     (servicesEndpointsMap s' = servicesEndpointsMap s \<or> Store Endpoints \<in> set p) \<and>
     (parkedMessages s' = parkedMessages s \<or> Store ParkedMessages \<in> set p)"

text \<open>The flags of a path.\<close>

definition service_found :: "('addr, 'any, 'h, 'w) server_env \<Rightarrow> i32 \<Rightarrow> ('addr, 'any, 'h, 'w) server \<Rightarrow> bool" where
  "service_found env i s \<longleftrightarrow> (case findDestination env i s of Done (Some d) u \<Rightarrow> True | _ \<Rightarrow> False)"

definition nothing_queued :: "('addr, 'any, 'h, 'w) server \<Rightarrow> bool" where
  "nothing_queued s \<longleftrightarrow> messageQueue s = []"

definition code_known :: "u32 \<Rightarrow> ('addr, 'any, 'h, 'w) server \<Rightarrow> bool" where
  "code_known code s \<longleftrightarrow> transactionAndTimerID s code \<noteq> None"

lemma pushAndSend_accounts:
  assumes "leaves (pushAndSend env d m s) = Some s'"
  shows "accounts_for (pushAndSend_actions (nothing_queued s)) s s'"
  using assms
  by (cases "messageQueue s")
    (auto simp: pushAndSend_result nothing_queued_def accounts_for_def after_send_def server_actions Let_def split: option.splits)

lemma sender_accounts:
  assumes "parkedMessages s = []"
  shows "leaves (sendRequest env i any s) = Some s' \<Longrightarrow>
      accounts_for (sendRequest_actions (service_found env i s) (nothing_queued s)) s s'"
    and "leaves (sendSubscribeRequest env i ty s) = Some s' \<Longrightarrow>
      accounts_for (sendRequest_actions (service_found env i s) (nothing_queued s)) s s'"
    and "leaves (sendRequestMessage env i m s) = Some s' \<Longrightarrow>
      accounts_for (sendRequestMessage_actions (service_found env i s) (nothing_queued s)) s s'"
proof -
  have same: "accounts_for p s s" for p by (simp add: accounts_for_def)
  have drawn: "accounts_for (sendRequest_actions True (nothing_queued s)) s s'"
    if "leaves (pushAndSend env d msg (s\<lparr>randCalls := n\<rparr>)) = Some s'" for d msg n
    using pushAndSend_accounts [OF that] by (auto simp: accounts_for_def sendRequest_actions_def nothing_queued_def)
  have ready: "accounts_for (sendRequestMessage_actions True (nothing_queued s)) s s'"
    if "leaves (pushAndSend env d msg s) = Some s'" for d msg
    using pushAndSend_accounts [OF that] by (auto simp: accounts_for_def sendRequestMessage_actions_def)
  consider (found) d where "findDestination env i s = Done (Some d) s" "service_found env i s"
    | (absent) "findDestination env i s = Done None s"
    | (throws) e where "findDestination env i s = Throws e s"
    | (never) "leaves (findDestination env i s) = None"
  proof (cases "findDestination env i s")
    case (Done d u)
    with findDestination_state(1) [OF Done] that(1,2) show ?thesis by (cases d) (auto simp: service_found_def)
  next
    case (Throws e u)
    with findDestination_state(2) [OF Throws] that(3) show ?thesis by blast
  qed (use that(4) in simp_all)
  note where_to = this
  show "accounts_for (sendRequest_actions (service_found env i s) (nothing_queued s)) s s'"
    if "leaves (sendRequest env i any s) = Some s'"
    using where_to
  proof cases
    case found
    with that drawn show ?thesis by (simp add: send_found(1) [OF _ assms])
  qed (use that same in \<open>cases "findDestination env i s"; simp add: sendRequest_def\<close>)+
  show "accounts_for (sendRequest_actions (service_found env i s) (nothing_queued s)) s s'"
    if "leaves (sendSubscribeRequest env i ty s) = Some s'"
    using where_to
  proof cases
    case found
    with that drawn show ?thesis by (simp add: send_found(2) [OF _ assms])
  qed (use that same in \<open>cases "findDestination env i s"; simp add: sendSubscribeRequest_def\<close>)+
  show "accounts_for (sendRequestMessage_actions (service_found env i s) (nothing_queued s)) s s'"
    if "leaves (sendRequestMessage env i m s) = Some s'"
    using where_to
  proof cases
    case found
    with that ready show ?thesis by (simp add: send_found(3) [OF _ assms])
  qed (use that same in \<open>cases "findDestination env i s"; simp add: sendRequestMessage_def\<close>)+
qed

lemma postSend_accounts:
  assumes "postSendToDestination env error s = Done () s'"
  shows "accounts_for (postSend_actions error (tl (messageQueue s) \<noteq> [])) s s'"
proof (cases "error \<or> tl (messageQueue s) = []")
  case True
  with assms show ?thesis
    by (cases "messageQueue s") (auto simp: postSendToDestination_def processSendError_def pop_def queue_empty_def
        accounts_for_def server_actions Let_def split: if_splits)
next
  case False
  then obtain dm d m q where q: "messageQueue s = dm # (d, m) # q"
    by (cases "messageQueue s"; cases "tl (messageQueue s)") auto
  let ?s = "s\<lparr>inFlight := tl (inFlight s), messageQueue := (d, m) # q\<rparr>"
  from assms False q have "send env ?s = Done () s'"
    by (simp add: postSendToDestination_def pop_def queue_empty_def Let_def)
  with send_result [of ?s d m q env] False q show ?thesis
    by (auto simp: accounts_for_def after_send_def server_actions split: option.splits)
qed

text \<open>The timer of a code is in the cache.\<close>

definition timer_found :: "u32 \<Rightarrow> ('addr, 'any, 'h, 'w) server \<Rightarrow> bool" where
  "timer_found code s \<longleftrightarrow>
     (case transactionAndTimerID s code of None \<Rightarrow> False | Some i \<Rightarrow> i \<in> set (timer_ids (timersCache s)))"

definition response_actions :: "'any message \<Rightarrow> ('addr, 'any, 'h, 'w) server \<Rightarrow> actions" where
  "response_actions m s =
     (let code = header_transactioncode m
      in handleResponse_actions (msgResponse m = Some Success) (code_known code s) (timer_found code s))"

lemma handleResponse_accounts:
  "handleResponse m s = Done () s' \<Longrightarrow> accounts_for (response_actions m s) s s'"
  by (auto simp: handleResponse_def response_actions_def code_known_def timer_found_def accounts_for_def server_actions
      removeTimer_iff Let_def split: option.splits if_splits)

text \<open>The completion of a receive, by what the datagram turns out to be.\<close>

definition received_as :: "('addr, 'any, 'h, 'w) server_env \<Rightarrow> bytes option \<Rightarrow> ('addr, 'any, 'h, 'w) server \<Rightarrow> received" where
  "received_as env datagram s =
     (case datagram of None \<Rightarrow> Receive_error
      | Some d \<Rightarrow>
          (case parse env (take (messageBufferLength s) d) of None \<Rightarrow> Unreadable
           | Some m \<Rightarrow>
               if \<not> has_header m then Unreadable
               else if has_request m then A_request
               else if has_response m then
                 (let code = header_transactioncode m
                  in A_response (msgResponse m = Some Success) (code_known code s) (timer_found code s))
               else Unreadable))"

lemma accounts_for_more: "accounts_for p s s' \<Longrightarrow> set p \<subseteq> set q \<Longrightarrow> accounts_for q s s'"
  by (auto simp: accounts_for_def)

lemma accounts_for_reading: "accounts_for p (s\<lparr>readingStarted := b\<rparr>) s' = accounts_for p s s'"
  by (simp add: accounts_for_def)

lemma response_actions_reading: "response_actions m (s\<lparr>readingStarted := b\<rparr>) = response_actions m s"
  by (cases "transactionAndTimerID s (header_transactioncode m)")
    (simp_all add: response_actions_def code_known_def timer_found_def Let_def)

lemma postReceive_accounts:
  assumes "postReceive env datagram s = Done () s'"
  shows "accounts_for (postReceive_actions (received_as env datagram s)) s s'"
proof (cases "\<exists>d m. datagram = Some d \<and> parse env (take (messageBufferLength s) d) = Some m \<and> has_header m \<and>
    \<not> has_request m \<and> has_response m")
  case True
  then obtain d m where m: "datagram = Some d" "parse env (take (messageBufferLength s) d) = Some m" "has_header m"
    "\<not> has_request m" "has_response m" by blast
  with assms have "handleResponse m (s\<lparr>readingStarted := True\<rparr>) = Done () s'"
    by (simp add: postReceive_def startReading_def Let_def)
  from handleResponse_accounts [OF this] have "accounts_for (response_actions m s) s s'"
    by (simp add: accounts_for_reading response_actions_reading)
  moreover have "set (response_actions m s) \<subseteq> set (postReceive_actions (received_as env datagram s))"
    using m by (auto simp: received_as_def postReceive_actions_def response_actions_def Let_def)
  ultimately show ?thesis by (rule accounts_for_more)
next
  case False
  then have "accounts_for [] s s'"
    using assms
    by (auto simp: postReceive_def processHandleReceiveError_def startReading_def handleRequest_def accounts_for_def Let_def
        split: option.splits if_splits)
  then show ?thesis by (rule accounts_for_more) simp
qed

text \<open>The lambda of a resend timer; the map is stored into only when it has the code.\<close>

lemma resendMessage_accounts:
  assumes "parkedMessages s = []" and "leaves (resendMessage env (Some p) s) = Some s'"
  shows "accounts_for (resendMessage_actions (code_known (transactionCode p) s)
    (service_found env (serviceIdentifier (destination p)) s) (nothing_queued s)) s s'"
proof -
  let ?s = "forget_code (transactionCode p) s"
  have "leaves (sendRequestMessage env (serviceIdentifier (destination p)) (parkedMessage p) ?s) = Some s'"
    using assms(2) by (cases "sendRequestMessage env (serviceIdentifier (destination p)) (parkedMessage p) ?s")
      (simp_all add: resendMessage_Some)
  moreover have "parkedMessages ?s = []" using assms(1) by (simp add: forget_code_def)
  ultimately have "accounts_for (sendRequestMessage_actions (service_found env (serviceIdentifier (destination p)) ?s) (nothing_queued ?s)) ?s s'"
    using sender_accounts(3) by blast
  moreover have "service_found env i ?s = service_found env i s" for i
    by (simp add: service_found_def forget_code_def findDestination_def split: option.split sum.split)
  ultimately show ?thesis
    by (auto simp: accounts_for_def forget_code_def nothing_queued_def code_known_def resendMessage_actions_def)
qed

section \<open>Property\<close>

text \<open>C5:
  The locking model and the functional one belong together: in every reachable state, for each
  operation of the server, with the flags of its path read off the state, every shared field that
  the operation changes is stored by its actions. So the data of which the locking model says
  that no call stores them, or that they are stored under their mutex only, are those of the code.
\<close>
theorem actions_account_for_changes:
  assumes "server_reachable env y"
  shows "(leaves (sendRequest env i any (srv y)) = Some s' \<longrightarrow>
      accounts_for (sendRequest_actions (service_found env i (srv y)) (nothing_queued (srv y))) (srv y) s') \<and>
    (leaves (sendSubscribeRequest env i ty (srv y)) = Some s' \<longrightarrow>
      accounts_for (sendRequest_actions (service_found env i (srv y)) (nothing_queued (srv y))) (srv y) s') \<and>
    (leaves (sendRequestMessage env i m (srv y)) = Some s' \<longrightarrow>
      accounts_for (sendRequestMessage_actions (service_found env i (srv y)) (nothing_queued (srv y))) (srv y) s') \<and>
    (postSendToDestination env error (srv y) = Done () s' \<longrightarrow>
      accounts_for (postSend_actions error (tl (messageQueue (srv y)) \<noteq> [])) (srv y) s') \<and>
    (postReceive env datagram (srv y) = Done () s' \<longrightarrow>
      accounts_for (postReceive_actions (received_as env datagram (srv y))) (srv y) s') \<and>
    (leaves (resendMessage env (Some p) (srv y)) = Some s' \<longrightarrow>
      accounts_for (resendMessage_actions (code_known (transactionCode p) (srv y))
        (service_found env (serviceIdentifier (destination p)) (srv y)) (nothing_queued (srv y))) (srv y) s')"
proof -
  have parked: "parkedMessages (srv y) = []" using server_okD(1) [OF server_reachable_ok [OF assms]] .
  show ?thesis
    by (intro conjI impI sender_accounts [OF parked] postSend_accounts postReceive_accounts resendMessage_accounts [OF parked])
qed

theorem actions_account_for_changes_witness:
  "\<exists>s'. leaves (sendRequest sample_env 872415233 (Some 9) (srv sample_start)) = Some s' \<and>
     handedOver s' \<noteq> handedOver (srv sample_start) \<and>
     Store UdpSocket \<in> set (sendRequest_actions (service_found sample_env 872415233 (srv sample_start)) (nothing_queued (srv sample_start)))"
proof -
  let ?s = "srv sample_start"
  have s: "servicesEndpointsMap ?s 872415233 = Some (1, 7)" "messageQueue ?s = []" "parkedMessages ?s = []"
    "timersCache ?s = empty_timers_cache"
    by (simp_all add: sample_start_def started_server_def new_server_def startReading_def)
  have room: "timers_room ?s" using s(4) by (simp add: cache_inv_empty) (simp add: empty_timers_cache_def)
  obtain s' where run: "sendRequest sample_env 872415233 (Some 9) ?s = Done True s'" and sent: "handedOver s' \<noteq> handedOver ?s"
    using sendRequest_alone [OF known_destination [OF s(1)] s(2,3) room, of sample_env "Some 9"] by (metis append_self_conv not_Cons_self2)
  from run have left: "leaves (sendRequest sample_env 872415233 (Some 9) ?s) = Some s'" by simp
  with actions_account_for_changes [OF sample_start_reachable, THEN conjunct1] sent show ?thesis
    by (auto simp: accounts_for_def)
qed

end
