(* ===== verification/Connection_Accounts.thy ===== *)
theory Connection_Accounts
  imports Lock_Usage Watchdog_Connection
begin

text \<open>
  The action sequences of Lock_Usage against the operations of the watchdog connection: with the
  flags of a path read off the connection it starts in, whatever an operation changes of the data
  that are shared, its actions store. The counterpart of Lock_Accounts for the TCP side.
\<close>

section \<open>Changes and stores\<close>

text \<open>The front element is another one when the queue had one and has it no longer in front.\<close>

definition same_front :: "watchdog_connection \<Rightarrow> watchdog_connection \<Rightarrow> bool" where
  "same_front c c' \<longleftrightarrow> messagesQueue c = [] \<or> messagesQueue c' \<noteq> [] \<and> hd (messagesQueue c') = hd (messagesQueue c)"

text \<open>The operations that were started on the socket and have no completion belong to it.\<close>

definition same_socket :: "watchdog_connection \<Rightarrow> watchdog_connection \<Rightarrow> bool" where
  "same_socket c c' \<longleftrightarrow> socketPresent c' = socketPresent c \<and> socketIsOpen c' = socketIsOpen c \<and>
     pendingReads c' = pendingReads c \<and> pendingWrites c' = pendingWrites c"

definition link_accounts :: "actions \<Rightarrow> watchdog_connection \<Rightarrow> watchdog_connection \<Rightarrow> bool" where
  "link_accounts p c c' \<longleftrightarrow>
     (messagesQueue c' = messagesQueue c \<or> Store TcpQueueData \<in> set p) \<and>
     (same_front c c' \<or> Store TcpFrontMessage \<in> set p) \<and>
     (connectionState (owner c') = connectionState (owner c) \<or> Store StateData \<in> set p) \<and>
     (same_socket c c' \<or> Store TcpSocket \<in> set p) \<and>
     (timerWaits c' = timerWaits c \<or> Store TcpTimer \<in> set p)"

lemmas account_defs = link_accounts_def same_front_def same_socket_def watchdog_actions

section \<open>The flags of a path\<close>

definition is_connected :: "watchdog_connection \<Rightarrow> bool" where
  "is_connected c \<longleftrightarrow> connectionState (owner c) = Connected"

definition send_starts :: "watchdog_connection \<Rightarrow> bool" where
  "send_starts c \<longleftrightarrow> socketPresent c \<and> socketIsOpen c \<and> \<not> sendingInProgress c"

definition header_written_actions :: "nat option \<Rightarrow> watchdog_connection \<Rightarrow> actions" where
  "header_written_actions result c =
     postWriteMessageHeader_actions (result = None) (socketIsOpen c) (is_connected c) (result = Some header_bytes)
       (msgBody (hd (messagesQueue c)) = []) (tl (messagesQueue c) \<noteq> [])"

definition body_written_actions :: "bool \<Rightarrow> watchdog_connection \<Rightarrow> actions" where
  "body_written_actions error c =
     postWriteMessageBody_actions error (socketIsOpen c) (is_connected c) (tl (messagesQueue c) \<noteq> [])"

definition header_read_actions :: "(nat \<times> operation message_header) option \<Rightarrow> watchdog_connection \<Rightarrow> actions" where
  "header_read_actions result c =
     postReadMessageHeader_actions (result = None) (socketIsOpen c) (is_connected c)
       (case result of None \<Rightarrow> False | Some (n, h) \<Rightarrow> n = header_bytes \<and> bodySize h \<noteq> 0)"

definition answer_read :: "watchdog_protocol \<Rightarrow> octets \<Rightarrow> watchdog_connection \<Rightarrow> watchdog_says" where
  "answer_read P body c =
     (case incomingMessage c of None \<Rightarrow> Other_answer
      | Some m \<Rightarrow>
          (case operationCode (msgHead m) of
             ConnectResponse \<Rightarrow> Connect_answer (is_connected c)
           | PingResponse \<Rightarrow> Ping_answer (parse_ping_response P body = sequenceCode (owner c))
           | _ \<Rightarrow> Other_answer))"

definition body_read_actions :: "watchdog_protocol \<Rightarrow> octets option \<Rightarrow> watchdog_connection \<Rightarrow> actions" where
  "body_read_actions P result c =
     postReadMessageBody_actions (result = None) (socketIsOpen c) (is_connected c)
       (case result of None \<Rightarrow> Other_answer | Some body \<Rightarrow> answer_read P body c)"

text \<open>A completion handler starts with the operation no longer pending.\<close>

definition write_completed :: "watchdog_connection \<Rightarrow> watchdog_connection" where
  "write_completed c = c\<lparr>pendingWrites := tl (pendingWrites c)\<rparr>"

definition read_completed :: "watchdog_connection \<Rightarrow> watchdog_connection" where
  "read_completed c = c\<lparr>pendingReads := tl (pendingReads c)\<rparr>"

definition wait_ended :: "watchdog_connection \<Rightarrow> watchdog_connection" where
  "wait_ended c = c\<lparr>timerWaits := timerWaits c - 1\<rparr>"

section \<open>Each operation\<close>

lemma disconnect_accounts:
  "link_accounts (disconnect_actions (socketIsOpen c) (is_connected c)) c ((wd_disconnect c)\<lparr>sendingInProgress := b\<rparr>)"
  "link_accounts (disconnect_actions (socketIsOpen c) (is_connected c)) c (wd_disconnect c)"
  by (simp_all add: account_defs is_connected_def wd_disconnect_def setConnectionStateAndNotifyAll_def
      setConnectionState_def getConnectionState_def Let_def)

lemma sendMessage_accounts:
  "sendMessage m c = Some c' \<Longrightarrow> link_accounts (sendMessage_actions (send_starts c)) c c'"
  by (cases "messagesQueue c")
    (auto simp: account_defs send_starts_def sendMessage_def push_def writeMessageHeader_def front_def Let_def
      split: if_splits option.splits)

lemma header_written_accounts:
  assumes "postWriteMessageHeader (watchdog_virtuals P) result c = Some c'"
  shows "link_accounts (header_written_actions result c) (write_completed c) c'"
proof (cases result)
  case None
  with assms disconnect_accounts(1) [of "write_completed c" False] show ?thesis
    by (simp add: postWriteMessageHeader_def watchdog_virtuals_def write_completed_def header_written_actions_def
        postWriteMessageHeader_actions_def is_connected_def Let_def)
next
  case (Some n)
  with assms show ?thesis
    by (cases "messagesQueue c"; cases "tl (messagesQueue c)")
      (auto simp: account_defs header_written_actions_def write_completed_def write_defs front_def pop_def
        queue_empty_def Let_def split: if_splits)
qed

lemma body_written_accounts:
  assumes "postWriteMessageBody (watchdog_virtuals P) error c = Some c'"
  shows "link_accounts (body_written_actions error c) (write_completed c) c'"
proof (cases error)
  case True
  with assms disconnect_accounts(1) [of "write_completed c" False] show ?thesis
    by (simp add: postWriteMessageBody_def watchdog_virtuals_def write_completed_def body_written_actions_def
        postWriteMessageBody_actions_def is_connected_def Let_def)
next
  case False
  with assms show ?thesis
    by (cases "messagesQueue c"; cases "tl (messagesQueue c)")
      (auto simp: account_defs body_written_actions_def write_completed_def write_defs front_def pop_def queue_empty_def
        Let_def split: if_splits)
qed

lemma header_read_accounts:
  assumes "postReadMessageHeader (watchdog_virtuals P) result c = Some c'"
  shows "link_accounts (header_read_actions result c) (read_completed c) c'"
proof (cases result)
  case None
  with assms disconnect_accounts(2) [of "read_completed c"] show ?thesis
    by (simp add: postReadMessageHeader_def watchdog_virtuals_def read_completed_def header_read_actions_def
        postReadMessageHeader_actions_def is_connected_def Let_def)
next
  case (Some r)
  with assms show ?thesis
    by (cases r; cases "incomingMessage c")
      (auto simp: account_defs header_read_actions_def read_completed_def read_defs Let_def split: if_splits)
qed

lemma answer_accounts:
  "link_accounts (handleReceivedMessage_actions (answer_read P body c)) c
     (wd_handleReceivedMessage P (map_option (\<lambda>m. m\<lparr>msgBody := body\<rparr>) (incomingMessage c)) (c\<lparr>incomingMessage := None\<rparr>))"
  by (cases "incomingMessage c"; cases "operationCode (msgHead (the (incomingMessage c)))")
    (simp_all add: account_defs answer_read_def is_connected_def watchdog_defs setTimerExpiration_def Let_def)

lemma body_read_accounts:
  assumes "postReadMessageBody (watchdog_virtuals P) allocated op0 result c = Some c'"
  shows "link_accounts (body_read_actions P result c) (read_completed c) c'"
proof (cases result)
  case None
  with assms disconnect_accounts(2) [of "read_completed c"] show ?thesis
    by (simp add: postReadMessageBody_def watchdog_virtuals_def read_completed_def body_read_actions_def
        postReadMessageBody_actions_def is_connected_def Let_def)
next
  case (Some body)
  let ?c = "read_completed c"
  let ?d = "wd_handleReceivedMessage P (map_option (\<lambda>m. m\<lparr>msgBody := body\<rparr>) (incomingMessage ?c)) (?c\<lparr>incomingMessage := None\<rparr>)"
  from Some assms have "startReadingSequence allocated op0 ?d = Some c'"
    by (simp add: postReadMessageBody_def watchdog_virtuals_def read_completed_def Let_def)
  then have "messagesQueue c' = messagesQueue ?d" "owner c' = owner ?d" "timerWaits c' = timerWaits ?d"
    by (auto simp: startReadingSequence_def readMessageHeader_def Let_def split: option.splits if_splits)
  moreover have "answer_read P body ?c = answer_read P body c"
    by (simp add: answer_read_def read_completed_def is_connected_def cong: option.case_cong operation.case_cong)
  moreover note answer_accounts [of P body ?c]
  ultimately show ?thesis
    using Some by (simp add: link_accounts_def same_front_def body_read_actions_def postReadMessageBody_actions_def)
qed

lemma timer_accounts:
  "timerExpired (watchdog_virtuals P) c = Some c' \<Longrightarrow> link_accounts (sendMessage_actions (send_starts c)) (wait_ended c) c'"
  using sendMessage_accounts [of _ "wait_ended c" c']
  by (simp add: timerExpired_def watchdog_virtuals_def wd_onTimerExpiration_def sendPing_def wait_ended_def send_starts_def)

lemma socket_accounts:
  "link_accounts makeNewSocket_actions c (makeNewSocket c)"
  "link_accounts connect_actions c (snd (connect succeeds c))"
  "link_accounts (closeSocket_actions (socketIsOpen c)) c (closeSocket c)"
  "link_accounts setTimerExpiration_actions c (setTimerExpiration ms c)"
  by (simp_all add: account_defs makeNewSocket_def connect_def closeSocket_def setTimerExpiration_def Let_def)

section \<open>Property\<close>

text \<open>C6:
  The locking model of the watchdog connection and the functional one belong together: for every
  operation and completion handler of the connection, with the flags of its path read off the
  connection it starts in, its message queue, the element in front, the state behind the mutex,
  the socket with what was started on it, and the timer change only where its actions store them.
\<close>
theorem connection_actions_account:
  "(sendMessage m c = Some c' \<longrightarrow> link_accounts (sendMessage_actions (send_starts c)) c c') \<and>
   (postWriteMessageHeader (watchdog_virtuals P) written c = Some c' \<longrightarrow>
      link_accounts (header_written_actions written c) (write_completed c) c') \<and>
   (postWriteMessageBody (watchdog_virtuals P) error c = Some c' \<longrightarrow>
      link_accounts (body_written_actions error c) (write_completed c) c') \<and>
   (postReadMessageHeader (watchdog_virtuals P) header c = Some c' \<longrightarrow>
      link_accounts (header_read_actions header c) (read_completed c) c') \<and>
   (postReadMessageBody (watchdog_virtuals P) allocated op0 body c = Some c' \<longrightarrow>
      link_accounts (body_read_actions P body c) (read_completed c) c') \<and>
   (timerExpired (watchdog_virtuals P) c = Some c' \<longrightarrow>
      link_accounts (sendMessage_actions (send_starts c)) (wait_ended c) c') \<and>
   link_accounts makeNewSocket_actions c (makeNewSocket c) \<and>
   link_accounts connect_actions c (snd (connect succeeds c)) \<and>
   link_accounts (closeSocket_actions (socketIsOpen c)) c (closeSocket c) \<and>
   link_accounts setTimerExpiration_actions c (setTimerExpiration ms c)"
  by (intro conjI impI sendMessage_accounts header_written_accounts body_written_accounts header_read_accounts
      body_read_accounts timer_accounts socket_accounts)

text \<open>A lost connection: the read fails, and the state and the socket are stored.\<close>

theorem connection_actions_account_witness:
  "\<exists>c'. postReadMessageHeader (watchdog_virtuals sample_protocol) None sample_watchdog = Some c' \<and>
     connectionState (owner c') = NotConnected \<and> \<not> socketIsOpen c' \<and>
     Store StateData \<in> set (header_read_actions None sample_watchdog) \<and>
     Store TcpSocket \<in> set (header_read_actions None sample_watchdog)"
proof -
  let ?d = "wd_disconnect (read_completed sample_watchdog)"
  have lost: "postReadMessageHeader (watchdog_virtuals sample_protocol) None sample_watchdog = Some ?d"
    by (simp add: postReadMessageHeader_def watchdog_virtuals_def read_completed_def Let_def)
  have d: "connectionState (owner ?d) = NotConnected" "\<not> socketIsOpen ?d" "socketIsOpen (read_completed sample_watchdog)"
    "connectionState (owner (read_completed sample_watchdog)) = Connected"
    by (simp_all add: sample_watchdog_def read_completed_def wd_disconnect_def getConnectionState_def
        setConnectionStateAndNotifyAll_def setConnectionState_def Let_def)
  from connection_actions_account [of _ sample_watchdog ?d sample_protocol] lost
  have "link_accounts (header_read_actions None sample_watchdog) (read_completed sample_watchdog) ?d" by blast
  with d have "Store StateData \<in> set (header_read_actions None sample_watchdog)"
    and "Store TcpSocket \<in> set (header_read_actions None sample_watchdog)"
    by (auto simp: link_accounts_def same_socket_def)
  with lost d show ?thesis by blast
qed

end
