(* ===== verification/Heartbeats.thy ===== *)
theory Heartbeats
  imports Watchdog_Heartbeat
begin

text \<open>
  Several heartbeats on one connection, in any interleaving of the timer, the completions and the
  watchdog. Each wait on the timer that ends sends a ping, also one that a new expiration time
  cancels, so the waits are counted and not timed; each answer with the right code starts another.
\<close>

section \<open>The module and its watchdog\<close>

text \<open>
  \<open>unanswered\<close>: the pings that are on the wire as a whole and have no answer. \<open>answers\<close>: the
  answers that are not read as a whole, and whether they carry the code of the connection.
  \<open>refused\<close> and \<open>unasked\<close> count the pings answered with another code and the answers to no ping.
\<close>

record heart =
  link :: watchdog_connection
  unanswered :: nat
  answers :: "bool list"
  refused :: nat
  unasked :: nat

text \<open>What the watchdog sends: the header of a ping response, and a body with the code or with another.\<close>

record watchdog_answer =
  answerHeader :: "operation message_header"
  rightBody :: octets
  wrongBody :: octets

definition answer_ok :: "watchdog_protocol \<Rightarrow> watchdog_answer \<Rightarrow> u32 \<Rightarrow> bool" where
  "answer_ok P a code \<longleftrightarrow> operationCode (answerHeader a) = PingResponse \<and> bodySize (answerHeader a) \<noteq> 0 \<and>
     parse_ping_response P (rightBody a) = code \<and> parse_ping_response P (wrongBody a) \<noteq> code \<and>
     serialize_ping_request P code \<noteq> []"

definition answer_body :: "watchdog_answer \<Rightarrow> bool \<Rightarrow> octets" where
  "answer_body a right = (if right then rightBody a else wrongBody a)"

inductive heart_step :: "watchdog_protocol \<Rightarrow> watchdog_answer \<Rightarrow> heart \<Rightarrow> heart \<Rightarrow> bool" for P a where
  expires: "0 < timerWaits (link y) \<Longrightarrow> timerExpired (watchdog_virtuals P) (link y) = Some c \<Longrightarrow>
    heart_step P a y (y\<lparr>link := c\<rparr>)"
| header_out: "pendingWrites (link y) = WriteHeader # ws \<Longrightarrow>
    postWriteMessageHeader (watchdog_virtuals P) (Some header_bytes) (link y) = Some c \<Longrightarrow> heart_step P a y (y\<lparr>link := c\<rparr>)"
| body_out: "pendingWrites (link y) = WriteBody # ws \<Longrightarrow>
    postWriteMessageBody (watchdog_virtuals P) False (link y) = Some c \<Longrightarrow>
    heart_step P a y (y\<lparr>link := c, unanswered := Suc (unanswered y)\<rparr>)"
| answered: "unanswered y = Suc n \<Longrightarrow>
    heart_step P a y (y\<lparr>unanswered := n, answers := answers y @ [right],
      refused := refused y + (if right then 0 else 1)\<rparr>)"
| unasked_answer: "heart_step P a y (y\<lparr>answers := answers y @ [True], unasked := Suc (unasked y)\<rparr>)"
| header_in: "answers y = right # rest \<Longrightarrow> pendingReads (link y) = ReadHeader # rs \<Longrightarrow>
    postReadMessageHeader (watchdog_virtuals P) (Some (header_bytes, answerHeader a)) (link y) = Some c \<Longrightarrow>
    heart_step P a y (y\<lparr>link := c\<rparr>)"
| body_in: "answers y = right # rest \<Longrightarrow> pendingReads (link y) = ReadBody n # rs \<Longrightarrow>
    postReadMessageBody (watchdog_virtuals P) True op0 (Some (answer_body a right)) (link y) = Some c \<Longrightarrow>
    heart_step P a y (y\<lparr>link := c, answers := rest\<rparr>)"

inductive heart_steps :: "watchdog_protocol \<Rightarrow> watchdog_answer \<Rightarrow> heart \<Rightarrow> heart \<Rightarrow> bool" for P a where
  refl: "heart_steps P a y y"
| step: "heart_steps P a y z \<Longrightarrow> heart_step P a z v \<Longrightarrow> heart_steps P a y v"

text \<open>The heartbeats there are: waits, pings that are queued or without answer, and right answers.\<close>

definition heartbeats :: "heart \<Rightarrow> nat" where
  "heartbeats y = timerWaits (link y) + length (messagesQueue (link y)) + unanswered y + length (filter id (answers y))"

section \<open>The invariant\<close>

text \<open>Only pings are queued, one of them being written when there is any, and one read is pending.\<close>

definition heart_ok :: "watchdog_protocol \<Rightarrow> u32 \<Rightarrow> heart \<Rightarrow> bool" where
  "heart_ok P code y \<longleftrightarrow>
     (let c = link y
      in socketPresent c \<and> socketIsOpen c \<and> connectionState (owner c) = Connected \<and> sequenceCode (owner c) = code \<and>
         (\<exists>n. messagesQueue c = replicate n (make_message PingRequest (serialize_ping_request P code))) \<and>
         (if messagesQueue c = [] then pendingWrites c = [] \<and> \<not> sendingInProgress c
          else (pendingWrites c = [WriteHeader] \<or> pendingWrites c = [WriteBody]) \<and> sendingInProgress c) \<and>
         (\<exists>m. incomingMessage c = Some m \<and>
            (pendingReads c = [ReadHeader] \<or>
             operationCode (msgHead m) = PingResponse \<and> answers y \<noteq> [] \<and> (\<exists>n. pendingReads c = [ReadBody n]))))"

lemmas write_handlers = writeMessageHeader_def postWriteMessageHeader_def writeMessageBody_def postWriteMessageBody_def
  front_def pop_def queue_empty_def Let_def
lemmas read_handlers = postReadMessageHeader_def readMessageBody_def postReadMessageBody_def startReadingSequence_def
  readMessageHeader_def watchdog_virtuals_def wd_handleReceivedMessage_def getResponseHandler_def ping_handleResponse_def
  setTimerExpiration_def Let_def

lemma replicate_once_more: "\<exists>m. x # replicate n x = replicate m x" "\<exists>m. [x] = replicate m x"
  by (rule exI [of _ "Suc n"]; simp) (rule exI [of _ 1]; simp)

text \<open>What each handler does to a connection of that shape.\<close>

lemma ping_sent:
  assumes "heart_ok P code y"
  shows "timerExpired (watchdog_virtuals P) (link y) =
    (let c = (link y)\<lparr>timerWaits := timerWaits (link y) - 1,
        messagesQueue := messagesQueue (link y) @ [make_message PingRequest (serialize_ping_request P code)]\<rparr>
     in if messagesQueue (link y) = [] then Some (c\<lparr>sendingInProgress := True, pendingWrites := [WriteHeader]\<rparr>) else Some c)"
  using assms
  by (auto simp: heart_ok_def timerExpired_def watchdog_virtuals_def wd_onTimerExpiration_def sendPing_def sendMessage_def
      push_def write_handlers)

lemma ping_header_out:
  assumes "heart_ok P code y" and "serialize_ping_request P code \<noteq> []" and "pendingWrites (link y) = WriteHeader # ws"
  shows "\<exists>w. postWriteMessageHeader (watchdog_virtuals P) (Some header_bytes) (link y) =
    Some ((link y)\<lparr>wire := w, pendingWrites := [WriteBody]\<rparr>)"
proof -
  from assms obtain m q where q: "messagesQueue (link y) = m # q" and "msgBody m \<noteq> []"
    by (cases "messagesQueue (link y)") (auto simp: heart_ok_def make_message_def Cons_replicate_eq Let_def)
  with assms show ?thesis
    by (intro exI [of _ "wire (link y) @ [WireHeader (msgHead m)]"]) (auto simp: heart_ok_def write_handlers)
qed

lemma ping_body_out:
  assumes "heart_ok P code y" and "pendingWrites (link y) = WriteBody # ws"
  shows "\<exists>w. postWriteMessageBody (watchdog_virtuals P) False (link y) =
    Some (let c = (link y)\<lparr>wire := w, messagesQueue := tl (messagesQueue (link y))\<rparr>
      in if tl (messagesQueue (link y)) = [] then c\<lparr>pendingWrites := [], sendingInProgress := False\<rparr>
         else c\<lparr>pendingWrites := [WriteHeader]\<rparr>)"
proof -
  from assms obtain m q where q: "messagesQueue (link y) = m # q"
    by (cases "messagesQueue (link y)") (auto simp: heart_ok_def Let_def)
  moreover from assms q have "pendingWrites (link y) = [WriteBody]" "socketPresent (link y)"
    by (auto simp: heart_ok_def Let_def)
  ultimately show ?thesis
    by (intro exI [of _ "wire (link y) @ [WireBody (msgBody m)]"])
      (cases q; simp add: write_handlers)
qed

lemma ping_header_in:
  assumes "heart_ok P code y" and "bodySize (answerHeader a) \<noteq> 0" and "pendingReads (link y) = ReadHeader # rs"
  shows "\<exists>m n. postReadMessageHeader (watchdog_virtuals P) (Some (header_bytes, answerHeader a)) (link y) =
    Some ((link y)\<lparr>incomingMessage := Some (m\<lparr>msgHead := answerHeader a\<rparr>), pendingReads := [ReadBody n]\<rparr>)"
proof -
  from assms(1) obtain m where "incomingMessage (link y) = Some m" by (auto simp: heart_ok_def Let_def)
  with assms show ?thesis
    by (intro exI [of _ "m\<lparr>msgBody := replicate (unat (bodySize (answerHeader a))) 0\<rparr>"]
          exI [of _ "unat (bodySize (answerHeader a))"])
      (auto simp: heart_ok_def postReadMessageHeader_def readMessageBody_def Let_def)
qed

lemma ping_body_in:
  assumes "heart_ok P code y" and "answer_ok P a code" and "pendingReads (link y) = ReadBody n # rs"
  shows "\<exists>m. postReadMessageBody (watchdog_virtuals P) True op0 (Some (answer_body a right)) (link y) =
    Some ((link y)\<lparr>incomingMessage := Some m, pendingReads := [ReadHeader],
      timerWaits := timerWaits (link y) + (if right then 1 else 0)\<rparr>)"
  using assms
  by (intro exI [of _ "\<lparr>msgHead = \<lparr>operationCode = op0, bodySize = 0\<rparr>, msgBody = []\<rparr>"])
    (auto simp: heart_ok_def answer_ok_def answer_body_def read_handlers)

section \<open>Conservation\<close>

text \<open>What a step keeps, whoever takes it.\<close>

definition balanced :: "heart \<Rightarrow> heart \<Rightarrow> bool" where
  "balanced y z \<longleftrightarrow> heartbeats z + refused z + unasked y = heartbeats y + refused y + unasked z"

lemma heart_step_kept:
  assumes "heart_step P a y z" and "heart_ok P code y" and "answer_ok P a code"
  shows "heart_ok P code z \<and> balanced y z"
  using assms(1)
proof cases
  case (expires c)
  with ping_sent [OF assms(2)] assms(2) show ?thesis
    by (auto simp: heart_ok_def balanced_def heartbeats_def Let_def replicate_append_same replicate_once_more split: if_splits)
next
  case (header_out ws c)
  with ping_header_out [OF assms(2), of ws] assms(2,3) show ?thesis
    by (auto simp: answer_ok_def heart_ok_def balanced_def heartbeats_def Let_def split: if_splits)
next
  case (body_out ws c)
  with assms(2) obtain m q where q: "messagesQueue (link y) = m # q"
    by (cases "messagesQueue (link y)") (auto simp: heart_ok_def Let_def)
  have rest: "\<exists>n. q = replicate n (make_message PingRequest (serialize_ping_request P code))"
    using assms(2) q by (auto simp: heart_ok_def Cons_replicate_eq Let_def)
  have ok: "heart_ok P code z"
    using rest q body_out ping_body_out [OF assms(2) body_out(2)] assms(2)
    by (cases "q = []") (auto simp: heart_ok_def Let_def)
  have "length (messagesQueue c) = length q" "timerWaits c = timerWaits (link y)"
    using q body_out(3) ping_body_out [OF assms(2) body_out(2)] by (cases "q = []"; auto simp: Let_def)+
  with q ok body_out(1) show ?thesis by (simp add: balanced_def heartbeats_def)
next
  case (header_in right rest rs c)
  with ping_header_in [OF assms(2), of a rs] assms(2,3) show ?thesis
    by (auto simp: answer_ok_def heart_ok_def balanced_def heartbeats_def Let_def split: if_splits)
next
  case (body_in right rest n rs op0 c)
  with ping_body_in [OF assms(2,3) body_in(3), where ?op0.0 = op0 and right = right] assms(2) show ?thesis
    by (auto simp: heart_ok_def balanced_def heartbeats_def Let_def split: if_splits)
next
  case (answered n right)
  with assms(2) show ?thesis by (auto simp: heart_ok_def balanced_def heartbeats_def Let_def)
next
  case unasked_answer
  with assms(2) show ?thesis by (auto simp: heart_ok_def balanced_def heartbeats_def Let_def)
qed

lemma heart_steps_kept:
  assumes "heart_steps P a y z" and "heart_ok P code y" and "answer_ok P a code"
  shows "heart_ok P code z \<and> balanced y z"
  using assms
proof (induction rule: heart_steps.induct)
  case (step y z v)
  with heart_step_kept [of P a z v code] show ?case by (simp add: balanced_def)
qed (simp add: balanced_def)

text \<open>Some handler runs, or the watchdog answers, as long as there is a heartbeat or an answer to read.\<close>

lemma heart_goes_on:
  assumes ok: "heart_ok P code y" and a: "answer_ok P a code" and some: "0 < heartbeats y \<or> answers y \<noteq> []"
  shows "\<exists>z. heart_step P a y z \<and> unasked z = unasked y"
proof -
  consider (waiting) "0 < timerWaits (link y)" | (queued) "messagesQueue (link y) \<noteq> []"
    | (sent) n where "unanswered y = Suc n" | (answers) right rest where "answers y = right # rest"
    using some by (cases "unanswered y"; cases "answers y") (auto simp: heartbeats_def)
  then show ?thesis
  proof cases
    case waiting
    obtain c where "timerExpired (watchdog_virtuals P) (link y) = Some c"
      using ping_sent [OF ok] by (cases "messagesQueue (link y) = []") (auto simp: Let_def)
    from heart_step.expires [OF waiting this, of a] show ?thesis by (intro exI [of _ "y\<lparr>link := c\<rparr>"]) simp
  next
    case queued
    with ok consider "pendingWrites (link y) = [WriteHeader]" | "pendingWrites (link y) = [WriteBody]"
      by (auto simp: heart_ok_def Let_def)
    then show ?thesis
    proof cases
      case 1
      from a have "serialize_ping_request P code \<noteq> []" by (simp add: answer_ok_def)
      from ping_header_out [OF ok this 1] heart_step.header_out [OF 1, of P] show ?thesis by fastforce
    next
      case 2
      with ping_body_out [OF ok 2] heart_step.body_out [OF 2, of P] show ?thesis by fastforce
    qed
  next
    case (sent n)
    from heart_step.answered [OF this, of P a True] show ?thesis by fastforce
  next
    case (answers right rest)
    with ok consider "pendingReads (link y) = [ReadHeader]" | n where "pendingReads (link y) = [ReadBody n]"
      by (auto simp: heart_ok_def Let_def)
    then show ?thesis
    proof cases
      case 1
      from a have "bodySize (answerHeader a) \<noteq> 0" by (simp add: answer_ok_def)
      from ping_header_in [OF ok this 1] heart_step.header_in [OF answers 1, of P a] show ?thesis by fastforce
    next
      case (2 n)
      with ping_body_in [OF ok a 2] heart_step.body_in [OF answers 2, where P = P and a = a] show ?thesis by fastforce
    qed
  qed
qed

section \<open>Property\<close>

definition heart_start :: "watchdog_connection \<Rightarrow> heart" where
  "heart_start c = \<lparr>link = c, unanswered = 0, answers = [], refused = 0, unasked = 0\<rparr>"

lemma heart_start_ok: "heartbeat_ready c \<Longrightarrow> heart_ok P (sequenceCode (owner c)) (heart_start c)"
  by (auto simp: heartbeat_ready_def heart_start_def heart_ok_def intro: exI [of _ 0])

text \<open>C26:
  The heartbeats of a connected module, in every interleaving of its timer, the completions of
  its reads and writes and the answers of the watchdog. A heartbeat is always in exactly one
  place: a wait on the timer, a ping that is queued or without answer, or an answer to be read.
  There are as many of them as timers waited at first and answers came unasked, less the answers
  with another code: two heartbeats never join, and one lost never returns. The connection
  stays up, and as long as there is a heartbeat some step other than an unasked answer is possible.
\<close>
theorem heartbeats_conserved:
  assumes "heartbeat_ready c" and "answer_ok P a (sequenceCode (owner c))" and "heart_steps P a (heart_start c) z"
  shows "heartbeats z + refused z = timerWaits c + unasked z \<and>
    connectionState (owner (link z)) = Connected \<and> socketIsOpen (link z) \<and>
    (heartbeats z = 0 \<and> answers z = [] \<or> (\<exists>z'. heart_step P a z z' \<and> unasked z' = unasked z))"
proof -
  from heart_steps_kept [OF assms(3) heart_start_ok [OF assms(1)] assms(2)]
  have ok: "heart_ok P (sequenceCode (owner c)) z" and bal: "balanced (heart_start c) z" by simp_all
  from bal have "heartbeats z + refused z = timerWaits c + unasked z"
    using assms(1) by (simp add: balanced_def heartbeats_def heart_start_def heartbeat_ready_def)
  moreover from ok have "connectionState (owner (link z)) = Connected \<and> socketIsOpen (link z)"
    by (simp add: heart_ok_def Let_def)
  moreover from heart_goes_on [OF ok assms(2)]
  have "heartbeats z = 0 \<and> answers z = [] \<or> (\<exists>z'. heart_step P a z z' \<and> unasked z' = unasked z)"
    by (cases "heartbeats z = 0") auto
  ultimately show ?thesis by simp
qed

text \<open>One timer waits; an answer comes unasked: two heartbeats from then on.\<close>

definition sample_answer :: watchdog_answer where
  "sample_answer = \<lparr>answerHeader = \<lparr>operationCode = PingResponse, bodySize = 1\<rparr>, rightBody = [3], wrongBody = [9]\<rparr>"

theorem heartbeats_conserved_witness:
  "\<exists>z. heart_steps sample_protocol sample_answer (heart_start (sample_watchdog\<lparr>timerWaits := 1\<rparr>)) z \<and>
    answers z = [True] \<and> heartbeats z = 2 \<and> refused z = 0 \<and>
    (\<exists>z'. heart_step sample_protocol sample_answer z z' \<and> unasked z' = 1)"
proof -
  let ?c = "sample_watchdog\<lparr>timerWaits := 1\<rparr>"
  let ?z = "(heart_start ?c)\<lparr>answers := [True], unasked := 1\<rparr>"
  have ready: "heartbeat_ready ?c" and code: "sequenceCode (owner ?c) = 3" and wait: "timerWaits ?c = 1"
    by (simp_all add: heartbeat_ready_def sample_watchdog_def new_watchdog_connection_def new_connection_def)
  have ok: "answer_ok sample_protocol sample_answer (sequenceCode (owner ?c))"
    using code by (simp add: answer_ok_def sample_answer_def sample_protocol_def)
  have run: "heart_steps sample_protocol sample_answer (heart_start ?c) ?z"
    using heart_steps.step [OF heart_steps.refl heart_step.unasked_answer, of sample_protocol sample_answer "heart_start ?c"]
    by (simp add: heart_start_def)
  from heartbeats_conserved [OF ready ok run] wait
  have "heartbeats ?z = 2 \<and> (\<exists>z'. heart_step sample_protocol sample_answer ?z z' \<and> unasked z' = 1)"
    by (simp add: heart_start_def)
  with run show ?thesis by (intro exI [of _ ?z]) (simp add: heart_start_def)
qed

end
