(* ===== verification/User_Process.thy ===== *)
theory User_Process
  imports Startup Gps_Example
begin

text \<open>
  ModuleUserProcess.hpp: the class a user's program defines, as a member of ModuleBase: its
  constructor, its main and its destructor, with the calls into the module that they can make.
  The two example modules are users of it whose main never returns.
\<close>

section \<open>The calls of a user's program\<close>

text \<open>Requests and subscriptions through Module::Manager, handlers through EventManager.\<close>

datatype ('any, 'h) user_call =
    Send_a_request i32 "'any option"
  | Subscribe_to i32 string
  | Register_a_handler i32 "'h event option"

definition in_server ::
    "('addr, 'any, 'h, 'w, 'a) server_result \<Rightarrow> ('addr, 'any, 'h, 'w) module_base \<Rightarrow> ('addr, 'any, 'h, 'w, 'a) module_result" where
  "in_server r b =
     (case r of
        Done x s \<Rightarrow> Done x (b\<lparr>theServer := s\<rparr>)
      | Throws e s \<Rightarrow> Throws () (b\<lparr>theServer := s\<rparr>)
      | Blocks \<Rightarrow> Blocks
      | Undefined \<Rightarrow> Undefined)"

definition user_registers :: "i32 \<Rightarrow> 'h event option \<Rightarrow> ('addr, 'any, 'h, 'w) module_base \<Rightarrow> ('addr, 'any, 'h, 'w) module_base" where
  "user_registers i event b =
     (let g = registerNewEventHandler i event \<lparr>eventManager = eventManagerSet b, managedEvents = eventsCache (theServer b)\<rparr>
      in b\<lparr>theServer := (theServer b)\<lparr>eventsCache := managedEvents g\<rparr>\<rparr>)"

text \<open>What the call answers: nothing when it registers a handler.\<close>

fun do_user_call ::
    "('addr, 'any, 'h, 'w) server_env \<Rightarrow> ('any, 'h) user_call \<Rightarrow> ('addr, 'any, 'h, 'w) module_base
      \<Rightarrow> ('addr, 'any, 'h, 'w, bool option) module_result" where
  "do_user_call env (Send_a_request i any) b =
     andThen (in_server (manager_sendRequest env (theManager b) i any (theServer b)) b) (\<lambda>ok. Done (Some ok))"
| "do_user_call env (Subscribe_to i ty) b =
     andThen (in_server (manager_sendSubscribeRequest env (theManager b) i ty (theServer b)) b) (\<lambda>ok. Done (Some ok))"
| "do_user_call env (Register_a_handler i event) b = Done None (user_registers i event b)"

fun do_user_calls ::
    "('addr, 'any, 'h, 'w) server_env \<Rightarrow> ('any, 'h) user_call list \<Rightarrow> ('addr, 'any, 'h, 'w) module_base
      \<Rightarrow> ('addr, 'any, 'h, 'w, bool option list) module_result" where
  "do_user_calls env [] b = Done [] b"
| "do_user_calls env (c # cs) b =
     andThen (do_user_call env c b) (\<lambda>answer b. andThen (do_user_calls env cs b) (\<lambda>answers. Done (answer # answers)))"

section \<open>The constructor\<close>

text \<open>
  userTask is the last member of ModuleBase: it is constructed after the threads have started and
  before the body of the constructor of ModuleBase makes the server, the database instance and
  the event manager. \<open>user\<close> is what its constructor does.
\<close>

definition module_members :: "i32 \<Rightarrow> log_instance option \<Rightarrow> u32 \<Rightarrow> 'w \<Rightarrow> ('addr, 'any, 'h, 'w) module_base" where
  "module_members i logger code w =
     \<lparr>moduleIdentifierGlobal = i, runningGlobal = True, ioContextStopped = False, databaseInstance = False,
      eventManagerSet = False, theConfiguration = initial_configuration, theLog = logger,
      watchdogConnection = new_watchdog_connection code, theServer = new_server Map.empty [] w, theManager = None\<rparr>"

definition construct_module_base ::
    "bool \<Rightarrow> bool \<Rightarrow> (('addr, 'any, 'h, 'w) module_base \<Rightarrow> ('addr, 'any, 'h, 'w, unit) module_result)
      \<Rightarrow> i32 \<Rightarrow> log_instance option \<Rightarrow> u32 \<Rightarrow> 'w \<Rightarrow> ('addr, 'any, 'h, 'w, unit) module_result" where
  "construct_module_base db_constructs allocated user i logger code w =
     andThen (user (module_members i logger code w)) (\<lambda>_ b.
       let (_, db) = db_initialize db_constructs (databaseInstance b);
           (_, g) = initializeEventManager allocated \<lparr>eventManager = eventManagerSet b, managedEvents = eventsCache (theServer b)\<rparr>
       in Done () (b\<lparr>databaseInstance := db, eventManagerSet := eventManager g,
            theServer := (theServer b)\<lparr>eventsCache := managedEvents g\<rparr>\<rparr>))"

text \<open>A constructor that makes calls of the module and looks at none of the answers.\<close>

definition calling_constructor ::
    "('addr, 'any, 'h, 'w) server_env \<Rightarrow> ('any, 'h) user_call list \<Rightarrow> ('addr, 'any, 'h, 'w) module_base
      \<Rightarrow> ('addr, 'any, 'h, 'w, unit) module_result" where
  "calling_constructor env cs b = andThen (do_user_calls env cs b) (\<lambda>_. Done ())"

text \<open>Before the managers are set a call leaves the module as it is.\<close>

fun refusal :: "('any, 'h) user_call \<Rightarrow> bool option" where
  "refusal (Send_a_request i any) = Some False"
| "refusal (Subscribe_to i ty) = Some False"
| "refusal (Register_a_handler i event) = None"

lemma early_call:
  "theManager b = None \<Longrightarrow> \<not> eventManagerSet b \<Longrightarrow> do_user_call env c b = Done (refusal c) b"
  by (cases c) (simp_all add: in_server_def manager_sendRequest_def manager_sendSubscribeRequest_def user_registers_def
      registerNewEventHandler_def)

lemma early_calls:
  "theManager b = None \<Longrightarrow> \<not> eventManagerSet b \<Longrightarrow> do_user_calls env cs b = Done (map refusal cs) b"
  by (induction cs) (simp_all add: early_call)

section \<open>The main of the publisher\<close>

text \<open>
  The endless loop of the example that publishes its coordinates; \<open>others\<close> is what the other
  threads do to the module while it sleeps. No value: it never returns.
\<close>

partial_function (option) publisher_main ::
    "('addr, 'any, 'h, 'w, 'j, 'f) startup_env \<Rightarrow> 'any gps_protocol
      \<Rightarrow> (nat \<Rightarrow> ('addr, 'any, 'h, 'w) module_base \<Rightarrow> ('addr, 'any, 'h, 'w) module_base) \<Rightarrow> nat \<Rightarrow> i32
      \<Rightarrow> ('addr, 'any, 'h, 'w) module_base \<Rightarrow> ('addr, 'any, 'h, 'w, i32) module_result option" where
  "publisher_main E G others k n b =
     (case in_server (publish (configured_env E b) G (theManager b) n (theServer b)) b of
        Done n' b' \<Rightarrow> publisher_main E G others (Suc k) n' (others k b')
      | Throws e b' \<Rightarrow> Some (Throws e b')
      | Blocks \<Rightarrow> Some Blocks
      | Undefined \<Rightarrow> Some Undefined)"

definition publisher_task ::
    "('addr, 'any, 'h, 'w, 'j, 'f) startup_env \<Rightarrow> 'any gps_protocol
      \<Rightarrow> (nat \<Rightarrow> ('addr, 'any, 'h, 'w) module_base \<Rightarrow> ('addr, 'any, 'h, 'w) module_base)
      \<Rightarrow> ('addr, 'any, 'h, 'w) module_base \<Rightarrow> ('addr, 'any, 'h, 'w, i32) module_result" where
  "publisher_task E G others b =
     (case publisher_main E G others 0 1 b of None \<Rightarrow> Blocks | Some r \<Rightarrow> r)"

text \<open>Whatever it ends with, it does not return.\<close>

lemma publisher_main_no_result:
  assumes "publisher_main E G others k n b = Some r"
  shows "\<nexists>x b'. r = Done x b'"
  by (rule publisher_main.raw_induct [where P = "\<lambda>E G others k n b r. \<nexists>x b'. r = Done x b'", OF _ assms])
    (auto split: outcome.splits)

lemma publisher_task_no_result: "publisher_task E G others b \<noteq> Done x b'"
proof (cases "publisher_main E G others 0 1 b")
  case (Some r)
  with publisher_main_no_result [OF this] show ?thesis by (auto simp: publisher_task_def)
qed (simp add: publisher_task_def)

text \<open>When every request returns and the others keep the module ready, it goes on for ever.\<close>

lemma publisher_main_for_ever:
  assumes step: "\<And>k n b. Q b \<Longrightarrow>
      \<exists>n' b'. in_server (publish (configured_env E b) G (theManager b) n (theServer b)) b = Done n' b' \<and> Q (others k b')"
    and "Q b"
  shows "publisher_main E G others k n b = None"
proof (rule ccontr)
  assume "publisher_main E G others k n b \<noteq> None"
  then obtain r where result: "publisher_main E G others k n b = Some r" by blast
  let ?P = "\<lambda>E' G' others' k n b r. E' = E \<and> G' = G \<and> others' = others \<longrightarrow> \<not> Q b"
  have "?P E G others k n b r"
  proof (rule publisher_main.raw_induct [where P = ?P, OF _ result], intro impI notI)
    fix f E' G' others' k n b r
    assume IH: "\<And>E' G' others' k n b r. f E' G' others' k n b = Some r \<Longrightarrow> ?P E' G' others' k n b r"
      and body: "(case in_server (publish (configured_env E' b) G' (theManager b) n (theServer b)) b of
          Done n' b' \<Rightarrow> f E' G' others' (Suc k) n' (others' k b')
        | Throws e b' \<Rightarrow> Some (Throws e b') | Blocks \<Rightarrow> Some Blocks | Undefined \<Rightarrow> Some Undefined) = Some r"
      and same: "E' = E \<and> G' = G \<and> others' = others" and "Q b"
    from step [OF \<open>Q b\<close>, of n k] obtain n' b' where
      "in_server (publish (configured_env E b) G (theManager b) n (theServer b)) b = Done n' b'" and "Q (others k b')" by blast
    with body same IH [of E G others "Suc k" n' "others k b'" r] show False by simp
  qed
  with assms(2) show False by simp
qed

text \<open>The completion of the send and the answer of the service arrive during each sleep.\<close>

definition service_answers ::
    "('addr, 'any, 'h, 'w, 'j, 'f) startup_env \<Rightarrow> nat \<Rightarrow> ('addr, 'any, 'h, 'w) module_base \<Rightarrow> ('addr, 'any, 'h, 'w) module_base" where
  "service_answers E k b =
     (let env = configured_env E b; s = theServer b
      in case andThen (postSendToDestination env False s)
           (\<lambda>_. handleResponse (success_response 872415233 (drawn_code (rand env) 1000 (randCalls s - 1)))) of
           Done _ s' \<Rightarrow> b\<lparr>theServer := s'\<rparr>
         | _ \<Rightarrow> b)"

lemma publish_draws:
  assumes "at_rest e s"
  obtains s1 where "publish env G (Some True) n s = Done (n + 1) s1" and "randCalls s1 = Suc (randCalls s)"
proof -
  let ?d = "\<lparr>serviceIdentifier = 872415233, endpoint = e\<rparr>"
  let ?m = "next_request env (Some (pack_update_request G (moduleIdentifier env) n n)) s"
  have room: "timers_room s" using assms by (simp add: at_rest_def cache_inv_def)
  obtain i c where reg: "registerTimer (Some (resend_timer env (now s) ?d ?m)) (timersCache s) = Some (i, c)"
    by (rule registered_in_room [OF room])
  have "publish env G (Some True) n s =
      Done (n + 1) (after_send env ?d ?m i c (s\<lparr>randCalls := Suc (randCalls s), messageQueue := [(?d, ?m)]\<rparr>))"
    using send_found(1) [OF known_destination, of s 872415233 e env "Some (pack_update_request G (moduleIdentifier env) n n)"] assms reg
    by (simp add: publish_def manager_sendRequest_def first_service at_rest_def pushAndSend_result next_request_def)
  then show ?thesis by (rule that) (simp add: after_send_def)
qed

lemma publisher_served:
  assumes "at_rest e (theServer b)" and "theManager b = Some True"
  shows "publisher_main E G (service_answers E) k n b = None"
proof (rule publisher_main_for_ever [where Q = "\<lambda>b. at_rest e (theServer b) \<and> theManager b = Some True"])
  fix k n and b :: "('a, 'b, 'c, 'd) module_base"
  assume b: "at_rest e (theServer b) \<and> theManager b = Some True"
  let ?env = "configured_env E b"
  obtain s1 where pub: "publish ?env G (Some True) n (theServer b) = Done (n + 1) s1" and calls: "randCalls s1 = Suc (randCalls (theServer b))"
    using publish_draws b by blast
  obtain s' where "answered_publish ?env G n (theServer b) = Done (n + 1) s'" and rest: "at_rest e s'"
    using answered_publish_result b by blast
  with pub calls have "andThen (postSendToDestination ?env False s1)
      (\<lambda>_. handleResponse (success_response 872415233 (drawn_code (rand ?env) 1000 (randCalls s1 - 1)))) = Done () s'"
    by (auto simp: answered_publish_def andThen_Done_iff)
  moreover have "configured_env E (b\<lparr>theServer := s1\<rparr>) = ?env" by (simp add: configured_env_def)
  ultimately have "service_answers E k (b\<lparr>theServer := s1\<rparr>) = b\<lparr>theServer := s'\<rparr>"
    by (simp add: service_answers_def Let_def)
  with b pub rest show "\<exists>n' b'. in_server (publish (configured_env E b) G (theManager b) n (theServer b)) b = Done n' b' \<and>
      at_rest e (theServer (service_answers E k b')) \<and> theManager (service_answers E k b') = Some True"
    by (simp add: in_server_def)
qed (use assms in simp)

section \<open>The main of the subscriber\<close>

text \<open>Its loop prints and sleeps; \<open>rows\<close> is what has been printed.\<close>

partial_function (option) print_loop ::
    "(nat \<Rightarrow> ('addr, 'any, gps_handler, coordinates_cache) module_base \<Rightarrow> ('addr, 'any, gps_handler, coordinates_cache) module_base)
      \<Rightarrow> nat \<Rightarrow> (int \<times> int \<times> int) list list \<Rightarrow> ('addr, 'any, gps_handler, coordinates_cache) module_base
      \<Rightarrow> (unit, i32, ('addr, 'any, gps_handler, coordinates_cache) module_base) outcome option" where
  "print_loop others k rows b =
     print_loop others (Suc k) (rows @ [gps_print (handlersWorld (theServer b))]) (others k b)"

definition subscriber_task ::
    "('addr, 'any, gps_handler, coordinates_cache, 'j, 'f) startup_env \<Rightarrow> 'any gps_protocol
      \<Rightarrow> (nat \<Rightarrow> ('addr, 'any, gps_handler, coordinates_cache) module_base \<Rightarrow> ('addr, 'any, gps_handler, coordinates_cache) module_base)
      \<Rightarrow> ('addr, 'any, gps_handler, coordinates_cache) module_base
      \<Rightarrow> (unit, i32, ('addr, 'any, gps_handler, coordinates_cache) module_base) outcome" where
  "subscriber_task E G others b =
     andThen (in_server (subscriber_begin (configured_env E b) G (theManager b) (eventManagerSet b) (theServer b)) b)
       (\<lambda>_ b. case print_loop others 0 [] b of None \<Rightarrow> Blocks | Some r \<Rightarrow> r)"

lemma print_loop_for_ever: "print_loop others k rows b = None"
proof (rule ccontr)
  assume "print_loop others k rows b \<noteq> None"
  then obtain r where "print_loop others k rows b = Some r" by blast
  then show False by (rule print_loop.raw_induct [where P = "\<lambda>_ _ _ _ _. False", rotated])
qed

lemma subscriber_task_no_result: "subscriber_task E G others b \<noteq> Done x b'"
  by (cases "in_server (subscriber_begin (configured_env E b) G (theManager b) (eventManagerSet b) (theServer b)) b")
    (simp_all add: subscriber_task_def print_loop_for_ever)

section \<open>The process around the user's program\<close>

text \<open>Main gets as far as joinAll: what precedes it, the shutdown request included, has been done.\<close>

definition shuts_down ::
    "('addr, 'any, 'h, 'w, 'j, 'f) startup_env \<Rightarrow> bool \<Rightarrow> bool \<Rightarrow> ('addr, 'any, 'h, 'w) module_base \<Rightarrow> bool" where
  "shuts_down E handlers watcher b \<longleftrightarrow>
     (case module_startup E b of
        Done r _ \<Rightarrow> r = NoStartupError \<and> (case module_main E handlers watcher b of Done _ _ \<Rightarrow> True | _ \<Rightarrow> False)
      | _ \<Rightarrow> False)"

lemma endless_task:
  assumes "\<And>b1 x b2. userTask E b1 \<noteq> Done x b2"
  shows "\<not> shuts_down E handlers watcher b"
proof (cases "module_startup E b")
  case (Done r b1)
  with assms [of b1] show ?thesis
    by (cases "userTask E b1") (auto simp: shuts_down_def module_main_def startUserTask_def split: outcome.splits)
qed (simp_all add: shuts_down_def)

section \<open>Property\<close>

text \<open>C33:
  When a user's program can use the module. Its constructor runs too early: every request and
  subscription it makes is refused, every handler it registers is forgotten, and the module is
  constructed as if it had done nothing. The main of neither example returns, so once the start
  has succeeded nothing that follows it in the main of the process is done, the shutdown request
  included, whatever the other threads do meanwhile.
\<close>
theorem user_process_outcome:
  "do_user_calls env cs (module_members i logger code w) = Done (map refusal cs) (module_members i logger code w) \<and>
   construct_module_base db_constructs allocated (calling_constructor env cs) i logger code w =
     Done () (new_module_base db_constructs allocated i logger code w) \<and>
   \<not> shuts_down (E\<lparr>userTask := publisher_task E G others\<rparr>) handlers watcher b \<and>
   \<not> shuts_down (F\<lparr>userTask := subscriber_task F G' others'\<rparr>) handlers watcher d"
proof -
  have early: "do_user_calls env cs (module_members i logger code w) = Done (map refusal cs) (module_members i logger code w)"
    by (rule early_calls) (simp_all add: module_members_def)
  moreover from early have "construct_module_base db_constructs allocated (calling_constructor env cs) i logger code w =
      Done () (new_module_base db_constructs allocated i logger code w)"
    by (simp add: construct_module_base_def calling_constructor_def new_module_base_def)
      (simp add: module_members_def db_initialize_def initializeEventManager_def new_server_def)
  ultimately show ?thesis
    by (simp add: endless_task publisher_task_no_result subscriber_task_no_result)
qed

end
