(* ===== verification/Gps_Threads.thy ===== *)
theory Gps_Threads
  imports Gps_Example
begin

text \<open>
  GpsCoordinatesCache under several threads: its std::shared_mutex, which both of its operations
  lock shared, also the one that changes the map. The user's main prints on one thread while the
  handler of the subscription updates on the thread of the io_context.
\<close>

section \<open>A shared mutex\<close>

text \<open>What a thread does with the mutex and the map.\<close>

datatype gps_action = Lock_shared | Lock_exclusive | Unlock | Read_map | Write_map

record gps_threads =
  sharedBy :: "nat set"
  exclusiveBy :: "nat option"
  gpsTodo :: "gps_action list list"

definition gps_act :: "nat \<Rightarrow> gps_threads \<Rightarrow> gps_threads option" where
  "gps_act t s =
     (if t < length (gpsTodo s) then
        (case gpsTodo s ! t of
           [] \<Rightarrow> None
         | a # p \<Rightarrow>
            (let s' = s\<lparr>gpsTodo := (gpsTodo s)[t := p]\<rparr>
             in case a of
                  Lock_shared \<Rightarrow>
                    (if exclusiveBy s = None \<and> t \<notin> sharedBy s then Some (s'\<lparr>sharedBy := insert t (sharedBy s)\<rparr>) else None)
                | Lock_exclusive \<Rightarrow>
                    (if exclusiveBy s = None \<and> sharedBy s = {} then Some (s'\<lparr>exclusiveBy := Some t\<rparr>) else None)
                | Unlock \<Rightarrow>
                    (if exclusiveBy s = Some t then Some (s'\<lparr>exclusiveBy := None\<rparr>)
                     else if t \<in> sharedBy s then Some (s'\<lparr>sharedBy := sharedBy s - {t}\<rparr>) else None)
                | Read_map \<Rightarrow> Some s'
                | Write_map \<Rightarrow> Some s'))
      else None)"

fun gps_run_schedule :: "nat list \<Rightarrow> gps_threads \<Rightarrow> gps_threads option" where
  "gps_run_schedule [] s = Some s"
| "gps_run_schedule (t # ts) s = Option.bind (gps_act t s) (gps_run_schedule ts)"

section \<open>The two operations\<close>

datatype gps_call = Print_rows | Update_row

fun gps_actions :: "gps_call \<Rightarrow> gps_action list" where
  "gps_actions Print_rows = [Lock_shared, Read_map, Unlock]"
| "gps_actions Update_row = [Lock_shared, Read_map, Write_map, Unlock]"

definition gps_calling :: "gps_call list list \<Rightarrow> gps_threads" where
  "gps_calling css = \<lparr>sharedBy = {}, exclusiveBy = None, gpsTodo = map (\<lambda>cs. concat (map gps_actions cs)) css\<rparr>"

text \<open>Two threads are about to touch the map and one of them writes it.\<close>

definition map_race :: "gps_threads \<Rightarrow> bool" where
  "map_race s \<longleftrightarrow> (\<exists>t u p q. t \<noteq> u \<and> t < length (gpsTodo s) \<and> u < length (gpsTodo s) \<and>
     (gpsTodo s ! t = Read_map # p \<or> gpsTodo s ! t = Write_map # p) \<and> gpsTodo s ! u = Write_map # q)"

section \<open>Nobody ever waits\<close>

text \<open>Of a thread that holds the mutex or not: it locks it shared only, touches the map under it, and gives it back.\<close>

fun shares :: "bool \<Rightarrow> gps_action list \<Rightarrow> bool" where
  "shares h [] \<longleftrightarrow> \<not> h"
| "shares h (Lock_shared # p) \<longleftrightarrow> \<not> h \<and> shares True p"
| "shares h (Lock_exclusive # p) \<longleftrightarrow> False"
| "shares h (Unlock # p) \<longleftrightarrow> h \<and> shares False p"
| "shares h (Read_map # p) \<longleftrightarrow> h \<and> shares h p"
| "shares h (Write_map # p) \<longleftrightarrow> h \<and> shares h p"

definition all_share :: "gps_threads \<Rightarrow> bool" where
  "all_share s \<longleftrightarrow> exclusiveBy s = None \<and> (\<forall>t < length (gpsTodo s). shares (t \<in> sharedBy s) (gpsTodo s ! t))"

lemma shares_append: "shares h p \<Longrightarrow> shares False q \<Longrightarrow> shares h (p @ q)"
  by (induction h p rule: shares.induct) auto

lemma calls_share: "shares False (concat (map gps_actions cs))"
proof (induction cs)
  case (Cons c cs)
  have "shares False (gps_actions c)" by (cases c) simp_all
  from shares_append [OF this Cons] show ?case by simp
qed simp

lemma calling_shares: "all_share (gps_calling css)"
  by (simp add: all_share_def gps_calling_def calls_share)

text \<open>A thread that has something to do can always do it, and takes nothing from the others.\<close>

lemma gps_act_defined:
  assumes "all_share s" and "t < length (gpsTodo s)" and "gpsTodo s ! t = a # p"
  obtains s' where "gps_act t s = Some s'" and "all_share s'" and "gpsTodo s' = (gpsTodo s)[t := p]"
proof -
  from assms have mine: "shares (t \<in> sharedBy s) (a # p)" and free: "exclusiveBy s = None"
    by (auto simp: all_share_def)
  have others: "shares (u \<in> sharedBy s) (gpsTodo s ! u)" if "u < length (gpsTodo s)" for u
    using assms(1) that by (simp add: all_share_def)
  let ?s = "s\<lparr>gpsTodo := (gpsTodo s)[t := p]\<rparr>"
  show thesis
  proof (cases a)
    case Lock_shared
    with mine free others show ?thesis
      by (intro that [of "?s\<lparr>sharedBy := insert t (sharedBy s)\<rparr>"]) (auto simp: gps_act_def assms all_share_def nth_list_update)
  next
    case Unlock
    with mine free others show ?thesis
      by (intro that [of "?s\<lparr>sharedBy := sharedBy s - {t}\<rparr>"]) (auto simp: gps_act_def assms all_share_def nth_list_update)
  qed (use mine free others in \<open>auto intro!: that [of ?s] simp: gps_act_def assms all_share_def nth_list_update\<close>)
qed

lemma gps_act_todo:
  assumes "gps_act t s = Some s'"
  obtains a p where "t < length (gpsTodo s)" and "gpsTodo s ! t = a # p" and "gpsTodo s' = (gpsTodo s)[t := p]"
  using assms by (auto simp: gps_act_def Let_def split: if_splits list.splits gps_action.splits)

lemma gps_run_shares: "gps_run_schedule ts s = Some s' \<Longrightarrow> all_share s \<Longrightarrow> all_share s'"
proof (induction ts arbitrary: s)
  case (Cons t ts)
  then obtain s1 where s1: "gps_act t s = Some s1" "gps_run_schedule ts s1 = Some s'" by (auto split: bind_splits)
  obtain a p where "t < length (gpsTodo s)" "gpsTodo s ! t = a # p" using s1(1) by (rule gps_act_todo)
  from gps_act_defined [OF Cons.prems(2) this] s1 Cons.IH show ?case by (metis option.inject)
qed simp

section \<open>Which schedules race\<close>

text \<open>What is left to do was there at the start.\<close>

lemma gps_run_todo:
  "gps_run_schedule ts s = Some s' \<Longrightarrow>
    length (gpsTodo s') = length (gpsTodo s) \<and> (\<forall>t < length (gpsTodo s). set (gpsTodo s' ! t) \<subseteq> set (gpsTodo s ! t))"
proof (induction ts arbitrary: s)
  case (Cons t ts)
  then obtain s1 where s1: "gps_act t s = Some s1" "gps_run_schedule ts s1 = Some s'" by (auto split: bind_splits)
  obtain a p where act: "t < length (gpsTodo s)" "gpsTodo s ! t = a # p" "gpsTodo s1 = (gpsTodo s)[t := p]"
    using s1(1) by (rule gps_act_todo)
  then have "set (gpsTodo s1 ! u) \<subseteq> set (gpsTodo s ! u)" if "u < length (gpsTodo s)" for u
    using that by (auto simp: nth_list_update)
  with Cons.IH [OF s1(2)] act show ?case by (metis length_list_update subset_trans)
qed simp

text \<open>A thread can be taken to any point of its program, the others where they are.\<close>

lemma gps_run_thread:
  "all_share s \<Longrightarrow> t < length (gpsTodo s) \<Longrightarrow> gpsTodo s ! t = p @ q \<Longrightarrow>
    \<exists>s'. gps_run_schedule (replicate (length p) t) s = Some s' \<and> all_share s' \<and> gpsTodo s' = (gpsTodo s)[t := q]"
proof (induction p arbitrary: s)
  case Nil
  then show ?case by (metis append_Nil gps_run_schedule.simps(1) list.size(3) list_update_id replicate_0)
next
  case (Cons a p)
  obtain s1 where s1: "gps_act t s = Some s1" "all_share s1" "gpsTodo s1 = (gpsTodo s)[t := p @ q]"
    using gps_act_defined [OF Cons.prems(1,2)] Cons.prems(3) by auto
  with Cons.IH [of s1] Cons.prems(2) show ?case by (auto simp: nth_list_update)
qed

lemma write_in_calls: "Write_map \<in> set (concat (map gps_actions cs)) \<longleftrightarrow> Update_row \<in> set cs"
proof (induction cs)
  case (Cons c cs)
  then show ?case by (cases c) auto
qed simp

lemma gps_run_append: "gps_run_schedule (ts @ us) s = Option.bind (gps_run_schedule ts s) (gps_run_schedule us)"
  by (induction ts arbitrary: s) (auto split: bind_splits)

text \<open>
  The mutex keeps nobody out: the map can be written while another thread reads or writes it if
  and only if two threads use the cache and one of the two updates it. In return no thread ever
  waits: in every point of every schedule each thread that has something left to do can act.
\<close>

lemma gps_cache_races:
  "(\<exists>ts s. gps_run_schedule ts (gps_calling css) = Some s \<and> map_race s) \<longleftrightarrow>
    (\<exists>t u. t \<noteq> u \<and> t < length css \<and> u < length css \<and> css ! t \<noteq> [] \<and> Update_row \<in> set (css ! u))" (is "?race \<longleftrightarrow> ?calls")
proof
  assume ?race
  then obtain ts s t u p q where run: "gps_run_schedule ts (gps_calling css) = Some s" and tu: "t \<noteq> u" "t < length (gpsTodo s)"
    "u < length (gpsTodo s)" "gpsTodo s ! t = Read_map # p \<or> gpsTodo s ! t = Write_map # p" "gpsTodo s ! u = Write_map # q"
    by (auto simp: map_race_def)
  from gps_run_todo [OF run] tu(2,3)
  have len: "t < length css" "u < length css" and sub: "set (gpsTodo s ! t) \<subseteq> set (concat (map gps_actions (css ! t)))"
    "set (gpsTodo s ! u) \<subseteq> set (concat (map gps_actions (css ! u)))"
    by (simp_all add: gps_calling_def)
  from sub(2) tu(5) have "Update_row \<in> set (css ! u)" using write_in_calls by fastforce
  moreover from sub(1) tu(4) have "css ! t \<noteq> []" by auto
  ultimately show ?calls using len tu(1) by blast
next
  assume ?calls
  then obtain t u where tu: "t \<noteq> u" "t < length css" "u < length css" "css ! t \<noteq> []" "Update_row \<in> set (css ! u)" by blast
  from tu(5) obtain before after where u: "css ! u = before @ Update_row # after" by (meson split_list)
  let ?p = "concat (map gps_actions before) @ [Lock_shared, Read_map]" and ?q = "[Write_map, Unlock] @ concat (map gps_actions after)"
  have "gpsTodo (gps_calling css) ! u = ?p @ ?q" using tu(3) u by (simp add: gps_calling_def)
  from gps_run_thread [OF calling_shares _ this] tu(3) obtain s1 where s1: "gps_run_schedule (replicate (length ?p) u) (gps_calling css) = Some s1"
    "all_share s1" "gpsTodo s1 = (gpsTodo (gps_calling css))[u := ?q]" by (auto simp: gps_calling_def)
  from tu(4) obtain c cs where t: "css ! t = c # cs" by (cases "css ! t") auto
  obtain r where first: "gps_actions c = Lock_shared # Read_map # r" by (cases c) simp_all
  then have "gpsTodo s1 ! t = [Lock_shared] @ Read_map # r @ concat (map gps_actions cs)"
    using tu(1,2) t by (simp add: s1(3) gps_calling_def nth_list_update)
  from gps_run_thread [OF s1(2) _ this] tu(2) s1(3) obtain s2 where s2: "gps_run_schedule [t] s1 = Some s2"
    "gpsTodo s2 = (gpsTodo s1)[t := Read_map # r @ concat (map gps_actions cs)]" by (auto simp: gps_calling_def)
  have "map_race s2"
    unfolding map_race_def using tu(1-3) s2(2) s1(3)
    by (intro exI [of _ t] exI [of _ u]) (simp add: gps_calling_def nth_list_update)
  moreover have "gps_run_schedule (replicate (length ?p) u @ [t]) (gps_calling css) = Some s2"
    using s1(1) s2(1) by (simp only: gps_run_append Option.bind.simps)
  ultimately show ?race by blast
qed

lemma gps_cache_never_waits:
  assumes "gps_run_schedule ts (gps_calling css) = Some s" and "t < length css" and "gpsTodo s ! t \<noteq> []"
  shows "gps_act t s \<noteq> None"
proof -
  have "t < length (gpsTodo s)" using gps_run_todo [OF assms(1)] assms(2) by (simp add: gps_calling_def)
  moreover obtain a p where "gpsTodo s ! t = a # p" using assms(3) by (cases "gpsTodo s ! t") auto
  ultimately show ?thesis
    using gps_act_defined [OF gps_run_shares [OF assms(1) calling_shares]] by (metis option.distinct(1))
qed

end
