(* ===== verification/Spec2Isabelle.thy ===== *)
theory Spec2Isabelle
  imports Identifiers Timers_Thread Startup Logging Server_Threads Server_Races Server_Delivery
    Connection_Safety Tcp_Threads Server_Replies Watchdog_Heartbeat Shutdown
    Events_Registering Gps_Example Data_Races Server_Clock Module_Progress Io_Thread
    Repository_Tests Lock_Accounts Connection_Accounts Heartbeats User_Process Gps_Threads
begin

text \<open>
  A verification library for ProcessManagerModule, the C++ library that a user's program links
  to become a module of the process manager: it registers with a watchdog over TCP, sends
  requests to services over UDP with timed resends, dispatches incoming requests to handlers,
  and runs timers.

  The program. \<open>main\<close> (ModuleMain.cpp) builds a ModuleBase, which owns everything else and
  starts three threads: one runs the boost io_context, on which all completion handlers run; one
  is the WatchdogConnectionWatcher; one is TimersThreadMain, which runs the callbacks of the
  timer cache. main then reads the configuration, connects to the watchdog, waits for its
  answer, opens the UDP socket and calls the user's program, which reaches the server through
  the static Module::Manager. The threads share the timer cache, the message queues, the state
  of the watchdog connection (each behind a mutex) and, without a mutex, the server's map from
  transaction codes to timers.

  The theories, and what they model (paths under src/Source, a .cpp with its header):
  \<^item> Prelude: machine types, the outcomes of an operation (done, exception, blocked for ever,
    undefined behaviour), std::multimap and std::find_if as lists, shared facts.
  \<^item> Identifiers: Types.cpp, ApplicationDetails.cpp, ModuleRegistrationState.hpp. Message_Queue: MessageQueue.hpp.
    Messages: ModuleMessageMakers.cpp.
  \<^item> Configuration: ModuleConfiguration.cpp, ModuleConfigurationReader.cpp, the levels of
    Logging.hpp. Logging: what the functions of Logging.hpp write.
  \<^item> Services: MongoServicesCollection.cpp, MongoDbEnvironment.cpp.
  \<^item> Events: Event.hpp, ModuleEventsCache.cpp, EventManager.cpp. Events_Registering: the dispatch
    loop when handlers register further handlers.
  \<^item> Locking: threads that take mutexes, wait for conditions and touch shared data, in general.
    Lock_Usage: what each operation of the module locks, awaits, notifies and touches, on every path.
    Data_Races: which data race, and where the threads come to rest. Lock_Accounts, Connection_Accounts: that the operations of
    the server and of the watchdog connection change only what their action sequences store.
  \<^item> Timers: Timer.hpp, Timer.cpp. Timers_Cache: TimersCache.cpp. Timers_Loop: the round of
    TimersThreadMain. Timers_Thread: TimersThreadMain.cpp interleaved with other threads.
  \<^item> Server: ModuleServer.cpp, every member function and completion handler.
    Server_Requests, Server_Responses, Server_Resend: its operations branch by branch.
    Server_Steps: any run of the server with the timers thread, as a step relation.
    Server_Traffic: what reaches the socket. Server_Codes: the invariant of open requests.
    Server_Bounds: how many codes and timers it can hold. Server_Progress: which operations come
    to an end in the states that are reachable. Server_Replies: handlers that send requests.
    Server_Clock: the times of its timers in 64 bits.
  \<^item> Server_Threads: the senders and the completion handler of ModuleServer.cpp one locked call at a
    time, by several threads. Server_Races: handleResponse against the timers thread.
    Server_Delivery: a request from one module to the handlers of another.
  \<^item> Managers: ModuleManager.cpp, ModuleTimersManager.cpp, ModuleConnectionManager.cpp.
    User_Timers: the user's timers in the cache that the server uses. Module_Progress: which
    operations come to an end then.
  \<^item> Tcp_Connection: Connection.hpp, Communication.hpp. Tcp_Frames: its writer and reader over
    sequences of sends and completions. Tcp_Threads: sendMessage and the handler of a body by
    several threads.
  \<^item> Watchdog_Connection: ModuleConnection.cpp, ModuleWatchdogConnectionState.cpp and the three
    ModuleResponse handlers. Connection_Safety: any run of that connection is defined.
    Watchdog_Watcher: the watcher thread of ModuleConnection.hpp as a state machine.
    Watchdog_Reconnect: its reconnection loop on the connection. Watchdog_Heartbeat: timer, ping
    and response end to end. Heartbeats: several heartbeats at once, in any interleaving.
  \<^item> Io_Thread: the completion handlers of server and connection on the thread of the io_context.
  \<^item> Startup: ModuleBase.cpp and ModuleMain.cpp. Shutdown: whether the shutdown request leaves.
    User_Process: ModuleUserProcess.hpp, the constructor of a user's program and its main.
  \<^item> Gps_Example: the two modules of src/Tests/ExampleModuleTests, as users of the library.
    Gps_Threads: GpsCoordinatesCache.hpp under several threads.
    Repository_Tests: the unit tests of src/Tests, run on the model.

  State and operations. A class is a record with its fields under their names in the code, a
  member function a definition of its name on that record; names that Isabelle reserves have a
  suffix or the class as a prefix. An operation behind a mutex is one atomic step, and a caller
  that already holds the mutex is blocked (the outcome \<^const>\<open>Blocks\<close>, or no value where an
  operation cannot fail otherwise). An asynchronous call of boost only records that it was
  started; its completion handler is an operation whose argument is what the socket reports.
  The clock, rand, the socket calls, the JSON library, the database driver, the generated
  protobuf classes and the user's handlers and callbacks are parameters: fields of
  \<open>server_env\<close>, \<open>json_library\<close>, \<open>watchdog_protocol\<close> and \<open>startup_env\<close>, or arguments.

  What the lemmas show.
  \<^item> Containers: the message queue refines a first-in first-out list; the timer cache
    refines a finite map from identifiers to timers, through the locale
    \<open>timer_store\<close>, whose interpretation on the cache's own operations the server's
    proofs use; the cache of events runs exactly the handlers of a sender, unless they register
    others meanwhile.
  \<^item> Timers: the invariant of the cache, the exact effect of a round, which callbacks it calls, in
    which order and on which world, that no registration or removal is slept through in any
    interleaving, and what a throwing callback leaves behind.
  \<^item> Server: that datagrams leave in order and one at a time in every reachable state; that
    every open transaction code has its timer, and every timer its datagram; the outcome of each
    operation on each branch; the round trip of request and response; that every operation ends in
    every reachable state, the round of the timers thread excepted, and when that one does not,
    with user timers too; and the states that are never left again (a failed send, a failed
    receive, a resend under the lock of the timer cache).
  \<^item> Threads: uninterrupted, the calls of a sender are the atomic functions of the theories
    above, and one thread alone keeps at most one datagram on its way; but two threads can stall
    the server, send a message twice and pop an empty queue, erase through an invalid iterator,
    write a header twice, or leave a message unsent. Each race is a schedule that the model
    executes.
  \<^item> TCP connection: no run of the watchdog connection is undefined; the writer puts the
    frames on the wire in the order of the sends, and a reader at the other end delivers exactly
    those; the header with an empty body as the case that stops each of them.
  \<^item> Locks: a locale for programs that keep a locking discipline, interpreted on what the
    operations of the module do: the data behind a mutex never race and the other data do; and
    finitely many calls come to rest with each thread done or asleep at a wait without a time limit
    whose condition does not hold, unless a timer callback locks timersLock itself, as it does when
    it sends with nothing queued or registers or removes a timer: then some thread waits for ever for a mutex. The
    paths are tied to the operations of the server and of the watchdog connection: what these
    change is among what their actions store.
  \<^item> User timers: the user's timers leave the requests of the server alone, until an
    identifier that the cache has used again is removed.
  \<^item> Watchdog: the effect of each response, what a lost connection can never get back, which
    messages precede a reconnect, that heartbeats are neither lost nor joined unless the watchdog
    refuses or repeats itself, that the reconnection loop ends only with the module, and when the
    watcher thread ends.
  \<^item> Process: which completions throw out of their handler and so end the process.
  \<^item> Startup: what holds when the user's program begins, which stage each error code names, how many
    write completions the shutdown request needs before the io_context is stopped, on whichever
    thread they run, until its body is handed to the socket and until it is written, and how the process ends. What the constructor
    of the user's program asks of the module is lost.
  \<^item> Example modules: what the subscriber prints after any datagrams, and what any number of
    answered publications leaves behind; which threads race for the cache of the subscriber.
    Tests: each of their sections holds.

  Bounds. The searches of TimersCache::generateTimerID and Server::generateTransactionCode are
  \<open>partial_function (option)\<close>, with no value when they do not end; that they end is
  proved from room in the cache, or from a free draw. The dispatch loop with handlers that
  register handlers is one too: a handler that registers itself gives it no value. The loops of
  the two example programs are others, without a value at all. A run of the writer completes two
  writes per message, header and body, so \<open>2 * n\<close> completions empty a queue of n.
  In Data_Races each action shortens the measure \<open>effort\<close>, so every interleaving of finitely
  many calls is finite. Left to itself the watcher thread leaves or blocks within five of its steps. Its reconnection
  loop is a partial function as well, with no value when it does not end, which is proved of it.
  Times are unbounded integers of nanoseconds; Server_Clock shows that for the timers of the
  server the 64-bit arithmetic of std::chrono is defined and gives the same, and that for a user's
  duration it may not.

  What is not modelled. The format of the log, the bytes protobuf produces, console output; the
  byte level of a TCP header beyond its size. Handlers of requests act on the rest of the program,
  register handlers or send requests, each in a theory of its own; callbacks of user timers send
  requests and act on the rest of the program. Outside Server_Threads, Server_Races, Tcp_Threads,
  Timers_Thread, Watchdog_Watcher, Data_Races and Gps_Threads each function is one step. In
  Data_Races the calls of a thread are any paths through the code, also ones that the data would
  not let it take. That a message body may not fit the memory is a case of Io_Thread only.
\<close>

end
